(* ===== verification/Ord_Map.thy ===== *)
theory Ord_Map
  imports Main
begin

text \<open>
  \<open>std::map<int, V>\<close>, the container of the orders in \<open>include/server.h\<close> and in
  \<open>src/display_main.cpp\<close>. The program uses \<open>find\<close>, assignment through \<open>operator[]\<close>, \<open>erase\<close>
  and iteration in key order; the locale \<open>std_map\<close> states what it relies on, the model is an
  association list sorted by key.
\<close>

locale std_map =
  fixes find :: "'m \<Rightarrow> int \<Rightarrow> 'v option"
    and assign :: "'m \<Rightarrow> int \<Rightarrow> 'v \<Rightarrow> 'm"
    and erase :: "'m \<Rightarrow> int \<Rightarrow> 'm"
    and entries :: "'m \<Rightarrow> (int \<times> 'v) list"
    and empty :: 'm
    and ok :: "'m \<Rightarrow> bool"
  assumes ok_empty: "ok empty"
    and ok_assign: "ok m \<Longrightarrow> ok (assign m k v)"
    and ok_erase: "ok m \<Longrightarrow> ok (erase m k)"
    and find_empty: "find empty = Map.empty"
    and find_assign: "ok m \<Longrightarrow> find (assign m k v) = (find m)(k \<mapsto> v)"
    and find_erase: "ok m \<Longrightarrow> find (erase m k) = (find m)(k := None)"
    and find_entries: "ok m \<Longrightarrow> find m = map_of (entries m)"
    and entries_sorted: "ok m \<Longrightarrow> sorted_wrt (<) (map fst (entries m))"
    and entries_inject: "ok m \<Longrightarrow> ok m' \<Longrightarrow> entries m = entries m' \<Longrightarrow> m = m'"
begin

lemma entries_distinct: "ok m \<Longrightarrow> distinct (map fst (entries m))"
  using entries_sorted strict_sorted_iff by blast

lemma find_iff_entries: "ok m \<Longrightarrow> find m k = Some v \<longleftrightarrow> (k, v) \<in> set (entries m)"
  by (simp add: find_entries entries_distinct)

lemma map_eqI:
  assumes "ok m" and "ok m'" and "find m = find m'"
  shows "m = m'"
proof (rule entries_inject [OF assms(1,2)])
  have "set (entries m) = set (entries m')"
    using assms find_iff_entries by (auto simp flip: find_iff_entries)
  moreover have "sorted (map fst (entries m))" "sorted (map fst (entries m'))"
    using assms entries_sorted strict_sorted_iff by blast+
  ultimately show "entries m = entries m'"
    using assms(1,2) by (intro map_sorted_distinct_set_unique [where f = fst])
      (auto simp: entries_distinct inj_on_def find_iff_entries [symmetric])
qed

lemma assign_assign: "ok m \<Longrightarrow> assign (assign m k v) k w = assign m k w"
  by (rule map_eqI) (simp_all add: ok_assign find_assign)

lemma erase_assign: "ok m \<Longrightarrow> erase (assign m k v) k = erase m k"
  by (rule map_eqI) (simp_all add: ok_assign ok_erase find_assign find_erase)

lemma assign_same: "ok m \<Longrightarrow> find m k = Some v \<Longrightarrow> assign m k v = m"
  by (rule map_eqI) (auto simp: ok_assign find_assign)

text \<open>Assigning a list of entries one after the other.\<close>

lemma foldl_assign:
  "ok m \<Longrightarrow> ok (foldl (\<lambda>m (k, v). assign m k v) m es) \<and>
     find (foldl (\<lambda>m (k, v). assign m k v) m es) = find m ++ map_of (rev es)"
proof (induction es arbitrary: m)
  case (Cons e es)
  obtain k v where e: "e = (k, v)" by (cases e)
  have "find m ++ map_of (rev es @ [(k, v)]) = (find m)(k \<mapsto> v) ++ map_of (rev es)"
    by (simp add: fun_eq_iff map_add_def split: option.splits)
  with Cons.IH [OF ok_assign [OF Cons.prems], of k v] show ?case
    by (simp only: e foldl.simps prod.case find_assign [OF Cons.prems] rev.simps)
qed simp

lemma map_of_rev_entries: "ok m \<Longrightarrow> map_of (rev (entries m)) = map_of (entries m)"
  by (rule map_of_inject_set [THEN iffD2]) (simp_all add: entries_distinct rev_map [symmetric])

lemma replay_entries: "ok m \<Longrightarrow> foldl (\<lambda>m (k, v). assign m k v) empty (entries m) = m"
  by (rule map_eqI)
    (simp_all add: foldl_assign ok_empty find_empty map_of_rev_entries flip: find_entries)

end

subsection \<open>Sorted association lists\<close>

fun om_find :: "(int \<times> 'v) list \<Rightarrow> int \<Rightarrow> 'v option" where
  "om_find [] k = None"
| "om_find ((a, b) # m) k = (if k = a then Some b else om_find m k)"

fun om_assign :: "(int \<times> 'v) list \<Rightarrow> int \<Rightarrow> 'v \<Rightarrow> (int \<times> 'v) list" where
  "om_assign [] k v = [(k, v)]"
| "om_assign ((a, b) # m) k v =
     (if k < a then (k, v) # (a, b) # m
      else if k = a then (k, v) # m
      else (a, b) # om_assign m k v)"

fun om_erase :: "(int \<times> 'v) list \<Rightarrow> int \<Rightarrow> (int \<times> 'v) list" where
  "om_erase [] k = []"
| "om_erase ((a, b) # m) k = (if k = a then m else (a, b) # om_erase m k)"

definition om_ok :: "(int \<times> 'v) list \<Rightarrow> bool" where
  "om_ok m \<longleftrightarrow> sorted_wrt (<) (map fst m)"

lemma om_find_map_of: "om_find m = map_of m"
  by (induction m) (auto simp: fun_eq_iff)

lemma keys_om_assign: "fst ` set (om_assign m k v) = insert k (fst ` set m)"
  by (induction m k v rule: om_assign.induct) auto

lemma keys_om_erase: "fst ` set (om_erase m k) \<subseteq> fst ` set m"
  by (induction m k rule: om_erase.induct) auto

lemma om_ok_assign: "om_ok m \<Longrightarrow> om_ok (om_assign m k v)"
  unfolding om_ok_def
proof (induction m k v rule: om_assign.induct)
  case (2 a b m k v)
  have "\<forall>x\<in>fst ` set (om_assign m k v). a < x" if "a < k"
    using 2 that by (auto simp: keys_om_assign)
  with 2 show ?case by (auto simp: not_less less_le)
qed simp

lemma om_ok_erase: "om_ok m \<Longrightarrow> om_ok (om_erase m k)"
  unfolding om_ok_def
proof (induction m k rule: om_erase.induct)
  case (2 a b m k)
  then have "\<forall>x\<in>fst ` set (om_erase m k). a < x"
    using keys_om_erase by fastforce
  with 2 show ?case by auto
qed simp

lemma om_find_erase: "om_ok m \<Longrightarrow> om_find (om_erase m k) = (om_find m)(k := None)"
  unfolding om_ok_def om_find_map_of
proof (induction m k rule: om_erase.induct)
  case (2 a b m k)
  then have "a \<notin> fst ` set m" by auto
  then have "map_of m a = None" by (simp add: map_of_eq_None_iff)
  with 2 show ?case by (auto simp: fun_eq_iff)
qed simp

interpretation om: std_map om_find om_assign om_erase "\<lambda>m. m" "[]" om_ok
proof
  show "om_find (om_assign m k v) = (om_find m)(k \<mapsto> v)" for m :: "(int \<times> 'a) list" and k v
    by (induction m k v rule: om_assign.induct) (auto simp: fun_eq_iff)
next
  fix m :: "(int \<times> 'a) list" and k v
  assume "om_ok m"
  then show "om_ok (om_assign m k v)" "om_ok (om_erase m k)"
    "om_find (om_erase m k) = (om_find m)(k := None)"
    by (fact om_ok_assign om_ok_erase om_find_erase)+
qed (simp_all add: om_find_map_of om_ok_def)

end
