(* ===== verification/Prelude.thy ===== *)
theory Prelude
  imports Main
begin

text \<open>
  Shared vocabulary of the development: sequencing of fallible computations (a C++
  function that may throw is a function into a sum, \<open>Inl\<close> the exception), traversal of
  a list that stops at the first exception, strings joined and split at a separator, and
  the interface of an encoder with its decoder as a locale.
\<close>

named_theorems res_simps \<open>results of fallible computations\<close>
named_theorems sep_simps \<open>splitting and joining at a separator\<close>

subsection \<open>Fallible computations\<close>

definition bindR :: "'e + 'a \<Rightarrow> ('a \<Rightarrow> 'e + 'b) \<Rightarrow> 'e + 'b" where
  "bindR m f = (case m of Inl e \<Rightarrow> Inl e | Inr x \<Rightarrow> f x)"

lemma bindR_Inl [simp]: "bindR (Inl e) f = Inl e"
  by (simp add: bindR_def)

lemma bindR_Inr [simp]: "bindR (Inr x) f = f x"
  by (simp add: bindR_def)

lemma bindR_eq_Inr [res_simps]:
  "bindR m f = Inr y \<longleftrightarrow> (\<exists>x. m = Inr x \<and> f x = Inr y)"
  by (cases m) auto

lemma bindR_eq_Inl [res_simps]:
  "bindR m f = Inl e \<longleftrightarrow> m = Inl e \<or> (\<exists>x. m = Inr x \<and> f x = Inl e)"
  by (cases m) auto

lemma bindR_cong [fundef_cong]:
  assumes "m = n" and "\<And>x. n = Inr x \<Longrightarrow> f x = g x"
  shows "bindR m f = bindR n g"
  using assms by (cases n) auto

text \<open>A guard: \<open>throw\<close> unless the condition holds.\<close>

definition ensure :: "bool \<Rightarrow> 'e \<Rightarrow> 'e + unit" where
  "ensure b e = (if b then Inr () else Inl e)"

lemma ensure_simps [simp]: "ensure True e = Inr ()" "ensure False e = Inl e"
  by (simp_all add: ensure_def)

lemma ensure_eq_Inr [res_simps]: "ensure b e = Inr u \<longleftrightarrow> b"
  by (simp add: ensure_def)

lemma ensure_eq_Inl [res_simps]: "ensure b e = Inl e' \<longleftrightarrow> \<not> b \<and> e' = e"
  by (auto simp: ensure_def)

text \<open>A loop that appends one result per element and stops at the first exception.\<close>

fun mapR :: "('a \<Rightarrow> 'e + 'b) \<Rightarrow> 'a list \<Rightarrow> 'e + 'b list" where
  "mapR f [] = Inr []"
| "mapR f (x # xs) = bindR (f x) (\<lambda>y. bindR (mapR f xs) (\<lambda>ys. Inr (y # ys)))"

lemma mapR_cong [fundef_cong]:
  assumes "xs = ys" and "\<And>x. x \<in> set ys \<Longrightarrow> f x = g x"
  shows "mapR f xs = mapR g ys"
  using assms by (induction ys arbitrary: xs) auto

lemma mapR_eq_Inr:
  "mapR f xs = Inr ys \<longleftrightarrow> list_all2 (\<lambda>x y. f x = Inr y) xs ys"
  by (induction xs arbitrary: ys) (auto simp: res_simps list_all2_Cons1)

lemma mapR_Inr_set:
  "mapR f xs = Inr ys \<Longrightarrow> y \<in> set ys \<Longrightarrow> \<exists>x\<in>set xs. f x = Inr y"
  by (induction xs arbitrary: ys) (auto simp: res_simps)

lemma mapR_Inr_length: "mapR f xs = Inr ys \<Longrightarrow> length ys = length xs"
  by (simp add: mapR_eq_Inr list_all2_lengthD)

lemma mapR_eq_Inl: "mapR f xs = Inl e \<Longrightarrow> \<exists>x\<in>set xs. f x = Inl e"
  by (induction xs) (auto simp: res_simps)

lemma mapR_map_Inr: "(\<And>x. x \<in> set xs \<Longrightarrow> f (g x) = Inr x) \<Longrightarrow> mapR f (map g xs) = Inr xs"
  by (induction xs) auto

subsection \<open>Joining and splitting at a separator\<close>

fun join :: "char \<Rightarrow> string list \<Rightarrow> string" where
  "join sep [] = []"
| "join sep [t] = t"
| "join sep (t # u # ts) = t @ sep # join sep (u # ts)"

fun splitc :: "char \<Rightarrow> string \<Rightarrow> string list" where
  "splitc sep [] = [[]]"
| "splitc sep (c # cs) =
     (if c = sep then [] # splitc sep cs
      else case splitc sep cs of [] \<Rightarrow> [[c]] | t # ts \<Rightarrow> (c # t) # ts)"

lemma splitc_not_Nil [simp]: "splitc sep s \<noteq> []"
  by (induction s) (auto split: list.splits)

lemma splitc_no_sep [sep_simps]: "sep \<notin> set s \<Longrightarrow> splitc sep s = [s]"
  by (induction s) auto

lemma splitc_append_sep [sep_simps]:
  "sep \<notin> set t \<Longrightarrow> splitc sep (t @ sep # s) = t # splitc sep s"
  by (induction t) auto

lemma splitc_join:
  "ts \<noteq> [] \<Longrightarrow> (\<And>t. t \<in> set ts \<Longrightarrow> sep \<notin> set t) \<Longrightarrow> splitc sep (join sep ts) = ts"
  by (induction sep ts rule: join.induct) (simp_all add: sep_simps)

lemma join_splitc [simp]: "join sep (splitc sep s) = s"
proof (induction s)
  case (Cons c s)
  obtain t ts where "splitc sep s = t # ts"
    by (cases "splitc sep s") auto
  with Cons show ?case by (cases ts) auto
qed simp

lemma splitc_sep_free_all: "\<forall>t\<in>set (splitc sep s). sep \<notin> set t"
proof (induction s)
  case (Cons c s)
  obtain u us where "splitc sep s = u # us"
    by (cases "splitc sep s") auto
  with Cons show ?case by simp
qed simp

lemma splitc_sep_free: "t \<in> set (splitc sep s) \<Longrightarrow> sep \<notin> set t"
  using splitc_sep_free_all by blast

lemma splitc_subset:
  assumes "t \<in> set (splitc sep s)"
  shows "set t \<subseteq> set s"
proof -
  have "set t \<subseteq> set (join sep ts)" if "t \<in> set ts" for ts
    using that by (induction sep ts rule: join.induct) auto
  from this [OF assms] show ?thesis by simp
qed

lemma set_join: "c \<in> set (join sep ts) \<Longrightarrow> c = sep \<or> (\<exists>t\<in>set ts. c \<in> set t)"
  by (induction sep ts rule: join.induct) auto

lemma length_splitc: "length (splitc sep s) = Suc (count_list s sep)"
proof (induction s)
  case (Cons c s)
  obtain t ts where "splitc sep s = t # ts"
    by (cases "splitc sep s") auto
  with Cons show ?case by simp
qed simp

subsection \<open>Encoders and decoders\<close>

text \<open>
  The contract between an encoder that may fail and its decoder: on every value that
  satisfies \<open>ok\<close>, encoding succeeds and decoding gives the value back.
\<close>

locale codec =
  fixes enc :: "'a \<Rightarrow> 'e + 'b"
    and dec :: "'b \<Rightarrow> 'e + 'a"
    and ok :: "'a \<Rightarrow> bool"
  assumes dec_enc: "ok x \<Longrightarrow> bindR (enc x) dec = Inr x"
begin

lemma enc_succeeds: "ok x \<Longrightarrow> \<exists>s. enc x = Inr s \<and> dec s = Inr x"
  using dec_enc [of x] by (auto simp: res_simps)

lemma enc_injective:
  assumes "ok x" and "ok y" and "enc x = enc y"
  shows "x = y"
proof -
  have "Inr x = bindR (enc y) dec"
    using dec_enc [OF assms(1)] by (simp add: assms(3))
  also have "\<dots> = Inr y"
    by (rule dec_enc [OF assms(2)])
  finally show ?thesis by simp
qed

lemma enc_dec_normal:
  assumes "dec s = Inr x" and "ok x"
  shows "\<exists>s'. enc x = Inr s' \<and> dec s' = Inr x"
  using assms(2) by (rule enc_succeeds)

end

text \<open>An encoder that cannot fail, onto strings.\<close>

locale text_codec =
  fixes showt :: "'a \<Rightarrow> string"
    and readt :: "string \<Rightarrow> 'e + 'a"
    and ok :: "'a \<Rightarrow> bool"
  assumes read_show: "ok x \<Longrightarrow> readt (showt x) = Inr x"

sublocale text_codec \<subseteq> codec "\<lambda>x. Inr (showt x)" readt ok
  by unfold_locales (simp add: read_show)

text \<open>
  A text encoder whose output avoids a separator: lists of such values are encoded by
  joining and decoded by splitting.
\<close>

locale sep_codec = text_codec showt readt ok
  for showt :: "'a \<Rightarrow> string" and readt :: "string \<Rightarrow> 'e + 'a" and ok :: "'a \<Rightarrow> bool" +
  fixes sep :: char
  assumes sep_free: "ok x \<Longrightarrow> sep \<notin> set (showt x)"
begin

lemma list_read_show:
  assumes "xs \<noteq> []" and "\<And>x. x \<in> set xs \<Longrightarrow> ok x"
  shows "mapR readt (splitc sep (join sep (map showt xs))) = Inr xs"
proof -
  have "splitc sep (join sep (map showt xs)) = map showt xs"
    using assms by (intro splitc_join) (auto simp: sep_free)
  then show ?thesis using assms by (simp add: mapR_map_Inr read_show)
qed

end

text \<open>
  Two layers of encoding, one on top of the other (the text of a message, then its frame).
\<close>

locale codec_stack = inner: codec enc1 dec1 ok1 + outer: codec enc2 dec2 ok2
  for enc1 :: "'a \<Rightarrow> 'e + 'b" and dec1 :: "'b \<Rightarrow> 'e + 'a" and ok1 :: "'a \<Rightarrow> bool"
    and enc2 :: "'b \<Rightarrow> 'e + 'c" and dec2 :: "'c \<Rightarrow> 'e + 'b" and ok2 :: "'b \<Rightarrow> bool"
begin

lemma stack_dec_enc:
  assumes "ok1 x" and "\<And>s. enc1 x = Inr s \<Longrightarrow> ok2 s"
  shows "\<exists>t. bindR (enc1 x) enc2 = Inr t \<and> bindR (dec2 t) dec1 = Inr x"
proof -
  obtain s where s: "enc1 x = Inr s" "dec1 s = Inr x"
    using inner.enc_succeeds [OF assms(1)] by blast
  obtain t where "enc2 s = Inr t" "dec2 t = Inr s"
    using outer.enc_succeeds [OF assms(2) [OF s(1)]] by blast
  with s show ?thesis by simp
qed

end

subsection \<open>Invariants of operations\<close>

text \<open>
  The contract of a component whose operations keep an invariant: then every sequence of
  allowed operations keeps it. The extension adds a relation between the states before and
  after, preserved along sequences.
\<close>

locale step_invariant =
  fixes step :: "'op \<Rightarrow> 's \<Rightarrow> 's"
    and allowed :: "'op \<Rightarrow> bool"
    and inv :: "'s \<Rightarrow> bool"
  assumes inv_step: "inv s \<Longrightarrow> allowed x \<Longrightarrow> inv (step x s)"
begin

lemma inv_run: "inv s \<Longrightarrow> \<forall>x\<in>set xs. allowed x \<Longrightarrow> inv (fold step xs s)"
  by (induction xs arbitrary: s) (simp_all add: inv_step)

end

locale step_related = step_invariant step allowed inv
  for step :: "'op \<Rightarrow> 's \<Rightarrow> 's" and allowed :: "'op \<Rightarrow> bool" and inv :: "'s \<Rightarrow> bool" +
  fixes rel :: "'s \<Rightarrow> 's \<Rightarrow> bool"
  assumes rel_refl: "inv s \<Longrightarrow> rel s s"
    and rel_trans: "rel s t \<Longrightarrow> rel t u \<Longrightarrow> rel s u"
    and rel_step: "inv s \<Longrightarrow> allowed x \<Longrightarrow> rel s (step x s)"
begin

lemma rel_run: "inv s \<Longrightarrow> \<forall>x\<in>set xs. allowed x \<Longrightarrow> rel s (fold step xs s)"
proof (induction xs arbitrary: s)
  case (Cons x xs)
  then have "rel (step x s) (fold step xs (step x s))"
    by (simp add: inv_step)
  with rel_step [of s x] Cons.prems show ?case
    by (auto intro: rel_trans)
qed (simp add: rel_refl)

end

text \<open>The same for a component whose steps are a relation.\<close>

locale transition_invariant =
  fixes trans :: "'s \<Rightarrow> 's \<Rightarrow> bool"
    and inv :: "'s \<Rightarrow> bool"
  assumes inv_trans: "trans s t \<Longrightarrow> inv s \<Longrightarrow> inv t"
begin

lemma inv_reach: "trans\<^sup>*\<^sup>* s t \<Longrightarrow> inv s \<Longrightarrow> inv t"
  by (induction rule: rtranclp_induct) (auto intro: inv_trans)

end

end
