(* ===== verification/Except.thy ===== *)
theory Except
  imports Prelude
begin

text \<open>
  The exception classes of \<open>include/except.h\<close> and \<open>src/except.cpp\<close>. A function that may
  throw returns a value of type \<open>'a res\<close>: \<open>Inl\<close> of the exception, or \<open>Inr\<close> of the result.
  \<open>Std_exception\<close> stands for the standard library's exceptions the code meets
  (\<open>std::invalid_argument\<close>, \<open>std::out_of_range\<close>). \<open>Fatal\<close> is not an exception of the
  program: it marks an abort (a failed \<open>assert\<close>) or undefined behaviour (signed overflow),
  which no handler catches.
\<close>

datatype exn =
    InvalidMessage string
  | IOException string
  | ProtocolError string
  | SemanticError string
  | Std_exception string
  | Fatal string

type_synonym 'a res = "exn + 'a"

text \<open>The text carried by the exception.\<close>

fun what :: "exn \<Rightarrow> string" where
  "what (InvalidMessage desc) = desc"
| "what (IOException desc) = desc"
| "what (ProtocolError desc) = desc"
| "what (SemanticError desc) = desc"
| "what (Std_exception desc) = desc"
| "what (Fatal desc) = desc"

text \<open>What \<open>catch (Exception &)\<close> and \<open>catch (std::exception &)\<close> catch.\<close>

fun is_Exception :: "exn \<Rightarrow> bool" where
  "is_Exception (InvalidMessage _) = True"
| "is_Exception (IOException _) = True"
| "is_Exception (ProtocolError _) = True"
| "is_Exception (SemanticError _) = True"
| "is_Exception (Std_exception _) = False"
| "is_Exception (Fatal _) = False"

fun is_std_exception :: "exn \<Rightarrow> bool" where
  "is_std_exception (Std_exception _) = True"
| "is_std_exception (Fatal _) = False"
| "is_std_exception e = is_Exception e"

definition is_InvalidMessage :: "exn \<Rightarrow> bool" where
  "is_InvalidMessage e = (case e of InvalidMessage _ \<Rightarrow> True | _ \<Rightarrow> False)"

lemma is_InvalidMessage_iff: "is_InvalidMessage e \<longleftrightarrow> (\<exists>d. e = InvalidMessage d)"
  by (simp add: is_InvalidMessage_def split: exn.splits)

definition is_IOException :: "exn \<Rightarrow> bool" where
  "is_IOException e = (case e of IOException _ \<Rightarrow> True | _ \<Rightarrow> False)"

lemma is_IOException_iff: "is_IOException e \<longleftrightarrow> (\<exists>d. e = IOException d)"
  by (simp add: is_IOException_def split: exn.splits)

lemma is_InvalidMessage_simps [simp]:
  "is_InvalidMessage (InvalidMessage d)" "\<not> is_InvalidMessage (IOException d)"
  "\<not> is_InvalidMessage (ProtocolError d)" "\<not> is_InvalidMessage (SemanticError d)"
  "\<not> is_InvalidMessage (Std_exception d)" "\<not> is_InvalidMessage (Fatal d)"
  by (simp_all add: is_InvalidMessage_iff)

lemma is_IOException_simps [simp]:
  "is_IOException (IOException d)" "\<not> is_IOException (InvalidMessage d)"
  "\<not> is_IOException (ProtocolError d)" "\<not> is_IOException (SemanticError d)"
  "\<not> is_IOException (Std_exception d)" "\<not> is_IOException (Fatal d)"
  by (simp_all add: is_IOException_iff)

lemmas exn_class_defs = is_InvalidMessage_iff is_IOException_iff

end
