(* ===== verification/Order_Model.thy ===== *)
theory Order_Model
  imports Except
begin

text \<open>
  The object model of \<open>include/model.h\<close> and \<open>src/model.cpp\<close>: the enumerations, \<open>Item\<close> and
  \<open>Order\<close>. An \<open>int\<close> field is an integer; where its range matters the bound is written
  out. An order's vector of \<open>shared_ptr<Item>\<close> is a list of items: every \<open>add_item\<close> call
  of the program passes a pointer fresh from \<open>make_shared\<close>, so the pointers are non-null and
  pairwise distinct, and a position in the vector identifies an item object. A vector's
  length fits an \<open>int\<close>.
\<close>

subsection \<open>Enumerations\<close>

datatype client_mode = CM_INVALID | CM_UPDATER | CM_DISPLAY

datatype item_status = IS_INVALID | IS_NEW | IS_IN_PROGRESS | IS_DONE

datatype order_status = OS_INVALID | OS_NEW | OS_IN_PROGRESS | OS_DONE | OS_DELIVERED

text \<open>The values of an \<open>enum class\<close> are ordered by declaration.\<close>

fun item_status_rank :: "item_status \<Rightarrow> nat" where
  "item_status_rank IS_INVALID = 0"
| "item_status_rank IS_NEW = 1"
| "item_status_rank IS_IN_PROGRESS = 2"
| "item_status_rank IS_DONE = 3"

fun order_status_rank :: "order_status \<Rightarrow> nat" where
  "order_status_rank OS_INVALID = 0"
| "order_status_rank OS_NEW = 1"
| "order_status_rank OS_IN_PROGRESS = 2"
| "order_status_rank OS_DONE = 3"
| "order_status_rank OS_DELIVERED = 4"

lemma item_status_rank_eq: "item_status_rank a = item_status_rank b \<longleftrightarrow> a = b"
  by (cases a; cases b) simp_all

lemma order_status_rank_eq: "order_status_rank a = order_status_rank b \<longleftrightarrow> a = b"
  by (cases a; cases b) simp_all

instantiation item_status :: linorder
begin

definition less_eq_item_status :: "item_status \<Rightarrow> item_status \<Rightarrow> bool" where
  "less_eq_item_status a b \<longleftrightarrow> item_status_rank a \<le> item_status_rank b"

definition less_item_status :: "item_status \<Rightarrow> item_status \<Rightarrow> bool" where
  "less_item_status a b \<longleftrightarrow> item_status_rank a < item_status_rank b"

instance
  by standard
    (auto simp: less_eq_item_status_def less_item_status_def item_status_rank_eq
      dest: le_antisym)

end

instantiation order_status :: linorder
begin

definition less_eq_order_status :: "order_status \<Rightarrow> order_status \<Rightarrow> bool" where
  "less_eq_order_status a b \<longleftrightarrow> order_status_rank a \<le> order_status_rank b"

definition less_order_status :: "order_status \<Rightarrow> order_status \<Rightarrow> bool" where
  "less_order_status a b \<longleftrightarrow> order_status_rank a < order_status_rank b"

instance
  by standard
    (auto simp: less_eq_order_status_def less_order_status_def order_status_rank_eq
      dest: le_antisym)

end

lemmas status_order_defs =
  less_eq_item_status_def less_item_status_def less_eq_order_status_def less_order_status_def

subsection \<open>Item\<close>

record item =
  i_order_id :: int
  i_id :: int
  i_status :: item_status
  i_desc :: string
  i_qty :: int

definition mk_item :: "int \<Rightarrow> int \<Rightarrow> item_status \<Rightarrow> string \<Rightarrow> int \<Rightarrow> item" where
  "mk_item order_id id' status desc qty =
     \<lparr>i_order_id = order_id, i_id = id', i_status = status, i_desc = desc, i_qty = qty\<rparr>"

lemma mk_item_sel [simp]:
  "i_order_id (mk_item p i s d q) = p" "i_id (mk_item p i s d q) = i"
  "i_status (mk_item p i s d q) = s" "i_desc (mk_item p i s d q) = d"
  "i_qty (mk_item p i s d q) = q"
  by (simp_all add: mk_item_def)

lemma mk_item_collapse [simp]:
  "mk_item (i_order_id x) (i_id x) (i_status x) (i_desc x) (i_qty x) = x"
  by (simp add: mk_item_def)

text \<open>\<open>Item::duplicate\<close>: the implicit copy constructor copies every field.\<close>

definition item_duplicate :: "item \<Rightarrow> item" where
  "item_duplicate x = mk_item (i_order_id x) (i_id x) (i_status x) (i_desc x) (i_qty x)"

lemma item_duplicate_id [simp]: "item_duplicate x = x"
  by (simp add: item_duplicate_def)

definition item_eq :: "item \<Rightarrow> item \<Rightarrow> bool" where
  "item_eq lhs rhs \<longleftrightarrow>
     i_id lhs = i_id rhs \<and>
     i_order_id lhs = i_order_id rhs \<and>
     i_status lhs = i_status rhs \<and>
     i_desc lhs = i_desc rhs \<and>
     i_qty lhs = i_qty rhs"

lemma item_eq_iff [simp]: "item_eq x y \<longleftrightarrow> x = y"
  by (auto simp: item_eq_def intro: item.equality)

subsection \<open>Order\<close>

record order =
  o_id :: int
  o_status :: order_status
  o_items :: "item list"

definition mk_order :: "int \<Rightarrow> order_status \<Rightarrow> order" where
  "mk_order id' status = \<lparr>o_id = id', o_status = status, o_items = []\<rparr>"

lemma mk_order_sel [simp]:
  "o_id (mk_order i s) = i" "o_status (mk_order i s) = s" "o_items (mk_order i s) = []"
  by (simp_all add: mk_order_def)

text \<open>
  \<open>Order::operator=\<close>. The flag says whether both sides are the same object. The loop
  appends duplicates of the right-hand side's items to the items already there.
\<close>

fun append_duplicates :: "item list \<Rightarrow> order \<Rightarrow> order" where
  "append_duplicates [] this = this"
| "append_duplicates (i # rest) this =
     append_duplicates rest (this\<lparr>o_items := o_items this @ [item_duplicate i]\<rparr>)"

definition order_assign :: "bool \<Rightarrow> order \<Rightarrow> order \<Rightarrow> order" where
  "order_assign same this rhs =
     (if \<not> same then
        (append_duplicates (o_items rhs) (this\<lparr>o_id := o_id rhs\<rparr>))\<lparr>o_status := o_status rhs\<rparr>
      else this)"

text \<open>
  The copy constructor leaves the scalar fields indeterminate, constructs an empty vector
  and assigns. The two placeholder values below are overwritten
  (\<open>order_assign_scalars\<close>).
\<close>

definition order_copy :: "order \<Rightarrow> order" where
  "order_copy other = order_assign False (mk_order 0 OS_INVALID) other"

definition order_duplicate :: "order \<Rightarrow> order" where
  "order_duplicate this = order_copy this"

lemma append_duplicates_eq:
  "append_duplicates its this = this\<lparr>o_items := o_items this @ its\<rparr>"
  by (induction its this rule: append_duplicates.induct) auto

lemma order_assign_eq:
  "order_assign False this rhs = rhs\<lparr>o_items := o_items this @ o_items rhs\<rparr>"
  by (simp add: order_assign_def append_duplicates_eq)

lemma order_assign_scalars:
  "order_assign False (this\<lparr>o_id := i, o_status := s\<rparr>) rhs = order_assign False this rhs"
  by (simp add: order_assign_eq)

lemma order_copy_id [simp]: "order_copy x = x"
  by (simp add: order_copy_def order_assign_eq)

lemma order_duplicate_id [simp]: "order_duplicate x = x"
  by (simp add: order_duplicate_def)

definition get_num_items :: "order \<Rightarrow> int" where
  "get_num_items this = int (length (o_items this))"

text \<open>\<open>m_items.at(index)\<close>: a negative index converts to a size beyond every vector.\<close>

definition order_at :: "order \<Rightarrow> int \<Rightarrow> item res" where
  "order_at this index =
     (if 0 \<le> index \<and> nat index < length (o_items this)
      then Inr (o_items this ! nat index)
      else Inl (Std_exception ''vector::_M_range_check''))"

lemma order_at_nth [simp]:
  "i < length (o_items x) \<Longrightarrow> order_at x (int i) = Inr (o_items x ! i)"
  by (simp add: order_at_def)

fun order_eq_loop :: "order \<Rightarrow> order \<Rightarrow> nat list \<Rightarrow> bool res" where
  "order_eq_loop lhs rhs [] = Inr True"
| "order_eq_loop lhs rhs (i # is) =
     bindR (order_at lhs (int i)) (\<lambda>x.
     bindR (order_at rhs (int i)) (\<lambda>y.
       if \<not> item_eq x y then Inr False else order_eq_loop lhs rhs is))"

definition order_eq :: "order \<Rightarrow> order \<Rightarrow> bool res" where
  "order_eq lhs rhs =
     (if o_id lhs \<noteq> o_id rhs \<or> o_status lhs \<noteq> o_status rhs \<or>
         get_num_items lhs \<noteq> get_num_items rhs
      then Inr False
      else order_eq_loop lhs rhs [0..<nat (get_num_items lhs)])"

definition add_item :: "order \<Rightarrow> item \<Rightarrow> order" where
  "add_item this x = this\<lparr>o_items := o_items this @ [x]\<rparr>"

text \<open>
  \<open>find_item\<close> returns a pointer to the first item with the id: the model returns its
  position, through which the caller reads and writes the item.
\<close>

fun find_item_loop :: "int \<Rightarrow> nat \<Rightarrow> item list \<Rightarrow> nat option" where
  "find_item_loop item_id pos [] = None"
| "find_item_loop item_id pos (i # rest) =
     (if i_id i = item_id then Some pos else find_item_loop item_id (Suc pos) rest)"

definition find_item :: "order \<Rightarrow> int \<Rightarrow> nat option" where
  "find_item this item_id = find_item_loop item_id 0 (o_items this)"

definition item_get_status :: "order \<Rightarrow> nat \<Rightarrow> item_status" where
  "item_get_status this pos = i_status (o_items this ! pos)"

text \<open>The other accessors; \<open>item_get_status\<close> and \<open>item_set_status\<close> go through a position.\<close>

definition item_set_order_id :: "int \<Rightarrow> item \<Rightarrow> item" where
  [simp]: "item_set_order_id order_id this = this\<lparr>i_order_id := order_id\<rparr>"

definition order_set_id :: "int \<Rightarrow> order \<Rightarrow> order" where
  [simp]: "order_set_id id' this = this\<lparr>o_id := id'\<rparr>"

definition order_set_status :: "order_status \<Rightarrow> order \<Rightarrow> order" where
  [simp]: "order_set_status status this = this\<lparr>o_status := status\<rparr>"

definition item_ne :: "item \<Rightarrow> item \<Rightarrow> bool" where
  "item_ne this rhs \<longleftrightarrow> \<not> item_eq this rhs"

definition order_ne :: "order \<Rightarrow> order \<Rightarrow> bool res" where
  "order_ne this rhs = bindR (order_eq this rhs) (\<lambda>b. Inr (\<not> b))"

definition item_set_status :: "order \<Rightarrow> nat \<Rightarrow> item_status \<Rightarrow> order" where
  "item_set_status this pos status =
     this\<lparr>o_items := (o_items this)[pos := (o_items this ! pos)\<lparr>i_status := status\<rparr>]\<rparr>"

subsection \<open>Properties of the object model\<close>

lemma order_eq_loop_eq:
  assumes "\<forall>i\<in>set is. i < length (o_items a) \<and> i < length (o_items b)"
  shows "order_eq_loop a b is = Inr (\<forall>i\<in>set is. o_items a ! i = o_items b ! i)"
  using assms by (induction "is") auto

lemma order_eq_decides: "order_eq lhs rhs = Inr (lhs = rhs)"
proof (cases "length (o_items lhs) = length (o_items rhs)")
  case True
  then have "(\<forall>i\<in>set [0..<length (o_items lhs)]. o_items lhs ! i = o_items rhs ! i) \<longleftrightarrow>
      o_items lhs = o_items rhs"
    by (auto intro: nth_equalityI)
  with True show ?thesis
    by (auto simp: order_eq_def get_num_items_def order_eq_loop_eq intro: order.equality)
next
  case False
  then show ?thesis
    by (auto simp: order_eq_def get_num_items_def)
qed

lemma ne_decides: "order_ne lhs rhs = Inr (lhs \<noteq> rhs)" "item_ne x y \<longleftrightarrow> x \<noteq> y"
  by (simp_all add: order_ne_def item_ne_def order_eq_decides)

text \<open>
  \<open>Order::operator==\<close>, with its index loop over \<open>at\<close>, never throws and decides
  equality of the two orders.
\<close>

theorem order_eq_iff: "order_eq lhs rhs = Inr (lhs = rhs) \<and> order_eq lhs rhs = order_eq rhs lhs"
  by (auto simp: order_eq_decides)

lemma find_item_loop_shift:
  "find_item_loop i p xs = map_option (\<lambda>k. p + k) (find_item_loop i 0 xs)"
proof (induction xs arbitrary: p)
  case (Cons x xs)
  from Cons.IH [of "Suc p"] Cons.IH [of "Suc 0"] show ?case
    by (simp add: option.map_comp comp_def)
qed simp

lemma find_item_loop_Some:
  "find_item_loop i 0 xs = Some k \<longleftrightarrow>
     k < length xs \<and> i_id (xs ! k) = i \<and> (\<forall>j<k. i_id (xs ! j) \<noteq> i)"
proof (induction xs arbitrary: k)
  case (Cons x xs)
  then show ?case
    by (cases k) (auto simp: find_item_loop_shift [of i "Suc 0"] less_Suc_eq_0_disj)
qed simp

lemma find_item_loop_None: "find_item_loop i p xs = None \<longleftrightarrow> i \<notin> i_id ` set xs"
  by (induction i p xs rule: find_item_loop.induct) auto

lemma find_item_Some:
  "find_item x i = Some k \<longleftrightarrow>
     k < length (o_items x) \<and> i_id (o_items x ! k) = i \<and> (\<forall>j<k. i_id (o_items x ! j) \<noteq> i)"
  by (auto simp: find_item_def find_item_loop_Some)

lemma find_item_None: "find_item x i = None \<longleftrightarrow> i \<notin> i_id ` set (o_items x)"
  by (simp add: find_item_def find_item_loop_None)

text \<open>
  \<open>Order::find_item\<close> returns the first item with the given id, and null exactly when
  the order has none.
\<close>

theorem find_item_first:
  "(case find_item this i of
      Some k \<Rightarrow> k < length (o_items this) \<and> i_id (o_items this ! k) = i \<and>
        i \<notin> i_id ` set (take k (o_items this))
    | None \<Rightarrow> i \<notin> i_id ` set (o_items this))"
proof (cases "find_item this i")
  case None
  then show ?thesis by (simp add: find_item_None [symmetric])
next
  case (Some k)
  then have "\<forall>j<k. i_id (o_items this ! j) \<noteq> i" "k < length (o_items this)"
    "i_id (o_items this ! k) = i"
    using find_item_Some by blast+
  moreover from this have "i \<notin> i_id ` set (take k (o_items this))"
    by (force simp: in_set_conv_nth)
  ultimately show ?thesis using Some by simp
qed

text \<open>
  Copying an order (the copy constructor, \<open>duplicate\<close>) gives an equal order whatever
  the object held before, but assigning to an order that has items keeps them: the result
  differs from the assigned order exactly when the target had items.
\<close>

theorem order_assign_keeps_items:
  "order_duplicate rhs = rhs \<and> order_assign True rhs rhs = rhs \<and>
   (order_assign False this rhs = rhs \<longleftrightarrow> o_items this = [])"
proof -
  have "order_assign False this rhs = rhs \<longleftrightarrow> o_items this @ o_items rhs = o_items rhs"
    by (metis order.select_convs(3) order.surjective order.update_convs(3) order_assign_eq)
  then show ?thesis by (simp add: order_assign_def)
qed

lemma item_set_status_sel [simp]:
  "o_id (item_set_status x k s) = o_id x" "o_status (item_set_status x k s) = o_status x"
  "length (o_items (item_set_status x k s)) = length (o_items x)"
  by (simp_all add: item_set_status_def)

lemma nth_item_set_status:
  "j < length (o_items x) \<Longrightarrow> o_items (item_set_status x k s) ! j =
     (if j = k then (o_items x ! j)\<lparr>i_status := s\<rparr> else o_items x ! j)"
  by (simp add: item_set_status_def nth_list_update)

lemma map_id_item_set_status [simp]:
  "map i_id (o_items (item_set_status x k s)) = map i_id (o_items x)"
  by (rule nth_equalityI) (simp_all add: nth_item_set_status)

lemma find_item_item_set_status [simp]:
  "find_item (item_set_status x k s) i = find_item x i"
proof -
  have cong: "find_item_loop i p xs = find_item_loop i p ys"
    if "map i_id xs = map i_id ys" for p xs ys
    using that by (induction xs ys arbitrary: p rule: list_induct2') auto
  show ?thesis
    unfolding find_item_def by (rule cong [OF map_id_item_set_status])
qed

end
