(* ===== verification/Message.thy ===== *)
theory Message
  imports Order_Model
begin

text \<open>
  \<open>include/message.h\<close> and \<open>src/message.cpp\<close>: one record holds the union of the data of all
  message types. The \<open>shared_ptr<Order>\<close> is an option, its null value \<open>None\<close>. The
  overloaded constructors are the functions \<open>message_*\<close>; each starts from the default
  constructor, whose fields are the empty or invalid values.
\<close>

datatype message_type =
    MT_INVALID
  | MT_LOGIN
  | MT_QUIT
  | MT_ORDER_NEW
  | MT_ITEM_UPDATE
  | MT_ORDER_UPDATE
  | MT_OK
  | MT_ERROR
  | MT_DISP_ORDER
  | MT_DISP_ITEM_UPDATE
  | MT_DISP_ORDER_UPDATE
  | MT_DISP_HEARTBEAT

record message =
  m_type :: message_type
  m_client_mode :: client_mode
  m_str :: string
  m_order :: "order option"
  m_order_id :: int
  m_order_status :: order_status
  m_item_id :: int
  m_item_status :: item_status

subsection \<open>Constructors\<close>

definition message_default :: message where
  "message_default =
     \<lparr>m_type = MT_INVALID, m_client_mode = CM_INVALID, m_str = [], m_order = None,
      m_order_id = -1, m_order_status = OS_INVALID, m_item_id = -1,
      m_item_status = IS_INVALID\<rparr>"

definition message_plain :: "message_type \<Rightarrow> message" where
  "message_plain type = message_default\<lparr>m_type := type\<rparr>"

definition message_str :: "message_type \<Rightarrow> string \<Rightarrow> message" where
  "message_str type str = message_default\<lparr>m_type := type, m_str := str\<rparr>"

definition message_login :: "message_type \<Rightarrow> client_mode \<Rightarrow> string \<Rightarrow> message" where
  "message_login type client_mode str =
     message_default\<lparr>m_type := type, m_client_mode := client_mode, m_str := str\<rparr>"

definition message_order :: "message_type \<Rightarrow> order option \<Rightarrow> message" where
  "message_order type order = message_default\<lparr>m_type := type, m_order := order\<rparr>"

definition message_order_update :: "message_type \<Rightarrow> int \<Rightarrow> order_status \<Rightarrow> message" where
  "message_order_update type order_id order_status =
     message_default\<lparr>m_type := type, m_order_id := order_id, m_order_status := order_status\<rparr>"

definition message_item_update ::
  "message_type \<Rightarrow> int \<Rightarrow> int \<Rightarrow> item_status \<Rightarrow> message" where
  "message_item_update type order_id item_id item_status =
     message_default\<lparr>m_type := type, m_order_id := order_id, m_item_id := item_id,
       m_item_status := item_status\<rparr>"

lemmas message_ctor_defs =
  message_default_def message_plain_def message_str_def message_login_def message_order_def
  message_order_update_def message_item_update_def

subsection \<open>Assignment and duplication\<close>

definition message_assign :: "bool \<Rightarrow> message \<Rightarrow> message \<Rightarrow> message" where
  "message_assign same this rhs =
     (if \<not> same then
        this\<lparr>m_type := m_type rhs,
             m_client_mode := m_client_mode rhs,
             m_str := m_str rhs,
             m_order := (case m_order rhs of
                           Some order \<Rightarrow> Some (order_duplicate order)
                         | None \<Rightarrow> None),
             m_order_id := m_order_id rhs,
             m_order_status := m_order_status rhs,
             m_item_id := m_item_id rhs,
             m_item_status := m_item_status rhs\<rparr>
      else this)"

definition message_copy :: "message \<Rightarrow> message" where
  "message_copy other = message_assign False message_default other"

definition message_duplicate :: "message \<Rightarrow> message" where
  "message_duplicate this = message_copy this"

subsection \<open>Accessors\<close>

definition has_client_mode :: "message \<Rightarrow> bool" where
  "has_client_mode m \<longleftrightarrow> m_client_mode m \<noteq> CM_INVALID"

definition has_str :: "message \<Rightarrow> bool" where
  "has_str m \<longleftrightarrow> m_str m \<noteq> []"

definition has_order :: "message \<Rightarrow> bool" where
  "has_order m \<longleftrightarrow> m_order m \<noteq> None"

definition has_order_id :: "message \<Rightarrow> bool" where
  "has_order_id m \<longleftrightarrow> 0 \<le> m_order_id m"

definition has_order_status :: "message \<Rightarrow> bool" where
  "has_order_status m \<longleftrightarrow> m_order_status m \<noteq> OS_INVALID"

definition has_item_id :: "message \<Rightarrow> bool" where
  "has_item_id m \<longleftrightarrow> 0 \<le> m_item_id m"

definition has_item_status :: "message \<Rightarrow> bool" where
  "has_item_status m \<longleftrightarrow> m_item_status m \<noteq> IS_INVALID"

lemmas has_defs =
  has_client_mode_def has_str_def has_order_def has_order_id_def has_order_status_def
  has_item_id_def has_item_status_def

definition message_set_type :: "message_type \<Rightarrow> message \<Rightarrow> message" where
  "message_set_type type this = this\<lparr>m_type := type\<rparr>"

definition message_set_client_mode :: "client_mode \<Rightarrow> message \<Rightarrow> message" where
  "message_set_client_mode client_mode this = this\<lparr>m_client_mode := client_mode\<rparr>"

definition message_set_str :: "string \<Rightarrow> message \<Rightarrow> message" where
  "message_set_str str this = this\<lparr>m_str := str\<rparr>"

definition message_set_order :: "order option \<Rightarrow> message \<Rightarrow> message" where
  "message_set_order order this = this\<lparr>m_order := order\<rparr>"

definition message_set_order_id :: "int \<Rightarrow> message \<Rightarrow> message" where
  "message_set_order_id order_id this = this\<lparr>m_order_id := order_id\<rparr>"

definition message_set_order_status :: "order_status \<Rightarrow> message \<Rightarrow> message" where
  "message_set_order_status order_status this = this\<lparr>m_order_status := order_status\<rparr>"

definition message_set_item_id :: "int \<Rightarrow> message \<Rightarrow> message" where
  "message_set_item_id item_id this = this\<lparr>m_item_id := item_id\<rparr>"

definition message_set_item_status :: "item_status \<Rightarrow> message \<Rightarrow> message" where
  "message_set_item_status item_status this = this\<lparr>m_item_status := item_status\<rparr>"

lemmas message_set_defs =
  message_set_type_def message_set_client_mode_def message_set_str_def message_set_order_def
  message_set_order_id_def message_set_order_status_def message_set_item_id_def
  message_set_item_status_def

text \<open>Every constructor is the default constructor followed by setters.\<close>

lemma message_ctors_set:
  "message_plain t = message_set_type t message_default"
  "message_str t s = message_set_str s (message_set_type t message_default)"
  "message_login t c s = message_set_str s (message_set_client_mode c (message_set_type t message_default))"
  "message_order t x = message_set_order x (message_set_type t message_default)"
  "message_order_update t k os = message_set_order_status os (message_set_order_id k (message_set_type t message_default))"
  "message_item_update t k i st = message_set_item_status st (message_set_item_id i
     (message_set_order_id k (message_set_type t message_default)))"
  by (simp_all add: message_set_defs message_ctor_defs)

subsection \<open>Equality\<close>

definition message_order_differs :: "message \<Rightarrow> message \<Rightarrow> bool res" where
  "message_order_differs lhs rhs =
     (case m_order lhs of
        None \<Rightarrow> Inr False
      | Some x \<Rightarrow>
          (case m_order rhs of
             None \<Rightarrow> Inr True
           | Some y \<Rightarrow> bindR (order_eq x y) (\<lambda>b. Inr (\<not> b))))"

definition message_eq :: "message \<Rightarrow> message \<Rightarrow> bool res" where
  "message_eq lhs rhs =
     (if m_type lhs \<noteq> m_type rhs \<or>
         m_client_mode lhs \<noteq> m_client_mode rhs \<or>
         m_str lhs \<noteq> m_str rhs then Inr False
      else bindR (message_order_differs lhs rhs) (\<lambda>differs.
        if differs \<or>
           m_order_id lhs \<noteq> m_order_id rhs \<or>
           m_order_status lhs \<noteq> m_order_status rhs \<or>
           m_item_id lhs \<noteq> m_item_id rhs \<or>
           m_item_status lhs \<noteq> m_item_status rhs then Inr False
        else Inr True))"

lemma message_assign_eq: "message_assign False this rhs = rhs"
  by (cases rhs) (auto simp: message_assign_def split: option.splits)

lemma message_duplicate_id [simp]: "message_duplicate m = m"
  by (simp add: message_duplicate_def message_copy_def message_assign_eq)

lemma message_order_differs_eq:
  "message_order_differs a b = Inr (m_order a \<noteq> None \<and> m_order a \<noteq> m_order b)"
  by (auto simp: message_order_differs_def order_eq_decides split: option.splits)

text \<open>
  \<open>Message::operator==\<close> never throws. It decides equality of all fields, except that a
  left side without an order equals a right side that differs from it only in having one:
  the comparison is not symmetric.
\<close>

theorem message_eq_iff:
  "message_eq lhs rhs =
     Inr (lhs = rhs \<or> m_order lhs = None \<and> lhs = rhs\<lparr>m_order := None\<rparr>)"
  by (cases lhs; cases rhs) (auto simp: message_eq_def message_order_differs_eq)

end
