(* ===== verification/Message_Queue.thy ===== *)
theory Message_Queue
  imports Message "HOL-Library.Multiset"
begin

text \<open>
  \<open>src/message_queue.cpp\<close>, in two models. The first takes each call as one atomic operation
  on the deque and the semaphore count, and is what the server model uses. The second
  keeps the separate actions of a call (lock, push, unlock, post; wait, lock, pop, unlock)
  and interleaves any number of callers; its invariant shows that the atomic view is
  sound: no interleaving pops an empty deque, loses or reorders a message.
\<close>

subsection \<open>The interface\<close>

text \<open>
  A first-in first-out channel seen through the list of its contents: what the server
  (which only enqueues) and a display session (which only dequeues) rely on.
\<close>

locale fifo =
  fixes empty :: 'q
    and enq :: "'a \<Rightarrow> 'q \<Rightarrow> 'q"
    and deq :: "bool \<Rightarrow> 'q \<Rightarrow> 'e + 'a option \<times> 'q"
    and contents :: "'q \<Rightarrow> 'a list"
    and ok :: "'q \<Rightarrow> bool"
  assumes ok_empty: "ok empty" and contents_empty: "contents empty = []"
    and ok_enq: "ok q \<Longrightarrow> ok (enq x q)"
    and contents_enq: "ok q \<Longrightarrow> contents (enq x q) = contents q @ [x]"
    and deq_expired: "deq True q = Inr (None, q)"
    and deq_empty: "ok q \<Longrightarrow> contents q = [] \<Longrightarrow> deq b q = Inr (None, q)"
    and deq_Cons: "ok q \<Longrightarrow> contents q = x # xs \<Longrightarrow>
      \<exists>q'. deq False q = Inr (Some x, q') \<and> contents q' = xs \<and> ok q'"
begin

lemma deq_total: "ok q \<Longrightarrow> \<exists>r q'. deq False q = Inr (r, q') \<and> ok q' \<and>
    (case r of None \<Rightarrow> contents q = [] \<and> q' = q | Some x \<Rightarrow> contents q = x # contents q')"
  using deq_empty deq_Cons by (cases "contents q") fastforce+

lemma enq_list:
  "ok q \<Longrightarrow> ok (foldl (\<lambda>q x. enq x q) q xs) \<and> contents (foldl (\<lambda>q x. enq x q) q xs) = contents q @ xs"
  by (induction xs arbitrary: q) (simp_all add: ok_enq contents_enq)

end

subsection \<open>Atomic operations\<close>

record message_queue =
  mq_queue :: "message list"
  mq_avail :: nat

definition mq_init :: message_queue where
  "mq_init = \<lparr>mq_queue = [], mq_avail = 0\<rparr>"

definition mq_enqueue :: "message \<Rightarrow> message_queue \<Rightarrow> message_queue" where
  "mq_enqueue msg q = q\<lparr>mq_queue := mq_queue q @ [msg], mq_avail := mq_avail q + 1\<rparr>"

text \<open>
  \<open>sem_timedwait\<close> fails when the count has been 0 until the timeout (\<open>expired\<close>; a message may
  have been enqueued since the wait failed): then \<open>dequeue\<close> returns the null pointer. It cannot
  succeed while the count is 0. \<open>front\<close> of an empty deque is undefined behaviour.
\<close>

definition mq_dequeue :: "bool \<Rightarrow> message_queue \<Rightarrow> exn + message option \<times> message_queue" where
  "mq_dequeue expired q =
     (if expired \<or> mq_avail q = 0 then Inr (None, q)
      else case mq_queue q of
        [] \<Rightarrow> Inl (Fatal ''front of an empty deque'')
      | msg # rest \<Rightarrow> Inr (Some msg, q\<lparr>mq_queue := rest, mq_avail := mq_avail q - 1\<rparr>))"

definition mq_ok :: "message_queue \<Rightarrow> bool" where
  "mq_ok q \<longleftrightarrow> mq_avail q = length (mq_queue q)"

interpretation mq: fifo mq_init mq_enqueue mq_dequeue mq_queue mq_ok
  by unfold_locales
    (auto simp: mq_init_def mq_enqueue_def mq_dequeue_def mq_ok_def)

subsection \<open>Interleaved calls\<close>

text \<open>
  A thread inside \<open>enqueue\<close> or \<open>dequeue\<close>, named by what it has done. Threads are
  anonymous: the state holds the multiset of the threads inside a call.
\<close>

datatype mq_thread =
    Enq_Called message     \<comment> \<open>before \<open>pthread_mutex_lock\<close>\<close>
  | Enq_Locked message     \<comment> \<open>holds the mutex, before \<open>push_back\<close>\<close>
  | Enq_Pushed             \<comment> \<open>before \<open>pthread_mutex_unlock\<close>\<close>
  | Enq_Unlocked           \<comment> \<open>before \<open>sem_post\<close>\<close>
  | Deq_Called             \<comment> \<open>in \<open>sem_timedwait\<close>\<close>
  | Deq_Taken              \<comment> \<open>decremented the semaphore, before the lock\<close>
  | Deq_Locked             \<comment> \<open>holds the mutex, before \<open>front\<close> and \<open>pop_front\<close>\<close>
  | Deq_Popped message     \<comment> \<open>before \<open>pthread_mutex_unlock\<close>\<close>

record mq_sys =
  q_items :: "message list"
  q_avail :: nat
  q_locked :: bool
  q_threads :: "mq_thread multiset"
  q_pushed :: "message list"   \<comment> \<open>every message pushed so far\<close>
  q_popped :: "message list"   \<comment> \<open>every message popped so far\<close>

definition mq_sys_init :: mq_sys where
  "mq_sys_init =
     \<lparr>q_items = [], q_avail = 0, q_locked = False, q_threads = {#}, q_pushed = [], q_popped = []\<rparr>"

text \<open>
  The action with which a thread at one point goes on to the next, or returns (\<open>None\<close>), and what
  it does to the fields of the queue.
\<close>

inductive mq_action :: "mq_thread \<Rightarrow> mq_thread option \<Rightarrow> mq_sys \<Rightarrow> mq_sys \<Rightarrow> bool" where
  enq_lock: "\<not> q_locked s \<Longrightarrow>
     mq_action (Enq_Called m) (Some (Enq_Locked m)) s (s\<lparr>q_locked := True\<rparr>)"
| enq_push: "mq_action (Enq_Locked m) (Some Enq_Pushed) s
     (s\<lparr>q_items := q_items s @ [m], q_pushed := q_pushed s @ [m]\<rparr>)"
| enq_unlock: "mq_action Enq_Pushed (Some Enq_Unlocked) s (s\<lparr>q_locked := False\<rparr>)"
| enq_post: "mq_action Enq_Unlocked None s (s\<lparr>q_avail := q_avail s + 1\<rparr>)"
| deq_take: "0 < q_avail s \<Longrightarrow>
     mq_action Deq_Called (Some Deq_Taken) s (s\<lparr>q_avail := q_avail s - 1\<rparr>)"
| deq_timeout: "q_avail s = 0 \<Longrightarrow> mq_action Deq_Called None s s"
| deq_lock: "\<not> q_locked s \<Longrightarrow>
     mq_action Deq_Taken (Some Deq_Locked) s (s\<lparr>q_locked := True\<rparr>)"
| deq_pop: "q_items s = m # rest \<Longrightarrow>
     mq_action Deq_Locked (Some (Deq_Popped m)) s
       (s\<lparr>q_items := rest, q_popped := q_popped s @ [m]\<rparr>)"
| deq_unlock: "mq_action (Deq_Popped m) None s (s\<lparr>q_locked := False\<rparr>)"

inductive_cases mq_enq_actionE:
  "mq_action (Enq_Called m) k s t" "mq_action (Enq_Locked m) k s t"
  "mq_action Enq_Pushed k s t" "mq_action Enq_Unlocked k s t"

definition thread_moves :: "mq_thread \<Rightarrow> mq_thread option \<Rightarrow> mq_sys \<Rightarrow> mq_sys" where
  "thread_moves k k' s =
     s\<lparr>q_threads := q_threads s - {#k#} + (case k' of None \<Rightarrow> {#} | Some t \<Rightarrow> {#t#})\<rparr>"

inductive mq_step :: "mq_sys \<Rightarrow> mq_sys \<Rightarrow> bool" where
  "k \<in># q_threads s \<Longrightarrow> mq_action k k' s t \<Longrightarrow> mq_step s (thread_moves k k' t)"

text \<open>Threads enter calls at any time.\<close>

inductive mq_reachable :: "mq_sys \<Rightarrow> bool" where
  start: "mq_reachable mq_sys_init"
| call_enqueue: "mq_reachable s \<Longrightarrow>
     mq_reachable (s\<lparr>q_threads := add_mset (Enq_Called m) (q_threads s)\<rparr>)"
| call_dequeue: "mq_reachable s \<Longrightarrow>
     mq_reachable (s\<lparr>q_threads := add_mset Deq_Called (q_threads s)\<rparr>)"
| thread_step: "mq_reachable s \<Longrightarrow> mq_step s t \<Longrightarrow> mq_reachable t"

fun in_critical :: "mq_thread \<Rightarrow> bool" where
  "in_critical (Enq_Locked _) = True"
| "in_critical Enq_Pushed = True"
| "in_critical Deq_Locked = True"
| "in_critical (Deq_Popped _) = True"
| "in_critical _ = False"

text \<open>Threads for which the deque holds one message more than the semaphore counts.\<close>

fun owes_token :: "mq_thread \<Rightarrow> bool" where
  "owes_token Enq_Pushed = True"
| "owes_token Enq_Unlocked = True"
| "owes_token Deq_Taken = True"
| "owes_token Deq_Locked = True"
| "owes_token _ = False"

definition mq_inv :: "mq_sys \<Rightarrow> bool" where
  "mq_inv s \<longleftrightarrow>
     size {#t \<in># q_threads s. in_critical t#} = (if q_locked s then 1 else 0) \<and>
     length (q_items s) = q_avail s + size {#t \<in># q_threads s. owes_token t#} \<and>
     q_pushed s = q_popped s @ q_items s"

lemma mq_inv_init: "mq_inv mq_sys_init"
  by (simp add: mq_inv_def mq_sys_init_def)

lemma mq_action_threads: "mq_action k k' s t \<Longrightarrow> q_threads t = q_threads s"
  by (induction rule: mq_action.induct) simp_all

lemma mq_inv_action:
  assumes "mq_action k k' s t" and "q_threads s = add_mset k R" and "mq_inv s"
  shows "mq_inv (thread_moves k k' t)"
  using assms
  by (induction rule: mq_action.induct) (auto simp: mq_inv_def thread_moves_def split: if_splits)

lemma mq_inv_step: "mq_step s t \<Longrightarrow> mq_inv s \<Longrightarrow> mq_inv t"
  by (auto elim!: mq_step.cases dest!: multi_member_split intro: mq_inv_action)

lemma mq_reachable_inv: "mq_reachable s \<Longrightarrow> mq_inv s"
proof (induction rule: mq_reachable.induct)
  case (thread_step s t)
  then show ?case by (blast intro: mq_inv_step)
qed (simp_all add: mq_inv_init, simp_all add: mq_inv_def)

lemma mq_pop_finds_message:
  assumes "mq_inv s" and "Deq_Locked \<in># q_threads s"
  shows "q_items s \<noteq> []"
proof -
  from assms(2) obtain R where "q_threads s = add_mset Deq_Locked R"
    by (blast dest: multi_member_split)
  with assms(1) show ?thesis by (auto simp: mq_inv_def)
qed

text \<open>
  C16: in every interleaving of any number of \<open>enqueue\<close> and \<open>dequeue\<close> calls: at most one
  thread holds the mutex; a thread about to take the front of the deque finds a message
  there; and the messages popped, followed by those in the deque, are the messages pushed,
  in the order they were pushed.
\<close>

theorem message_queue_safe:
  assumes "mq_reachable s"
  shows "size {#t \<in># q_threads s. in_critical t#} \<le> 1 \<and>
    (Deq_Locked \<in># q_threads s \<longrightarrow> q_items s \<noteq> []) \<and>
    q_popped s @ q_items s = q_pushed s"
proof -
  have inv: "mq_inv s" using assms by (rule mq_reachable_inv)
  then show ?thesis using mq_pop_finds_message [OF inv] by (auto simp: mq_inv_def)
qed

text \<open>
  The queue never deadlocks: a thread in the critical section can go on, and if nobody is there,
  every thread can.
\<close>

lemma mq_can_act:
  assumes "mq_inv s" and "k \<in># q_threads s" and "in_critical k \<or> \<not> q_locked s"
  shows "\<exists>k' t. mq_action k k' s t"
proof -
  obtain R where R: "q_threads s = add_mset k R"
    using assms(2) by (blast dest: multi_member_split)
  show ?thesis
  proof (cases k)
    case Deq_Called
    then show ?thesis using deq_take deq_timeout by (cases "q_avail s = 0") blast+
  next
    case Deq_Locked
    then have "q_items s \<noteq> []" using assms(1) R by (auto simp: mq_inv_def)
    then show ?thesis using Deq_Locked deq_pop by (cases "q_items s") blast+
  qed (use assms(3) in \<open>auto intro: mq_action.intros\<close>)
qed

lemma mq_someone_can_act:
  assumes "mq_inv s" and "q_threads s \<noteq> {#}"
  obtains k k' t where "k \<in># q_threads s" and "mq_action k k' s t"
proof (cases "q_locked s")
  case True
  then have "size {#t \<in># q_threads s. in_critical t#} = 1"
    using assms(1) by (simp add: mq_inv_def)
  then have "{#t \<in># q_threads s. in_critical t#} \<noteq> {#}"
    by (metis size_empty zero_neq_one)
  then obtain k where "k \<in># {#t \<in># q_threads s. in_critical t#}"
    by (rule multiset_nonemptyE)
  then have "k \<in># q_threads s" "in_critical k" by simp_all
  with mq_can_act [OF assms(1)] that show ?thesis by blast
next
  case False
  obtain k where "k \<in># q_threads s" using assms(2) by (rule multiset_nonemptyE)
  with mq_can_act [OF assms(1)] that False show ?thesis by blast
qed

theorem message_queue_progress:
  assumes "mq_reachable s" and "q_threads s \<noteq> {#}"
  shows "\<exists>t. mq_step s t"
  using mq_someone_can_act [OF mq_reachable_inv [OF assms(1)] assms(2)] mq_step.intros by metis

lemma mq_reachable_action:
  "mq_reachable s \<Longrightarrow> k \<in># q_threads s \<Longrightarrow> mq_action k k' s t \<Longrightarrow> mq_reachable (thread_moves k k' t)"
  by (blast intro: thread_step mq_step.intros)

lemma mq_run_example:
  "mq_reachable \<lparr>q_items = [m], q_avail = 0, q_locked = True, q_threads = {#Deq_Locked#},
     q_pushed = [m], q_popped = []\<rparr>"
proof -
  let ?q = "\<lambda>is n l ts. \<lparr>q_items = is, q_avail = n, q_locked = l, q_threads = ts,
    q_pushed = is, q_popped = []\<rparr>"
  have "mq_reachable (?q [] 0 False {#Enq_Called m#})"
    using call_enqueue [OF start] by (simp add: mq_sys_init_def)
  from mq_reachable_action [OF this _ enq_lock] have "mq_reachable (?q [] 0 True {#Enq_Locked m#})"
    by (simp add: thread_moves_def)
  from mq_reachable_action [OF this _ enq_push] have "mq_reachable (?q [m] 0 True {#Enq_Pushed#})"
    by (simp add: thread_moves_def)
  from mq_reachable_action [OF this _ enq_unlock] have "mq_reachable (?q [m] 0 False {#Enq_Unlocked#})"
    by (simp add: thread_moves_def)
  from mq_reachable_action [OF this _ enq_post] have "mq_reachable (?q [m] 1 False {#})"
    by (simp add: thread_moves_def)
  then have "mq_reachable (?q [m] 1 False {#Deq_Called#})"
    using call_dequeue by fastforce
  from mq_reachable_action [OF this _ deq_take] have "mq_reachable (?q [m] 0 False {#Deq_Taken#})"
    by (simp add: thread_moves_def)
  from mq_reachable_action [OF this _ deq_lock] show ?thesis
    by (simp add: thread_moves_def)
qed

lemma message_queue_safe_witness:
  "\<exists>s. mq_reachable s \<and> Deq_Locked \<in># q_threads s \<and> q_items s \<noteq> []"
  using mq_run_example [of message_default] message_queue_safe [OF mq_run_example [of message_default]]
  by (intro exI [of _ "\<lparr>q_items = [message_default], q_avail = 0, q_locked = True,
    q_threads = {#Deq_Locked#}, q_pushed = [message_default], q_popped = []\<rparr>"]) simp

end
