(* ===== verification/Util.thy ===== *)
theory Util
  imports Except
begin

text \<open>
  \<open>include/util.h\<close>: the separator loop \<open>Util::split\<close>, \<open>Util::trim\<close> and the map inversions.
  \<open>std::string\<close> is a list of bytes, a position (\<open>size_t\<close>) a natural number, and
  \<open>std::string::npos\<close> the value \<open>None\<close>. The loop of \<open>split\<close> is kept as it is written, with
  its position and result vector, and shown equal to the structural \<open>splitc\<close>.
\<close>

subsection \<open>Searching a string\<close>

fun find_char :: "(char \<Rightarrow> bool) \<Rightarrow> string \<Rightarrow> nat option" where
  "find_char P [] = None"
| "find_char P (c # cs) = (if P c then Some 0 else map_option Suc (find_char P cs))"

text \<open>\<open>s.find(sep, pos)\<close>.\<close>

definition str_find :: "string \<Rightarrow> char \<Rightarrow> nat \<Rightarrow> nat option" where
  "str_find s sep pos = map_option (\<lambda>i. pos + i) (find_char (\<lambda>c. c = sep) (drop pos s))"

text \<open>\<open>s.substr(pos, n)\<close>, for \<open>pos\<close> up to the size.\<close>

definition substr :: "string \<Rightarrow> nat \<Rightarrow> nat \<Rightarrow> string" where
  "substr s pos n = take n (drop pos s)"

lemma find_char_Some:
  "find_char P s = Some i \<Longrightarrow> i < length s \<and> P (s ! i) \<and> (\<forall>c\<in>set (take i s). \<not> P c)"
  by (induction s arbitrary: i) (auto split: if_splits)

lemma find_char_None: "find_char P s = None \<longleftrightarrow> (\<forall>c\<in>set s. \<not> P c)"
  by (induction s) auto

lemma str_find_bounds: "str_find s sep pos = Some p \<Longrightarrow> pos \<le> p \<and> p < length s"
  using find_char_Some by (fastforce simp: str_find_def)

subsection \<open>Split\<close>

function split_loop :: "string \<Rightarrow> char \<Rightarrow> nat \<Rightarrow> string list \<Rightarrow> string list" where
  "split_loop s sep pos v =
     (case str_find s sep pos of
        None \<Rightarrow> v @ [drop pos s]
      | Some sep_pos \<Rightarrow> split_loop s sep (sep_pos + 1) (v @ [substr s pos (sep_pos - pos)]))"
  by pat_completeness auto
termination
  by (relation "measure (\<lambda>(s, sep, pos, v). length s - pos)")
    (auto dest: str_find_bounds)

declare split_loop.simps [simp del]

definition split :: "string \<Rightarrow> char \<Rightarrow> string list" where
  "split s sep = split_loop s sep 0 []"

lemma split_loop_eq: "pos \<le> length s \<Longrightarrow> split_loop s sep pos v = v @ splitc sep (drop pos s)"
proof (induction s sep pos v rule: split_loop.induct)
  case (1 s sep pos v)
  show ?case
  proof (cases "str_find s sep pos")
    case None
    then have "sep \<notin> set (drop pos s)"
      by (auto simp: str_find_def find_char_None)
    with None show ?thesis
      by (subst split_loop.simps) (simp add: sep_simps)
  next
    case (Some p)
    let ?t = "substr s pos (p - pos)"
    have b: "pos \<le> p" "p < length s"
      using str_find_bounds [OF Some] by auto
    have "find_char (\<lambda>c. c = sep) (drop pos s) = Some (p - pos)"
      using Some by (auto simp: str_find_def)
    then have t: "sep \<notin> set ?t" and sep: "drop pos s ! (p - pos) = sep"
      by (auto simp: substr_def dest: find_char_Some)
    have "drop pos s = ?t @ drop (p - pos) (drop pos s)"
      unfolding substr_def by (rule append_take_drop_id [symmetric])
    also have "drop (p - pos) (drop pos s) = sep # drop (p + 1) s"
      using b sep by (simp add: Cons_nth_drop_Suc [symmetric])
    finally have "splitc sep (drop pos s) = ?t # splitc sep (drop (p + 1) s)"
      using t by (metis splitc_append_sep)
    with Some 1 b show ?thesis
      by (subst split_loop.simps) simp
  qed
qed

text \<open>
  The position-based loop of \<open>Util::split\<close> computes exactly the pieces between
  separators: the pieces contain no separator, and joining them gives the string back.
\<close>

theorem split_spec:
  "split s sep = splitc sep s \<and> join sep (split s sep) = s \<and>
   (\<forall>t\<in>set (split s sep). sep \<notin> set t) \<and> length (split s sep) = Suc (count_list s sep)"
  by (simp add: split_def split_loop_eq splitc_sep_free_all length_splitc)

lemma split_spec_witness: "split ''QUIT|a|'' CHR ''|'' = [''QUIT'', ''a'', []]"
  using split_spec [of "''QUIT|a|''" "CHR ''|''"] by simp

lemma split_eq_splitc [simp]: "split s sep = splitc sep s"
  by (simp add: split_def split_loop_eq)

subsection \<open>Trim\<close>

definition trim_chars :: string where
  "trim_chars = [CHR '' '', CHR 0x09, CHR 0x0A, CHR 0x0D, CHR 0x0C]"

definition find_first_not_of :: "string \<Rightarrow> string \<Rightarrow> nat option" where
  "find_first_not_of s cs = find_char (\<lambda>c. c \<notin> set cs) s"

definition find_last_not_of :: "string \<Rightarrow> string \<Rightarrow> nat option" where
  "find_last_not_of s cs =
     map_option (\<lambda>i. length s - 1 - i) (find_char (\<lambda>c. c \<notin> set cs) (rev s))"

text \<open>The two \<open>assert\<close>s of the function are branches; \<open>npos\<close> is not below the size.\<close>

definition trim :: "string \<Rightarrow> string res" where
  "trim s =
     (case find_first_not_of s trim_chars of
        None \<Rightarrow> Inr []
      | Some first_pos \<Rightarrow>
          (case find_last_not_of s trim_chars of
             None \<Rightarrow> Inl (Fatal ''assert(last < s.size())'')
           | Some last_pos \<Rightarrow>
               if \<not> last_pos < length s then Inl (Fatal ''assert(last < s.size())'')
               else if \<not> first_pos \<le> last_pos then Inl (Fatal ''assert(last >= first)'')
               else Inr (substr s first_pos ((last_pos - first_pos) + 1))))"

text \<open>The specification: leading and trailing characters of the set are dropped.\<close>

definition strip :: "string \<Rightarrow> string" where
  "strip s = rev (dropWhile (\<lambda>c. c \<in> set trim_chars)
               (rev (dropWhile (\<lambda>c. c \<in> set trim_chars) s)))"

lemma find_char_takeWhile: "find_char P s = Some i \<Longrightarrow> i = length (takeWhile (\<lambda>c. \<not> P c) s)"
  by (induction s arbitrary: i) (auto split: if_splits)

lemma dropWhile_find_char: "find_char P s = Some i \<Longrightarrow> dropWhile (\<lambda>c. \<not> P c) s = drop i s"
  by (induction s arbitrary: i) (auto split: if_splits)

lemma strip_eq_substr:
  assumes "find_char P s = Some i" and "find_char P (rev s) = Some j"
  shows "i + j < length s"
    and "rev (dropWhile (\<lambda>c. \<not> P c) (rev (drop i s))) = take (length s - i - j) (drop i s)"
proof -
  let ?n = "length s"
  have i: "i < ?n" "P (s ! i)"
    using find_char_Some [OF assms(1)] by auto
  have j: "j < ?n" "P (rev s ! j)" "\<forall>c\<in>set (take j (rev s)). \<not> P c"
    using find_char_Some [OF assms(2)] by auto
  have "\<not> ?n - 1 - i < j"
  proof
    assume "?n - 1 - i < j"
    then have "take j (rev s) ! (?n - 1 - i) = s ! i"
      using i(1) by (simp add: rev_nth)
    moreover have "take j (rev s) ! (?n - 1 - i) \<in> set (take j (rev s))"
      using \<open>?n - 1 - i < j\<close> i(1) j(1) by (intro nth_mem) simp
    ultimately show False using i(2) j(3) by auto
  qed
  then show ij: "i + j < ?n" using i(1) by simp
  have eq: "rev (drop i s) = take (?n - i) (rev s)"
    by (simp add: rev_drop)
  have "find_char P (take m (rev s)) = Some j" if "j < m" for m
    using assms(2) that
  proof (induction "rev s" arbitrary: s j m)
    case (Cons c cs)
    from Cons.hyps(2) have rs: "rev s = c # cs" by simp
    obtain m' where m: "m = Suc m'" using Cons.prems(2) by (cases m) auto
    show ?case
    proof (cases "P c")
      case False
      then obtain j' where "find_char P cs = Some j'" "j = Suc j'"
        using Cons.prems(1) rs by auto
      then show ?thesis
        using Cons.hyps(1) [of "rev cs" j' m'] Cons.prems(2) m rs False by simp
    qed (use Cons.prems rs m in auto)
  qed simp
  then have "find_char P (rev (drop i s)) = Some j"
    using ij by (simp add: eq)
  then have "dropWhile (\<lambda>c. \<not> P c) (rev (drop i s)) = drop j (rev (drop i s))"
    by (rule dropWhile_find_char)
  then have "rev (dropWhile (\<lambda>c. \<not> P c) (rev (drop i s))) = rev (drop j (rev (drop i s)))"
    by simp
  then show "rev (dropWhile (\<lambda>c. \<not> P c) (rev (drop i s))) = take (?n - i - j) (drop i s)"
    by (simp only: drop_rev rev_rev_ident length_drop)
qed

lemma trim_eq_strip: "trim s = Inr (strip s)"
proof (cases "find_char (\<lambda>c. c \<notin> set trim_chars) s")
  case None
  then have "\<forall>c\<in>set s. c \<in> set trim_chars"
    by (simp add: find_char_None)
  then have "strip s = []"
    unfolding strip_def by (simp only: dropWhile_eq_Nil_conv [THEN iffD2] rev.simps dropWhile.simps)
  with None show ?thesis
    by (simp add: trim_def find_first_not_of_def)
next
  case (Some i)
  then have "find_char (\<lambda>c. c \<notin> set trim_chars) (rev s) \<noteq> None"
    by (metis find_char_None option.distinct(1) set_rev)
  then obtain j where j: "find_char (\<lambda>c. c \<notin> set trim_chars) (rev s) = Some j"
    by auto
  have d: "dropWhile (\<lambda>c. c \<in> set trim_chars) s = drop i s"
    using dropWhile_find_char [OF Some] by simp
  have l: "length s - 1 - j - i + 1 = length s - i - j" "length s - 1 - j < length s"
    "i \<le> length s - 1 - j"
    using strip_eq_substr(1) [OF Some j] by linarith+
  show ?thesis
    using strip_eq_substr [OF Some j] Some j l
    by (simp add: trim_def strip_def d find_first_not_of_def find_last_not_of_def substr_def)
qed

lemma dropWhile_rev_dropWhile:
  "dropWhile P (rev (dropWhile P (rev (dropWhile P s)))) = rev (dropWhile P (rev (dropWhile P s)))"
proof -
  have "dropWhile P (rev (dropWhile P (rev t))) = rev (dropWhile P (rev t))"
    if "t = [] \<or> \<not> P (hd t)" for t
  proof (cases "dropWhile P (rev t) = []")
    case False
    then have "t \<noteq> []" by auto
    then have "hd (rev (dropWhile P (rev t))) = hd t"
      using False
      by (metis append_is_Nil_conv hd_append2 hd_rev last_appendR rev_is_Nil_conv rev_rev_ident
          takeWhile_dropWhile_id)
    moreover have "rev (dropWhile P (rev t)) \<noteq> []"
      using False by simp
    ultimately show ?thesis
      using that \<open>t \<noteq> []\<close> by (cases "rev (dropWhile P (rev t))") auto
  next
    case True
    then show ?thesis by (simp only: True dropWhile.simps rev.simps)
  qed
  moreover have "dropWhile P s = [] \<or> \<not> P (hd (dropWhile P s))"
    using hd_dropWhile by blast
  ultimately show ?thesis by blast
qed

lemma strip_idem: "strip (strip s) = strip s"
  by (simp add: strip_def dropWhile_rev_dropWhile)

subsection \<open>Inverting a map\<close>

text \<open>
  A map is given by its entries in iteration order. \<open>std::map\<close> iterates by key, the order
  of \<open>std::unordered_map\<close> is unspecified: what holds for every entry list holds for both.
\<close>

fun invert_loop :: "('k \<times> 'v) list \<Rightarrow> ('v \<times> 'k) list \<Rightarrow> ('v \<times> 'k) list" where
  "invert_loop [] v = v"
| "invert_loop (i # m) v = invert_loop m (v @ [(snd i, fst i)])"

definition invert_map :: "('k \<times> 'v) list \<Rightarrow> ('v \<times> 'k) list" where
  "invert_map m = invert_loop m []"

definition invert_unordered_map :: "('k \<times> 'v) list \<Rightarrow> ('v \<times> 'k) list" where
  "invert_unordered_map m = invert_loop m []"

lemma invert_loop_eq: "invert_loop m v = v @ map (\<lambda>(k, x). (x, k)) m"
  by (induction m v rule: invert_loop.induct) auto

lemma invert_unordered_map_eq: "invert_unordered_map m = map (\<lambda>(k, x). (x, k)) m"
  by (simp add: invert_unordered_map_def invert_loop_eq)

lemma invert_map_eq: "invert_map m = map (\<lambda>(k, x). (x, k)) m"
  by (simp add: invert_map_def invert_loop_eq)

lemma map_of_perm:
  assumes "distinct (map fst es)" and "distinct (map fst es')" and "set es' = set es"
  shows "map_of es' = map_of es"
  using assms by (metis map_of_eqI map_of_eq_Some_iff ext option.exhaust)

lemma invert_perm:
  assumes "distinct (map snd m)" and "set m' = set m" and "distinct (map snd m')"
  shows "map_of (invert_unordered_map m') = map_of (invert_unordered_map m)"
proof (rule map_of_perm)
  have "map fst (invert_unordered_map es) = map snd es" for es :: "('b \<times> 'a) list"
    by (simp add: invert_unordered_map_eq case_prod_beta comp_def)
  then show "distinct (map fst (invert_unordered_map m))"
    and "distinct (map fst (invert_unordered_map m'))"
    using assms by simp_all
  show "set (invert_unordered_map m') = set (invert_unordered_map m)"
    using assms(2) by (simp add: invert_unordered_map_eq)
qed

text \<open>
  \<open>Util::trim\<close> never hits one of its assertions, and returns the string without its
  leading and trailing whitespace; trimming twice changes nothing more.
\<close>

theorem trim_spec: "trim s = Inr (strip s) \<and> bindR (trim s) trim = trim s"
  by (simp add: trim_eq_strip strip_idem)

end
