(* ===== verification/Wire_Text.thy ===== *)
theory Wire_Text
  imports Message Util
begin

text \<open>
  The text of enumerations and integers in \<open>src/wire.cpp\<close>. The constant tables are their
  initialiser lists; the reverse tables are built from the inverted entries.
  \<open>std::stoi\<close> and \<open>std::to_string\<close> are modelled as the C++ standard describes them: \<open>stoi\<close>
  skips leading whitespace, takes an optional sign and the longest run of digits, and
  reports where it stopped.
\<close>

subsection \<open>Enumerations\<close>

definition s_client_mode_to_str :: "(client_mode \<times> string) list" where
  "s_client_mode_to_str =
    [(CM_INVALID, ''INVALID''), (CM_UPDATER, ''UPDATER''), (CM_DISPLAY, ''DISPLAY'')]"

definition s_message_type_to_str :: "(message_type \<times> string) list" where
  "s_message_type_to_str =
    [(MT_INVALID, ''INVALID''), (MT_LOGIN, ''LOGIN''), (MT_QUIT, ''QUIT''),
     (MT_ORDER_NEW, ''ORDER_NEW''), (MT_ITEM_UPDATE, ''ITEM_UPDATE''),
     (MT_ORDER_UPDATE, ''ORDER_UPDATE''), (MT_OK, ''OK''), (MT_ERROR, ''ERROR''),
     (MT_DISP_ORDER, ''DISP_ORDER''), (MT_DISP_ITEM_UPDATE, ''DISP_ITEM_UPDATE''),
     (MT_DISP_ORDER_UPDATE, ''DISP_ORDER_UPDATE''), (MT_DISP_HEARTBEAT, ''DISP_HEARTBEAT'')]"

definition s_item_status_to_str :: "(item_status \<times> string) list" where
  "s_item_status_to_str =
    [(IS_INVALID, ''INVALID''), (IS_NEW, ''NEW''), (IS_IN_PROGRESS, ''IN_PROGRESS''),
     (IS_DONE, ''DONE'')]"

definition s_order_status_to_str :: "(order_status \<times> string) list" where
  "s_order_status_to_str =
    [(OS_INVALID, ''INVALID''), (OS_NEW, ''NEW''), (OS_IN_PROGRESS, ''IN_PROGRESS''),
     (OS_DONE, ''DONE''), (OS_DELIVERED, ''DELIVERED'')]"

definition s_str_to_client_mode :: "(string \<times> client_mode) list" where
  "s_str_to_client_mode = invert_unordered_map s_client_mode_to_str"

definition s_str_to_message_type :: "(string \<times> message_type) list" where
  "s_str_to_message_type = invert_unordered_map s_message_type_to_str"

definition s_str_to_item_status :: "(string \<times> item_status) list" where
  "s_str_to_item_status = invert_unordered_map s_item_status_to_str"

definition s_str_to_order_status :: "(string \<times> order_status) list" where
  "s_str_to_order_status = invert_unordered_map s_order_status_to_str"

definition client_mode_to_str :: "client_mode \<Rightarrow> string" where
  "client_mode_to_str client_mode =
     (case map_of s_client_mode_to_str client_mode of Some s \<Rightarrow> s | None \<Rightarrow> ''<invalid>'')"

definition str_to_client_mode :: "string \<Rightarrow> client_mode" where
  "str_to_client_mode s =
     (case map_of s_str_to_client_mode s of Some x \<Rightarrow> x | None \<Rightarrow> CM_INVALID)"

definition message_type_to_str :: "message_type \<Rightarrow> string" where
  "message_type_to_str message_type =
     (case map_of s_message_type_to_str message_type of Some s \<Rightarrow> s | None \<Rightarrow> ''<invalid>'')"

definition str_to_message_type :: "string \<Rightarrow> message_type" where
  "str_to_message_type s =
     (case map_of s_str_to_message_type s of Some x \<Rightarrow> x | None \<Rightarrow> MT_INVALID)"

definition item_status_to_str :: "item_status \<Rightarrow> string" where
  "item_status_to_str item_status =
     (case map_of s_item_status_to_str item_status of Some s \<Rightarrow> s | None \<Rightarrow> ''<invalid>'')"

definition str_to_item_status :: "string \<Rightarrow> item_status" where
  "str_to_item_status s =
     (case map_of s_str_to_item_status s of Some x \<Rightarrow> x | None \<Rightarrow> IS_INVALID)"

definition order_status_to_str :: "order_status \<Rightarrow> string" where
  "order_status_to_str order_status =
     (case map_of s_order_status_to_str order_status of Some s \<Rightarrow> s | None \<Rightarrow> ''<invalid>'')"

definition str_to_order_status :: "string \<Rightarrow> order_status" where
  "str_to_order_status s =
     (case map_of s_str_to_order_status s of Some x \<Rightarrow> x | None \<Rightarrow> OS_INVALID)"

lemmas enum_tables =
  s_client_mode_to_str_def s_message_type_to_str_def s_item_status_to_str_def
  s_order_status_to_str_def

lemmas enum_text_defs =
  client_mode_to_str_def str_to_client_mode_def s_str_to_client_mode_def
  message_type_to_str_def str_to_message_type_def s_str_to_message_type_def
  item_status_to_str_def str_to_item_status_def s_str_to_item_status_def
  order_status_to_str_def str_to_order_status_def s_str_to_order_status_def

lemma enum_texts [simp]:
  "client_mode_to_str CM_INVALID = ''INVALID''" "client_mode_to_str CM_UPDATER = ''UPDATER''"
  "client_mode_to_str CM_DISPLAY = ''DISPLAY''"
  "item_status_to_str IS_INVALID = ''INVALID''" "item_status_to_str IS_NEW = ''NEW''"
  "item_status_to_str IS_IN_PROGRESS = ''IN_PROGRESS''" "item_status_to_str IS_DONE = ''DONE''"
  "order_status_to_str OS_INVALID = ''INVALID''" "order_status_to_str OS_NEW = ''NEW''"
  "order_status_to_str OS_IN_PROGRESS = ''IN_PROGRESS''"
  "order_status_to_str OS_DONE = ''DONE''" "order_status_to_str OS_DELIVERED = ''DELIVERED''"
  by (simp_all add: enum_text_defs enum_tables)

lemma message_type_texts [simp]:
  "message_type_to_str MT_INVALID = ''INVALID''" "message_type_to_str MT_LOGIN = ''LOGIN''"
  "message_type_to_str MT_QUIT = ''QUIT''" "message_type_to_str MT_ORDER_NEW = ''ORDER_NEW''"
  "message_type_to_str MT_ITEM_UPDATE = ''ITEM_UPDATE''"
  "message_type_to_str MT_ORDER_UPDATE = ''ORDER_UPDATE''"
  "message_type_to_str MT_OK = ''OK''" "message_type_to_str MT_ERROR = ''ERROR''"
  "message_type_to_str MT_DISP_ORDER = ''DISP_ORDER''"
  "message_type_to_str MT_DISP_ITEM_UPDATE = ''DISP_ITEM_UPDATE''"
  "message_type_to_str MT_DISP_ORDER_UPDATE = ''DISP_ORDER_UPDATE''"
  "message_type_to_str MT_DISP_HEARTBEAT = ''DISP_HEARTBEAT''"
  by (simp_all add: enum_text_defs enum_tables)

text \<open>The reverse look-ups as one conditional each, for evaluation and case analysis.\<close>

lemma str_to_client_mode_if:
  "str_to_client_mode s =
     (if s = ''UPDATER'' then CM_UPDATER else if s = ''DISPLAY'' then CM_DISPLAY else CM_INVALID)"
  by (simp add: enum_text_defs enum_tables invert_unordered_map_eq)

lemma str_to_item_status_if:
  "str_to_item_status s =
     (if s = ''NEW'' then IS_NEW else if s = ''IN_PROGRESS'' then IS_IN_PROGRESS
      else if s = ''DONE'' then IS_DONE else IS_INVALID)"
  by (simp add: enum_text_defs enum_tables invert_unordered_map_eq)

lemma str_to_order_status_if:
  "str_to_order_status s =
     (if s = ''NEW'' then OS_NEW else if s = ''IN_PROGRESS'' then OS_IN_PROGRESS
      else if s = ''DONE'' then OS_DONE else if s = ''DELIVERED'' then OS_DELIVERED
      else OS_INVALID)"
  by (simp add: enum_text_defs enum_tables invert_unordered_map_eq)

lemma str_to_message_type_text [simp]: "str_to_message_type (message_type_to_str t) = t"
  by (cases t) (simp_all add: str_to_message_type_def s_str_to_message_type_def
    s_message_type_to_str_def invert_unordered_map_eq)

lemma str_to_client_mode_text [simp]: "str_to_client_mode (client_mode_to_str x) = x"
  by (cases x) (simp_all add: str_to_client_mode_if)

lemma str_to_item_status_text [simp]: "str_to_item_status (item_status_to_str x) = x"
  by (cases x) (simp_all add: str_to_item_status_if)

lemma str_to_order_status_text [simp]: "str_to_order_status (order_status_to_str x) = x"
  by (cases x) (simp_all add: str_to_order_status_if)

lemma str_to_message_type_valid:
  "str_to_message_type s \<noteq> MT_INVALID \<Longrightarrow> s = message_type_to_str (str_to_message_type s)"
  by (simp add: str_to_message_type_def s_str_to_message_type_def
      s_message_type_to_str_def invert_unordered_map_eq split: if_splits)

lemma str_to_item_status_valid:
  "str_to_item_status s \<noteq> IS_INVALID \<Longrightarrow> s = item_status_to_str (str_to_item_status s)"
  by (simp add: str_to_item_status_if split: if_splits)

lemma str_to_order_status_valid:
  "str_to_order_status s \<noteq> OS_INVALID \<Longrightarrow> s = order_status_to_str (str_to_order_status s)"
  by (simp add: str_to_order_status_if split: if_splits)

lemma str_to_client_mode_valid:
  "str_to_client_mode s \<noteq> CM_INVALID \<Longrightarrow> s = client_mode_to_str (str_to_client_mode s)"
  by (simp add: str_to_client_mode_if split: if_splits)

text \<open>No enumeration text holds one of the separators of the wire format.\<close>

definition wire_seps :: "char set" where
  "wire_seps = {CHR ''|'', CHR '','', CHR '';'', CHR '':''}"

lemma enum_text_sep_free:
  "set (client_mode_to_str x) \<inter> wire_seps = {}" "set (item_status_to_str y) \<inter> wire_seps = {}"
  "set (order_status_to_str z) \<inter> wire_seps = {}" "set (message_type_to_str t) \<inter> wire_seps = {}"
  by (cases x, simp_all add: wire_seps_def) (cases y, simp_all, cases z, simp_all, cases t, simp_all)

lemma inverted_table_perm:
  assumes "distinct (map snd m)" and "set m' = set m" and "distinct m'"
  shows "map_of (invert_unordered_map m') = map_of (invert_unordered_map m)"
proof -
  have "inj_on snd (set m')"
    unfolding assms(2) using assms(1) by (simp add: distinct_map)
  then have "distinct (map snd m')"
    using assms(3) by (simp add: distinct_map)
  then show ?thesis by (rule invert_perm [OF assms(1,2)])
qed

text \<open>
  The reverse tables are built by iterating over unordered maps, in an order the
  library does not specify. Whatever that order is (any other listing of the same
  entries), all four reverse look-ups are the same.
\<close>

theorem reverse_tables_order_independent:
  assumes "set cs = set s_client_mode_to_str" and "distinct cs"
    and "set ms = set s_message_type_to_str" and "distinct ms"
    and "set is = set s_item_status_to_str" and "distinct is"
    and "set os = set s_order_status_to_str" and "distinct os"
  shows "map_of (invert_unordered_map cs) = map_of s_str_to_client_mode \<and>
    map_of (invert_unordered_map ms) = map_of s_str_to_message_type \<and>
    map_of (invert_unordered_map is) = map_of s_str_to_item_status \<and>
    map_of (invert_unordered_map os) = map_of s_str_to_order_status"
proof -
  have "distinct (map snd s_client_mode_to_str)" "distinct (map snd s_message_type_to_str)"
    "distinct (map snd s_item_status_to_str)" "distinct (map snd s_order_status_to_str)"
    by (simp_all add: enum_tables)
  then show ?thesis
    unfolding s_str_to_client_mode_def s_str_to_message_type_def s_str_to_item_status_def
      s_str_to_order_status_def
    using assms by (intro conjI inverted_table_perm)
qed

lemma reverse_tables_order_independent_witness:
  "map_of (invert_unordered_map (rev s_message_type_to_str)) ''OK'' = Some MT_OK"
proof -
  have "distinct s_client_mode_to_str" "distinct s_message_type_to_str"
    "distinct s_item_status_to_str" "distinct s_order_status_to_str"
    by (simp_all add: enum_tables)
  then have "map_of (invert_unordered_map (rev s_message_type_to_str)) =
      map_of s_str_to_message_type"
    using reverse_tables_order_independent [of "rev s_client_mode_to_str"
        "rev s_message_type_to_str" "rev s_item_status_to_str" "rev s_order_status_to_str"]
    by (simp only: set_rev distinct_rev simp_thms)
  then show ?thesis
    by (simp add: s_str_to_message_type_def s_message_type_to_str_def invert_unordered_map_eq)
qed

end
