(* ===== verification/Wire_Int.thy ===== *)
theory Wire_Int
  imports Wire_Text
begin

text \<open>
  Integers as text: \<open>std::to_string\<close>, \<open>std::stoi\<close> and the two \<open>parse_positive_int\<close>
  functions built on it (the one of \<open>src/wire.cpp\<close> throws \<open>InvalidMessage\<close>, the one of
  \<open>src/client_util.cpp\<close> throws \<open>ProtocolError\<close>). The main result characterises the accepted
  language exactly.
\<close>

subsection \<open>Standard library\<close>

definition int_max :: int where
  "int_max = 2147483647"

definition int_min :: int where
  "int_min = -2147483648"

definition is_digit :: "char \<Rightarrow> bool" where
  "is_digit c \<longleftrightarrow> 48 \<le> (of_char c :: nat) \<and> (of_char c :: nat) \<le> 57"

definition is_space :: "char \<Rightarrow> bool" where
  "is_space c \<longleftrightarrow> c \<in> {CHR '' '', CHR 0x09, CHR 0x0A, CHR 0x0B, CHR 0x0C, CHR 0x0D}"

definition digit_char :: "nat \<Rightarrow> char" where
  "digit_char d = char_of (48 + d)"

definition digit_val :: "char \<Rightarrow> nat" where
  "digit_val c = of_char c - 48"

fun dec_digits :: "nat \<Rightarrow> string" where
  "dec_digits n =
     (if n < 10 then [digit_char n] else dec_digits (n div 10) @ [digit_char (n mod 10)])"

declare dec_digits.simps [simp del]

definition dec_val :: "string \<Rightarrow> nat" where
  "dec_val s = foldl (\<lambda>a c. 10 * a + digit_val c) 0 s"

definition to_string :: "int \<Rightarrow> string" where
  "to_string v = (if v < 0 then CHR ''-'' # dec_digits (nat (- v)) else dec_digits (nat v))"

text \<open>
  \<open>std::stoi(str, &pos, 10)\<close>: \<open>strtol\<close>, then \<open>std::invalid_argument\<close> when it converted
  nothing and \<open>std::out_of_range\<close> when the value is outside \<open>int\<close>.
\<close>

definition stoi :: "string \<Rightarrow> (int \<times> nat) res" where
  "stoi str =
     (let blanks = takeWhile is_space str;
          rest = dropWhile is_space str;
          signed = (case rest of c # _ \<Rightarrow> c = CHR ''-'' \<or> c = CHR ''+'' | [] \<Rightarrow> False);
          negative = (case rest of c # _ \<Rightarrow> c = CHR ''-'' | [] \<Rightarrow> False);
          digits = takeWhile is_digit (if signed then tl rest else rest);
          value = (if negative then - int (dec_val digits) else int (dec_val digits))
      in if digits = [] then Inl (Std_exception ''stoi'')
         else if value < int_min \<or> int_max < value then Inl (Std_exception ''stoi'')
         else Inr (value, length blanks + (if signed then 1 else 0) + length digits))"

subsection \<open>parse_positive_int\<close>

definition parse_positive_int :: "string \<Rightarrow> string \<Rightarrow> int res" where
  "parse_positive_int str field_name =
     (case stoi str of
        Inl _ \<Rightarrow> Inl (InvalidMessage (''invalid integer field: '' @ field_name))
      | Inr (number, pos) \<Rightarrow>
          if pos \<noteq> length str \<or> number \<le> 0
          then Inl (InvalidMessage (''invalid positive integer field: '' @ field_name))
          else Inr number)"

definition client_parse_positive_int :: "string \<Rightarrow> string \<Rightarrow> int res" where
  "client_parse_positive_int s field_name =
     (case stoi s of
        Inl _ \<Rightarrow> Inl (ProtocolError (''invalid integer for '' @ field_name))
      | Inr (value, pos) \<Rightarrow>
          if pos \<noteq> length s \<or> value \<le> 0
          then Inl (ProtocolError (''invalid integer for '' @ field_name))
          else Inr value)"

subsection \<open>Decimal digits\<close>

lemma of_char_digit_char: "d < 10 \<Longrightarrow> (of_char (digit_char d) :: nat) = 48 + d"
  by (simp add: digit_char_def)

lemma is_digit_digit_char [simp]: "d < 10 \<Longrightarrow> is_digit (digit_char d)"
  by (simp add: is_digit_def of_char_digit_char)

lemma digit_val_digit_char [simp]: "d < 10 \<Longrightarrow> digit_val (digit_char d) = d"
  by (simp add: digit_val_def of_char_digit_char)

lemma dec_digits_digits: "\<forall>c\<in>set (dec_digits n). is_digit c"
proof (induction n rule: dec_digits.induct)
  case (1 n)
  then show ?case by (subst dec_digits.simps) auto
qed

lemma dec_digits_not_Nil [simp]: "dec_digits n \<noteq> []"
  by (subst dec_digits.simps) simp

lemma dec_val_snoc: "dec_val (s @ [c]) = 10 * dec_val s + digit_val c"
  by (simp add: dec_val_def)

lemma dec_val_dec_digits [simp]: "dec_val (dec_digits n) = n"
proof (induction n rule: dec_digits.induct)
  case (1 n)
  show ?case
  proof (cases "n < 10")
    case True
    then show ?thesis by (subst dec_digits.simps) (simp add: dec_val_def)
  next
    case False
    with 1 show ?thesis by (subst dec_digits.simps) (simp add: dec_val_snoc)
  qed
qed

lemma digit_not_special:
  "is_digit c \<Longrightarrow> c \<notin> wire_seps \<and> \<not> is_space c \<and> c \<noteq> CHR ''-'' \<and> c \<noteq> CHR ''+'' \<and> c \<noteq> CHR 0x0A"
  by (auto simp: is_digit_def is_space_def wire_seps_def)

lemma to_string_nonneg: "0 \<le> v \<Longrightarrow> to_string v = dec_digits (nat v)"
  by (simp add: to_string_def)

lemma to_string_sep_free: "set (to_string v) \<inter> wire_seps = {}"
proof -
  have "set (dec_digits n) \<inter> wire_seps = {}" for n
    using dec_digits_digits digit_not_special by blast
  then show ?thesis by (auto simp: to_string_def wire_seps_def)
qed

subsection \<open>What stoi accepts\<close>

lemma takeWhile_prefix:
  assumes "\<forall>x\<in>set xs. P x" and "ys = [] \<or> \<not> P (hd ys)"
  shows "takeWhile P (xs @ ys) = xs" and "dropWhile P (xs @ ys) = ys"
  using assms by (cases ys; simp add: takeWhile_append dropWhile_append)+

text \<open>The accepted positive numerals: blanks, an optional plus sign, digits.\<close>

definition positive_numeral :: "string \<Rightarrow> int \<Rightarrow> bool" where
  "positive_numeral s v \<longleftrightarrow>
     (\<exists>w p ds. s = w @ p @ ds \<and> (\<forall>c\<in>set w. is_space c) \<and> (p = [] \<or> p = [CHR ''+'']) \<and>
        ds \<noteq> [] \<and> (\<forall>c\<in>set ds. is_digit c) \<and> v = int (dec_val ds) \<and> 0 < v \<and> v \<le> int_max)"

lemma stoi_numeral:
  assumes "\<forall>c\<in>set w. is_space c" and "p = [] \<or> p = [CHR ''+'']"
    and "ds \<noteq> []" and "\<forall>c\<in>set ds. is_digit c" and "int (dec_val ds) \<le> int_max"
  shows "stoi (w @ p @ ds) = Inr (int (dec_val ds), length (w @ p @ ds))"
proof -
  obtain d ds' where ds: "ds = d # ds'" using assms(3) by (cases ds) auto
  then have d: "is_digit d" using assms(4) by simp
  note sp = digit_not_special [OF d]
  have nsp: "\<not> is_space CHR ''+''" by (simp add: is_space_def)
  have bl: "takeWhile is_space (w @ p @ ds) = w" "dropWhile is_space (w @ p @ ds) = p @ ds"
    using assms(1,2) ds sp nsp by (auto intro!: takeWhile_prefix)
  have dg: "takeWhile is_digit ds = ds"
    using assms(4) by (simp add: takeWhile_eq_all_conv)
  have nosign: "(case ds of c # _ \<Rightarrow> c = CHR ''-'' \<or> c = CHR ''+'' | [] \<Rightarrow> False) = False"
    "(case ds of c # _ \<Rightarrow> c = CHR ''-'' | [] \<Rightarrow> False) = False"
    using sp by (simp_all add: ds)
  have lo: "\<not> int (dec_val ds) < int_min" by (simp add: int_min_def)
  show ?thesis
  proof (cases "p = []")
    case True
    then show ?thesis
      using bl lo assms(3,5) by (simp add: stoi_def Let_def dg nosign)
  next
    case False
    then have "p = [CHR ''+'']" using assms(2) by simp
    then show ?thesis
      using bl lo assms(3,5) by (simp add: stoi_def Let_def dg)
  qed
qed

lemma stoi_whole_positive:
  assumes "stoi s = Inr (v, length s)" and "0 < v"
  shows "positive_numeral s v"
proof -
  define w where "w = takeWhile is_space s"
  define r where "r = dropWhile is_space s"
  define p where "p = (case r of c # _ \<Rightarrow> if c = CHR ''-'' \<or> c = CHR ''+'' then [c] else [] | [] \<Rightarrow> [])"
  define t where "t = drop (length p) r"
  define ds where "ds = takeWhile is_digit t"
  have r: "r = p @ t"
    by (cases r) (auto simp: p_def t_def)
  have s: "s = w @ r"
    by (simp add: w_def r_def)
  have sg: "(case r of c # _ \<Rightarrow> c = CHR ''-'' \<or> c = CHR ''+'' | [] \<Rightarrow> False) \<longleftrightarrow> p \<noteq> []"
    by (cases r) (auto simp: p_def)
  have neg: "(case r of c # _ \<Rightarrow> c = CHR ''-'' | [] \<Rightarrow> False) \<longleftrightarrow> p = [CHR ''-'']"
    by (cases r) (auto simp: p_def)
  have tl: "(if p \<noteq> [] then tl r else r) = t"
    by (cases r) (auto simp: p_def t_def)
  have lp: "length p = (if p \<noteq> [] then 1 else 0)" "p \<in> {[], [CHR ''-''], [CHR ''+'']}"
    by (cases r; auto simp: p_def)+
  have st: "ds \<noteq> []" "v = (if p = [CHR ''-''] then - int (dec_val ds) else int (dec_val ds))"
    "v \<le> int_max" "length s = length w + length p + length ds"
    using assms(1) unfolding stoi_def Let_def w_def [symmetric] r_def [symmetric] sg neg tl
      ds_def [symmetric] lp(1) [symmetric]
    by (auto split: if_splits)
  have "p \<noteq> [CHR ''-'']" using st(2) assms(2) by auto
  moreover have "length t = length ds"
    using st(4) s r by simp
  then have "t = ds"
    unfolding ds_def by (metis append_eq_conv_conj append_self_conv takeWhile_dropWhile_id)
  moreover have "\<forall>c\<in>set w. is_space c" "\<forall>c\<in>set ds. is_digit c"
    by (auto simp: w_def ds_def dest: set_takeWhileD)
  ultimately have "s = w @ p @ ds \<and> (\<forall>c\<in>set w. is_space c) \<and> (p = [] \<or> p = [CHR ''+'']) \<and>
      ds \<noteq> [] \<and> (\<forall>c\<in>set ds. is_digit c) \<and> v = int (dec_val ds) \<and> 0 < v \<and> v \<le> int_max"
    using s r st lp(2) assms(2) by simp
  then show ?thesis unfolding positive_numeral_def by blast
qed

lemma positive_numeral_iff:
  "positive_numeral s v \<longleftrightarrow> stoi s = Inr (v, length s) \<and> 0 < v"
proof
  assume "positive_numeral s v"
  then show "stoi s = Inr (v, length s) \<and> 0 < v"
    unfolding positive_numeral_def by (elim exE conjE) (simp only: stoi_numeral simp_thms)
qed (auto intro: stoi_whole_positive)

text \<open>
  C38: the strings both \<open>parse_positive_int\<close> functions accept are exactly the numerals made
  of blanks, an optional plus sign and decimal digits whose value is between 1 and the
  largest \<open>int\<close>; that value is the result, and every other string is refused with the
  function's own exception.
\<close>

theorem parse_positive_int_spec:
  "(parse_positive_int s f = Inr v \<longleftrightarrow> positive_numeral s v) \<and>
   (client_parse_positive_int s f = Inr v \<longleftrightarrow> positive_numeral s v) \<and>
   (parse_positive_int s f = Inl e \<longrightarrow> is_InvalidMessage e) \<and>
   (client_parse_positive_int s f = Inl e \<longrightarrow> e = ProtocolError (''invalid integer for '' @ f))"
  unfolding positive_numeral_iff
  by (auto simp: parse_positive_int_def client_parse_positive_int_def
      split: sum.splits if_splits prod.splits)

lemma parse_positive_int_spec_witness:
  "\<exists>e. parse_positive_int ''12x'' ''item id'' = Inl e \<and> is_InvalidMessage e"
proof (cases "parse_positive_int ''12x'' ''item id''")
  case (Inl e)
  then show ?thesis using parse_positive_int_spec [of "''12x''" "''item id''" _ e] by simp
next
  case (Inr v)
  then have "positive_numeral ''12x'' v"
    using parse_positive_int_spec [of "''12x''" "''item id''" v] by simp
  then show ?thesis
    by (simp add: positive_numeral_iff stoi_def is_digit_def is_space_def dec_val_def
        digit_val_def int_max_def int_min_def)
qed

lemma parse_positive_int_iff: "parse_positive_int s f = Inr v \<longleftrightarrow> positive_numeral s v"
  unfolding positive_numeral_iff
  by (auto simp: parse_positive_int_def split: sum.splits prod.splits)

lemma parse_positive_int_Inl: "parse_positive_int s f = Inl e \<Longrightarrow> is_InvalidMessage e"
  by (auto simp: parse_positive_int_def split: sum.splits if_splits prod.splits)

lemma parse_positive_int_bounds:
  "parse_positive_int s f = Inr v \<Longrightarrow> 0 < v \<and> v \<le> int_max"
  by (auto simp: parse_positive_int_iff positive_numeral_def)

lemma positive_numeral_to_string: "0 < v \<Longrightarrow> v \<le> int_max \<Longrightarrow> positive_numeral (to_string v) v"
  unfolding positive_numeral_def
  by (rule exI [of _ "[]"], rule exI [of _ "[]"], rule exI [of _ "to_string v"])
    (simp add: to_string_nonneg dec_digits_digits)

interpretation int_text: text_codec to_string "\<lambda>s. parse_positive_int s f"
  "\<lambda>v. 0 < v \<and> v \<le> int_max" for f
  by unfold_locales (simp add: parse_positive_int_iff positive_numeral_to_string)

end
