(* ===== verification/Wire.thy ===== *)
theory Wire
  imports Wire_Int
begin

text \<open>
  The text encoding of messages, \<open>src/wire.cpp\<close>: orders and items, \<open>Wire::encode\<close> and
  \<open>Wire::decode\<close>. \<open>wf_message\<close> is the set of messages the protocol exchanges; on it the two
  functions are an instance of \<open>codec\<close>. \<open>decoded_ok\<close> is what every decoded message satisfies.
\<close>

subsection \<open>Orders\<close>

definition item_to_str :: "item \<Rightarrow> string" where
  "item_to_str item =
     to_string (i_order_id item) @ '':'' @
     to_string (i_id item) @ '':'' @
     item_status_to_str (i_status item) @ '':'' @
     i_desc item @ '':'' @
     to_string (i_qty item)"

text \<open>The loop of \<open>encode_order\<close>, with its index and the string under construction.\<close>

fun encode_items :: "nat \<Rightarrow> item list \<Rightarrow> string \<Rightarrow> string" where
  "encode_items i [] out = out"
| "encode_items i (item # rest) out =
     encode_items (Suc i) rest ((if i > 0 then out @ '';'' else out) @ item_to_str item)"

definition encode_order :: "order option \<Rightarrow> string res" where
  "encode_order order =
     (case order of
        None \<Rightarrow> Inl (InvalidMessage ''invalid order payload'')
      | Some ord \<Rightarrow>
          if get_num_items ord \<le> 0 then Inl (InvalidMessage ''invalid order payload'')
          else Inr (encode_items 0 (o_items ord)
                 (to_string (o_id ord) @ '','' @ order_status_to_str (o_status ord) @ '','')))"

definition decode_item :: "string \<Rightarrow> item res" where
  "decode_item s =
     (case split s CHR '':'' of
        [p0, p1, p2, p3, p4] \<Rightarrow>
          bindR (parse_positive_int p0 ''item order id'') (\<lambda>item_order_id.
          bindR (parse_positive_int p1 ''item id'') (\<lambda>item_id.
          let item_status = str_to_item_status p2 in
          bindR (ensure (item_status \<noteq> IS_INVALID) (InvalidMessage ''invalid item status'')) (\<lambda>_.
          bindR (parse_positive_int p4 ''item quantity'') (\<lambda>qty.
            Inr (mk_item item_order_id item_id item_status p3 qty)))))
      | _ \<Rightarrow> Inl (InvalidMessage ''invalid item field count''))"

fun decode_items :: "string list \<Rightarrow> order \<Rightarrow> order res" where
  "decode_items [] order = Inr order"
| "decode_items (i # rest) order =
     bindR (decode_item i) (\<lambda>item. decode_items rest (add_item order item))"

definition decode_order :: "string \<Rightarrow> order res" where
  "decode_order s =
     (case split s CHR '','' of
        [f0, f1, f2] \<Rightarrow>
          bindR (parse_positive_int f0 ''order id'') (\<lambda>order_id.
          let order_status = str_to_order_status f1 in
          bindR (ensure (order_status \<noteq> OS_INVALID) (InvalidMessage ''invalid order status'')) (\<lambda>_.
          let item_fields = split f2 CHR '';'' in
          bindR (ensure (item_fields \<noteq> []) (InvalidMessage ''order has no items'')) (\<lambda>_.
            decode_items item_fields (mk_order order_id order_status))))
      | _ \<Rightarrow> Inl (InvalidMessage ''invalid order field count''))"

subsection \<open>Messages\<close>

definition encode_item_update :: "string \<Rightarrow> message \<Rightarrow> string res" where
  "encode_item_update name msg =
     (if \<not> has_order_id msg \<or> \<not> has_item_id msg \<or> \<not> has_item_status msg
      then Inl (InvalidMessage (''invalid '' @ name @ '' message''))
      else Inr (name @ ''|'' @ to_string (m_order_id msg) @ ''|'' @
             to_string (m_item_id msg) @ ''|'' @ item_status_to_str (m_item_status msg)))"

definition encode_order_update :: "string \<Rightarrow> message \<Rightarrow> string res" where
  "encode_order_update name msg =
     (if \<not> has_order_id msg \<or> \<not> has_order_status msg
      then Inl (InvalidMessage (''invalid '' @ name @ '' message''))
      else Inr (name @ ''|'' @ to_string (m_order_id msg) @ ''|'' @
             order_status_to_str (m_order_status msg)))"

definition encode_str :: "string \<Rightarrow> message \<Rightarrow> string res" where
  "encode_str name msg =
     (if \<not> has_str msg then Inl (InvalidMessage (''invalid '' @ name @ '' message''))
      else Inr (name @ ''|'' @ m_str msg))"

definition encode :: "message \<Rightarrow> string res" where
  "encode msg =
     (case m_type msg of
        MT_LOGIN \<Rightarrow>
          if \<not> has_client_mode msg \<or> \<not> has_str msg
          then Inl (InvalidMessage ''invalid LOGIN message'')
          else Inr (''LOGIN|'' @ client_mode_to_str (m_client_mode msg) @ ''|'' @ m_str msg)
      | MT_QUIT \<Rightarrow> encode_str ''QUIT'' msg
      | MT_ORDER_NEW \<Rightarrow> bindR (encode_order (m_order msg)) (\<lambda>s. Inr (''ORDER_NEW|'' @ s))
      | MT_ITEM_UPDATE \<Rightarrow> encode_item_update ''ITEM_UPDATE'' msg
      | MT_ORDER_UPDATE \<Rightarrow> encode_order_update ''ORDER_UPDATE'' msg
      | MT_OK \<Rightarrow> encode_str ''OK'' msg
      | MT_ERROR \<Rightarrow> encode_str ''ERROR'' msg
      | MT_DISP_ORDER \<Rightarrow> bindR (encode_order (m_order msg)) (\<lambda>s. Inr (''DISP_ORDER|'' @ s))
      | MT_DISP_ITEM_UPDATE \<Rightarrow> encode_item_update ''DISP_ITEM_UPDATE'' msg
      | MT_DISP_ORDER_UPDATE \<Rightarrow> encode_order_update ''DISP_ORDER_UPDATE'' msg
      | MT_DISP_HEARTBEAT \<Rightarrow> Inr ''DISP_HEARTBEAT''
      | MT_INVALID \<Rightarrow> Inl (InvalidMessage ''invalid message type for encoding''))"

definition decode_login :: "message_type \<Rightarrow> string list \<Rightarrow> message res" where
  "decode_login type overall_fields =
     (case overall_fields of
        [_, f1, f2] \<Rightarrow>
          let mode = str_to_client_mode f1 in
          if mode = CM_INVALID then Inl (InvalidMessage ''invalid client mode'')
          else Inr (message_login type mode f2)
      | _ \<Rightarrow> Inl (InvalidMessage ''invalid LOGIN field count''))"

definition decode_str :: "message_type \<Rightarrow> string list \<Rightarrow> message res" where
  "decode_str type overall_fields =
     (case overall_fields of
        [_, f1] \<Rightarrow> Inr (message_str type f1)
      | _ \<Rightarrow> Inl (InvalidMessage ''invalid string message field count''))"

definition decode_order_msg :: "message_type \<Rightarrow> string list \<Rightarrow> message res" where
  "decode_order_msg type overall_fields =
     (case overall_fields of
        [_, f1] \<Rightarrow> bindR (decode_order f1) (\<lambda>order. Inr (message_order type (Some order)))
      | _ \<Rightarrow> Inl (InvalidMessage ''invalid order message field count''))"

definition decode_item_update :: "message_type \<Rightarrow> string list \<Rightarrow> message res" where
  "decode_item_update type overall_fields =
     (case overall_fields of
        [_, f1, f2, f3] \<Rightarrow>
          bindR (parse_positive_int f1 ''order id'') (\<lambda>order_id.
          bindR (parse_positive_int f2 ''item id'') (\<lambda>item_id.
          let item_status = str_to_item_status f3 in
          if item_status = IS_INVALID then Inl (InvalidMessage ''invalid item status'')
          else Inr (message_item_update type order_id item_id item_status)))
      | _ \<Rightarrow> Inl (InvalidMessage ''invalid item update field count''))"

definition decode_order_update :: "message_type \<Rightarrow> string list \<Rightarrow> message res" where
  "decode_order_update type overall_fields =
     (case overall_fields of
        [_, f1, f2] \<Rightarrow>
          bindR (parse_positive_int f1 ''order id'') (\<lambda>order_id.
          let order_status = str_to_order_status f2 in
          if order_status = OS_INVALID then Inl (InvalidMessage ''invalid order status'')
          else Inr (message_order_update type order_id order_status))
      | _ \<Rightarrow> Inl (InvalidMessage ''invalid order update field count''))"

definition decode_heartbeat :: "message_type \<Rightarrow> string list \<Rightarrow> message res" where
  "decode_heartbeat type overall_fields =
     (case overall_fields of
        [_] \<Rightarrow> Inr (message_plain type)
      | _ \<Rightarrow> Inl (InvalidMessage ''invalid heartbeat field count''))"

definition decode :: "string \<Rightarrow> message res" where
  "decode given_str =
     (let overall_fields = split given_str CHR ''|'' in
      case overall_fields of
        [] \<Rightarrow> Inl (InvalidMessage ''empty message'')
      | f0 # _ \<Rightarrow>
          let type = str_to_message_type f0 in
          case type of
            MT_INVALID \<Rightarrow> Inl (InvalidMessage ''invalid message type'')
          | MT_LOGIN \<Rightarrow> decode_login type overall_fields
          | MT_QUIT \<Rightarrow> decode_str type overall_fields
          | MT_OK \<Rightarrow> decode_str type overall_fields
          | MT_ERROR \<Rightarrow> decode_str type overall_fields
          | MT_ORDER_NEW \<Rightarrow> decode_order_msg type overall_fields
          | MT_DISP_ORDER \<Rightarrow> decode_order_msg type overall_fields
          | MT_ITEM_UPDATE \<Rightarrow> decode_item_update type overall_fields
          | MT_DISP_ITEM_UPDATE \<Rightarrow> decode_item_update type overall_fields
          | MT_ORDER_UPDATE \<Rightarrow> decode_order_update type overall_fields
          | MT_DISP_ORDER_UPDATE \<Rightarrow> decode_order_update type overall_fields
          | MT_DISP_HEARTBEAT \<Rightarrow> decode_heartbeat type overall_fields)"

subsection \<open>Well-formed data\<close>

definition positive_int :: "int \<Rightarrow> bool" where
  "positive_int v \<longleftrightarrow> 0 < v \<and> v \<le> int_max"

definition wf_item :: "item \<Rightarrow> bool" where
  "wf_item x \<longleftrightarrow>
     positive_int (i_order_id x) \<and> positive_int (i_id x) \<and> positive_int (i_qty x) \<and>
     i_status x \<noteq> IS_INVALID \<and> set (i_desc x) \<inter> wire_seps = {}"

definition wf_order :: "order \<Rightarrow> bool" where
  "wf_order x \<longleftrightarrow>
     positive_int (o_id x) \<and> o_status x \<noteq> OS_INVALID \<and> o_items x \<noteq> [] \<and>
     (\<forall>y\<in>set (o_items x). wf_item y)"

definition decoded_ok :: "message \<Rightarrow> bool" where
  "decoded_ok m =
     (case m_type m of
        MT_LOGIN \<Rightarrow> m_client_mode m \<noteq> CM_INVALID \<and> CHR ''|'' \<notin> set (m_str m) \<and>
          m = message_login MT_LOGIN (m_client_mode m) (m_str m)
      | MT_QUIT \<Rightarrow> CHR ''|'' \<notin> set (m_str m) \<and> m = message_str MT_QUIT (m_str m)
      | MT_OK \<Rightarrow> CHR ''|'' \<notin> set (m_str m) \<and> m = message_str MT_OK (m_str m)
      | MT_ERROR \<Rightarrow> CHR ''|'' \<notin> set (m_str m) \<and> m = message_str MT_ERROR (m_str m)
      | MT_ORDER_NEW \<Rightarrow>
          (case m_order m of Some x \<Rightarrow> wf_order x | None \<Rightarrow> False) \<and>
          m = message_order MT_ORDER_NEW (m_order m)
      | MT_DISP_ORDER \<Rightarrow>
          (case m_order m of Some x \<Rightarrow> wf_order x | None \<Rightarrow> False) \<and>
          m = message_order MT_DISP_ORDER (m_order m)
      | MT_ITEM_UPDATE \<Rightarrow>
          positive_int (m_order_id m) \<and> positive_int (m_item_id m) \<and>
          m_item_status m \<noteq> IS_INVALID \<and>
          m = message_item_update MT_ITEM_UPDATE (m_order_id m) (m_item_id m) (m_item_status m)
      | MT_DISP_ITEM_UPDATE \<Rightarrow>
          positive_int (m_order_id m) \<and> positive_int (m_item_id m) \<and>
          m_item_status m \<noteq> IS_INVALID \<and>
          m = message_item_update MT_DISP_ITEM_UPDATE (m_order_id m) (m_item_id m) (m_item_status m)
      | MT_ORDER_UPDATE \<Rightarrow>
          positive_int (m_order_id m) \<and> m_order_status m \<noteq> OS_INVALID \<and>
          m = message_order_update MT_ORDER_UPDATE (m_order_id m) (m_order_status m)
      | MT_DISP_ORDER_UPDATE \<Rightarrow>
          positive_int (m_order_id m) \<and> m_order_status m \<noteq> OS_INVALID \<and>
          m = message_order_update MT_DISP_ORDER_UPDATE (m_order_id m) (m_order_status m)
      | MT_DISP_HEARTBEAT \<Rightarrow> m = message_plain MT_DISP_HEARTBEAT
      | MT_INVALID \<Rightarrow> False)"

definition carries_str :: "message_type \<Rightarrow> bool" where
  "carries_str t \<longleftrightarrow> t \<in> {MT_LOGIN, MT_QUIT, MT_OK, MT_ERROR}"

definition wf_message :: "message \<Rightarrow> bool" where
  "wf_message m \<longleftrightarrow> decoded_ok m \<and> (carries_str (m_type m) \<longrightarrow> m_str m \<noteq> [])"

end
