(* ===== verification/Server.thy ===== *)
theory Server
  imports Ord_Map Message_Queue Wire
begin

text \<open>
  \<open>include/server.h\<close> and \<open>src/server.cpp\<close>: the orders, the registered display clients, the
  next order id, and the operations on them. Every public operation holds the server's
  mutex from its first to its last statement (\<open>Guard\<close>), so it is one atomic step. A
  \<open>Client *\<close> is a number; the message queue each client object owns is part of this state,
  because only the server's operations fill it. An exception leaves the state the operation
  has reached: the result is a pair of the outcome and the state.

  An \<open>Order\<close> object is reachable from the map only: the message that brought it is local to
  the session and is not used after the call, and what is broadcast are duplicates. So the
  map holds the orders as values, and an update through the pointer is an assignment to the
  entry.
\<close>

type_synonym client_id = nat

record server =
  m_orders :: "(int \<times> order) list"
  m_display_clients :: "client_id list"
  m_next_order_id :: int
  m_queues :: "client_id \<Rightarrow> message_queue"

definition server_init :: server where
  "server_init =
     \<lparr>m_orders = [], m_display_clients = [], m_next_order_id = 1000, m_queues = (\<lambda>_. mq_init)\<rparr>"

subsection \<open>Broadcast and registration\<close>

definition client_enqueue :: "client_id \<Rightarrow> message \<Rightarrow> server \<Rightarrow> server" where
  "client_enqueue client msg this =
     this\<lparr>m_queues := (m_queues this)(client := mq_enqueue msg (m_queues this client))\<rparr>"

text \<open>The set of display clients is listed in the order in which it is iterated.\<close>

fun broadcast_loop :: "client_id list \<Rightarrow> message \<Rightarrow> server \<Rightarrow> server" where
  "broadcast_loop [] msg this = this"
| "broadcast_loop (client # rest) msg this =
     broadcast_loop rest msg (client_enqueue client (message_duplicate msg) this)"

definition broadcast :: "message \<Rightarrow> server \<Rightarrow> server" where
  "broadcast msg this = broadcast_loop (m_display_clients this) msg this"

fun snapshot_loop :: "(int \<times> order) list \<Rightarrow> client_id \<Rightarrow> server \<Rightarrow> server" where
  "snapshot_loop [] client this = this"
| "snapshot_loop (pair # rest) client this =
     snapshot_loop rest client
       (client_enqueue client (message_order MT_DISP_ORDER (Some (order_duplicate (snd pair)))) this)"

definition register_display :: "client_id \<Rightarrow> server \<Rightarrow> server" where
  "register_display client this =
     (let this1 = this\<lparr>m_display_clients := List.insert client (m_display_clients this)\<rparr> in
      snapshot_loop (m_orders this1) client this1)"

definition unregister_display :: "client_id \<Rightarrow> server \<Rightarrow> server" where
  "unregister_display client this =
     this\<lparr>m_display_clients := removeAll client (m_display_clients this)\<rparr>"

subsection \<open>Order operations\<close>

text \<open>Writing through the pointer the map holds for \<open>order_id\<close>.\<close>

definition store_order :: "int \<Rightarrow> order \<Rightarrow> server \<Rightarrow> server" where
  "store_order order_id order this =
     this\<lparr>m_orders := om_assign (m_orders this) order_id order\<rparr>"

fun set_item_order_ids :: "int \<Rightarrow> item list \<Rightarrow> item list" where
  "set_item_order_ids id' [] = []"
| "set_item_order_ids id' (i # rest) = item_set_order_id id' i # set_item_order_ids id' rest"

text \<open>Incrementing the largest \<open>int\<close> is undefined behaviour.\<close>

definition process_new_order :: "order \<Rightarrow> server \<Rightarrow> int res \<times> server" where
  "process_new_order order this =
     (if m_next_order_id this = int_max
      then (Inl (Fatal ''signed integer overflow''), this)
      else
        let id' = m_next_order_id this;
            this1 = this\<lparr>m_next_order_id := id' + 1\<rparr>;
            order1 = order_set_id id' order;
            order2 = order1\<lparr>o_items := set_item_order_ids id' (o_items order1)\<rparr>;
            order3 = order_set_status OS_NEW order2;
            this2 = store_order id' order3 this1;
            this3 = broadcast (message_order MT_DISP_ORDER (Some order3)) this2
        in (Inr id', this3))"

fun all_done :: "item list \<Rightarrow> bool" where
  "all_done [] = True"
| "all_done (i # rest) = (if i_status i \<noteq> IS_DONE then False else all_done rest)"

definition process_item_update ::
  "int \<Rightarrow> int \<Rightarrow> item_status \<Rightarrow> server \<Rightarrow> unit res \<times> server" where
  "process_item_update order_id item_id item_status this =
     (case om_find (m_orders this) order_id of
        None \<Rightarrow> (Inl (SemanticError ''order not found''), this)
      | Some order \<Rightarrow>
          (case find_item order item_id of
             None \<Rightarrow> (Inl (SemanticError ''item not found''), this)
           | Some item \<Rightarrow>
               let cur = item_get_status order item in
               if \<not> (cur = IS_NEW \<and> item_status = IS_IN_PROGRESS \<or>
                     cur = IS_IN_PROGRESS \<and> item_status = IS_DONE)
               then (Inl (SemanticError ''invalid item status transition''), this)
               else
                 let order1 = item_set_status order item item_status;
                     this1 = broadcast
                       (message_item_update MT_DISP_ITEM_UPDATE order_id item_id item_status)
                       (store_order order_id order1 this);
                     order_status = o_status order1
                 in
                 if item_status = IS_IN_PROGRESS \<and> order_status = OS_NEW then
                   (Inr (), broadcast
                      (message_order_update MT_DISP_ORDER_UPDATE order_id OS_IN_PROGRESS)
                      (store_order order_id (order_set_status OS_IN_PROGRESS order1) this1))
                 else if item_status = IS_DONE \<and> order_status = OS_IN_PROGRESS then
                   (if all_done (o_items order1) then
                      (Inr (), broadcast
                         (message_order_update MT_DISP_ORDER_UPDATE order_id OS_DONE)
                         (store_order order_id (order_set_status OS_DONE order1) this1))
                    else (Inr (), this1))
                 else (Inr (), this1)))"

definition process_order_update ::
  "int \<Rightarrow> order_status \<Rightarrow> server \<Rightarrow> unit res \<times> server" where
  "process_order_update order_id order_status this =
     (case om_find (m_orders this) order_id of
        None \<Rightarrow> (Inl (SemanticError ''order not found''), this)
      | Some order \<Rightarrow>
          if o_status order \<noteq> OS_DONE \<or> order_status \<noteq> OS_DELIVERED
          then (Inl (SemanticError ''invalid order status transition''), this)
          else
            let this1 = broadcast
                  (message_order_update MT_DISP_ORDER_UPDATE order_id OS_DELIVERED)
                  (store_order order_id (order_set_status OS_DELIVERED order) this)
            in (Inr (), this1\<lparr>m_orders := om_erase (m_orders this1) order_id\<rparr>))"

subsection \<open>Display side of a client\<close>

text \<open>\<open>m_queue.dequeue()\<close> by the display session of the client.\<close>

definition client_dequeue :: "bool \<Rightarrow> client_id \<Rightarrow> server \<Rightarrow> message option res \<times> server" where
  "client_dequeue expired client this =
     (case mq_dequeue expired (m_queues this client) of
        Inl e \<Rightarrow> (Inl e, this)
      | Inr (msg, q) \<Rightarrow> (Inr msg, this\<lparr>m_queues := (m_queues this)(client := q)\<rparr>))"

subsection \<open>Frames of the loops\<close>

definition queue_of :: "server \<Rightarrow> client_id \<Rightarrow> message list" where
  "queue_of s c = mq_queue (m_queues s c)"

definition queues_ok :: "server \<Rightarrow> bool" where
  "queues_ok s \<longleftrightarrow> (\<forall>c. mq_ok (m_queues s c))"

lemma client_enqueue_sel [simp]:
  "m_orders (client_enqueue c m s) = m_orders s"
  "m_display_clients (client_enqueue c m s) = m_display_clients s"
  "m_next_order_id (client_enqueue c m s) = m_next_order_id s"
  by (simp_all add: client_enqueue_def)

lemma client_enqueue_queue:
  "queue_of (client_enqueue c m s) d = (if d = c then queue_of s c @ [m] else queue_of s d)"
  by (simp add: client_enqueue_def queue_of_def mq_enqueue_def)

lemma client_enqueue_ok: "queues_ok s \<Longrightarrow> queues_ok (client_enqueue c m s)"
  by (simp add: client_enqueue_def queues_ok_def mq.ok_enq)

lemma broadcast_loop_sel [simp]:
  "m_orders (broadcast_loop cs m s) = m_orders s"
  "m_display_clients (broadcast_loop cs m s) = m_display_clients s"
  "m_next_order_id (broadcast_loop cs m s) = m_next_order_id s"
  by (induction cs m s rule: broadcast_loop.induct) simp_all

lemma broadcast_sel [simp]:
  "m_orders (broadcast m s) = m_orders s"
  "m_display_clients (broadcast m s) = m_display_clients s"
  "m_next_order_id (broadcast m s) = m_next_order_id s"
  by (simp_all add: broadcast_def)

lemma broadcast_loop_ok: "queues_ok s \<Longrightarrow> queues_ok (broadcast_loop cs m s)"
  by (induction cs m s rule: broadcast_loop.induct) (simp_all add: client_enqueue_ok)

lemma broadcast_ok: "queues_ok s \<Longrightarrow> queues_ok (broadcast m s)"
  by (simp add: broadcast_def broadcast_loop_ok)

lemma broadcast_loop_queue:
  "distinct cs \<Longrightarrow>
     queue_of (broadcast_loop cs m s) d = queue_of s d @ (if d \<in> set cs then [m] else [])"
  by (induction cs m s rule: broadcast_loop.induct) (auto simp: client_enqueue_queue)

lemma broadcast_queue:
  "distinct (m_display_clients s) \<Longrightarrow>
     queue_of (broadcast m s) d =
       queue_of s d @ (if d \<in> set (m_display_clients s) then [m] else [])"
  by (simp add: broadcast_def broadcast_loop_queue)

lemma snapshot_loop_sel [simp]:
  "m_orders (snapshot_loop ps c s) = m_orders s"
  "m_display_clients (snapshot_loop ps c s) = m_display_clients s"
  "m_next_order_id (snapshot_loop ps c s) = m_next_order_id s"
  by (induction ps c s rule: snapshot_loop.induct) simp_all

lemma snapshot_loop_ok: "queues_ok s \<Longrightarrow> queues_ok (snapshot_loop ps c s)"
  by (induction ps c s rule: snapshot_loop.induct) (simp_all add: client_enqueue_ok)

definition snapshot_messages :: "(int \<times> order) list \<Rightarrow> message list" where
  "snapshot_messages ps = map (\<lambda>p. message_order MT_DISP_ORDER (Some (snd p))) ps"

lemma snapshot_loop_queue:
  "queue_of (snapshot_loop ps c s) d =
     queue_of s d @ (if d = c then snapshot_messages ps else [])"
  by (induction ps c s rule: snapshot_loop.induct)
    (auto simp: client_enqueue_queue snapshot_messages_def)

lemma store_order_sel [simp]:
  "m_orders (store_order k x s) = om_assign (m_orders s) k x"
  "m_display_clients (store_order k x s) = m_display_clients s"
  "m_next_order_id (store_order k x s) = m_next_order_id s"
  "queue_of (store_order k x s) = queue_of s"
  "queues_ok (store_order k x s) = queues_ok s"
  by (simp_all add: store_order_def queue_of_def fun_eq_iff queues_ok_def)

lemma queue_of_update [simp]:
  "queue_of (s\<lparr>m_orders := x\<rparr>) = queue_of s" "queue_of (s\<lparr>m_next_order_id := n\<rparr>) = queue_of s"
  "queue_of (s\<lparr>m_display_clients := ds\<rparr>) = queue_of s"
  "queues_ok (s\<lparr>m_orders := x\<rparr>) = queues_ok s" "queues_ok (s\<lparr>m_next_order_id := n\<rparr>) = queues_ok s"
  "queues_ok (s\<lparr>m_display_clients := ds\<rparr>) = queues_ok s"
  by (simp_all add: queue_of_def queues_ok_def fun_eq_iff)

lemma set_item_order_ids_map: "set_item_order_ids k its = map (\<lambda>i. i\<lparr>i_order_id := k\<rparr>) its"
  by (induction its) simp_all

lemma all_done_iff: "all_done its \<longleftrightarrow> (\<forall>i\<in>set its. i_status i = IS_DONE)"
  by (induction its) auto

end
