(* ===== verification/Server_Correct.thy ===== *)
theory Server_Correct
  imports Server
begin

text \<open>
  What the server's operations do. \<open>server_inv\<close> is the data invariant of the component;
  the effect of each operation on the orders and on the queues of the display clients is
  stated once, as a function on one order (\<open>advance_order\<close>) and a list of messages, and the
  properties follow from these effects by induction over sequences of operations.
\<close>

subsection \<open>Operations as steps\<close>

datatype server_op =
    Op_new_order order
  | Op_item_update int int item_status
  | Op_order_update int order_status
  | Op_register client_id
  | Op_unregister client_id
  | Op_dequeue client_id

fun server_step :: "server_op \<Rightarrow> server \<Rightarrow> server" where
  "server_step (Op_new_order x) s = snd (process_new_order x s)"
| "server_step (Op_item_update k i st) s = snd (process_item_update k i st s)"
| "server_step (Op_order_update k st) s = snd (process_order_update k st s)"
| "server_step (Op_register c) s = register_display c s"
| "server_step (Op_unregister c) s = unregister_display c s"
| "server_step (Op_dequeue c) s = snd (client_dequeue False c s)"

definition server_run :: "server_op list \<Rightarrow> server \<Rightarrow> server" where
  "server_run ops s = fold server_step ops s"

definition live_order :: "int \<Rightarrow> int \<Rightarrow> order \<Rightarrow> bool" where
  "live_order n k x \<longleftrightarrow>
     o_id x = k \<and> 1000 \<le> k \<and> k < n \<and> o_status x \<in> {OS_NEW, OS_IN_PROGRESS, OS_DONE} \<and>
     (\<forall>i\<in>set (o_items x). i_order_id i = k)"

definition server_inv :: "server \<Rightarrow> bool" where
  "server_inv s \<longleftrightarrow>
     om_ok (m_orders s) \<and> distinct (m_display_clients s) \<and> queues_ok s \<and>
     1000 \<le> m_next_order_id s \<and> m_next_order_id s \<le> int_max \<and>
     (\<forall>k x. om_find (m_orders s) k = Some x \<longrightarrow> live_order (m_next_order_id s) k x)"

lemma server_inv_init: "server_inv server_init"
  by (simp add: server_inv_def server_init_def om.ok_empty queues_ok_def mq.ok_empty int_max_def)

lemma server_invD:
  assumes "server_inv s"
  shows "om_ok (m_orders s)" and "distinct (m_display_clients s)" and "queues_ok s"
    and "om_find (m_orders s) k = Some x \<Longrightarrow> live_order (m_next_order_id s) k x"
  using assms by (simp_all add: server_inv_def)

lemma live_order_mono: "live_order n k x \<Longrightarrow> n \<le> n' \<Longrightarrow> live_order n' k x"
  by (auto simp: live_order_def)

subsection \<open>New orders\<close>

definition created_order :: "int \<Rightarrow> order \<Rightarrow> order" where
  "created_order k x =
     \<lparr>o_id = k, o_status = OS_NEW, o_items = map (\<lambda>i. i\<lparr>i_order_id := k\<rparr>) (o_items x)\<rparr>"

text \<open>The messages an operation appends to the queue of every registered display.\<close>

definition appends :: "server \<Rightarrow> message list \<Rightarrow> server \<Rightarrow> bool" where
  "appends s msgs s' \<longleftrightarrow>
     m_display_clients s' = m_display_clients s \<and>
     (queues_ok s \<longrightarrow> queues_ok s') \<and>
     (\<forall>c. queue_of s' c =
        queue_of s c @ (if c \<in> set (m_display_clients s) then msgs else []))"

lemma process_new_order_effect:
  assumes "distinct (m_display_clients s)" and "m_next_order_id s \<noteq> int_max"
  obtains s' where
    "process_new_order x s = (Inr (m_next_order_id s), s')"
    and "m_orders s' = om_assign (m_orders s) (m_next_order_id s) (created_order (m_next_order_id s) x)"
    and "m_next_order_id s' = m_next_order_id s + 1"
    and "appends s [message_order MT_DISP_ORDER (Some (created_order (m_next_order_id s) x))] s'"
proof -
  have "(let k = m_next_order_id s in x\<lparr>o_id := k, o_items := set_item_order_ids k (o_items x),
      o_status := OS_NEW\<rparr>) = created_order (m_next_order_id s) x"
    by (cases x) (simp add: created_order_def set_item_order_ids_map Let_def)
  then show ?thesis
    using assms that
    by (simp add: process_new_order_def Let_def appends_def broadcast_queue broadcast_ok)
qed

subsection \<open>Item updates\<close>

definition valid_advance :: "item_status \<Rightarrow> item_status \<Rightarrow> bool" where
  "valid_advance cur st \<longleftrightarrow>
     cur = IS_NEW \<and> st = IS_IN_PROGRESS \<or> cur = IS_IN_PROGRESS \<and> st = IS_DONE"

text \<open>The order's own status after an item update: \<open>None\<close> when it does not change.\<close>

definition next_order_status :: "order \<Rightarrow> item_status \<Rightarrow> order_status option" where
  "next_order_status x st =
     (if st = IS_IN_PROGRESS \<and> o_status x = OS_NEW then Some OS_IN_PROGRESS
      else if st = IS_DONE \<and> o_status x = OS_IN_PROGRESS \<and>
              (\<forall>i\<in>set (o_items x). i_status i = IS_DONE) then Some OS_DONE
      else None)"

definition advance_order :: "order \<Rightarrow> nat \<Rightarrow> item_status \<Rightarrow> order" where
  "advance_order x p st =
     (let x1 = item_set_status x p st in
      case next_order_status x1 st of None \<Rightarrow> x1 | Some os \<Rightarrow> x1\<lparr>o_status := os\<rparr>)"

definition item_update_messages :: "int \<Rightarrow> int \<Rightarrow> order \<Rightarrow> nat \<Rightarrow> item_status \<Rightarrow> message list" where
  "item_update_messages k i x p st =
     message_item_update MT_DISP_ITEM_UPDATE k i st #
     (case next_order_status (item_set_status x p st) st of
        None \<Rightarrow> []
      | Some os \<Rightarrow> [message_order_update MT_DISP_ORDER_UPDATE k os])"

lemma process_item_update_fails:
  "om_find (m_orders s) k = None \<Longrightarrow>
     process_item_update k i st s = (Inl (SemanticError ''order not found''), s)"
  "om_find (m_orders s) k = Some x \<Longrightarrow> find_item x i = None \<Longrightarrow>
     process_item_update k i st s = (Inl (SemanticError ''item not found''), s)"
  "om_find (m_orders s) k = Some x \<Longrightarrow> find_item x i = Some p \<Longrightarrow>
     \<not> valid_advance (i_status (o_items x ! p)) st \<Longrightarrow>
     process_item_update k i st s = (Inl (SemanticError ''invalid item status transition''), s)"
  by (auto simp: process_item_update_def valid_advance_def item_get_status_def)

lemma process_item_update_succeeds:
  fixes x k i st p s
  defines "x1 \<equiv> item_set_status x p st"
  defines "s1 \<equiv> broadcast (message_item_update MT_DISP_ITEM_UPDATE k i st) (store_order k x1 s)"
  assumes "om_find (m_orders s) k = Some x" and "find_item x i = Some p"
    and "valid_advance (i_status (o_items x ! p)) st"
  shows "process_item_update k i st s = (Inr (),
     case next_order_status x1 st of
       None \<Rightarrow> s1
     | Some os \<Rightarrow> broadcast (message_order_update MT_DISP_ORDER_UPDATE k os)
                    (store_order k (x1\<lparr>o_status := os\<rparr>) s1))"
proof -
  from assms(5) consider
      "item_get_status x p = IS_NEW" "st = IS_IN_PROGRESS"
    | "item_get_status x p = IS_IN_PROGRESS" "st = IS_DONE"
    by (auto simp: valid_advance_def item_get_status_def)
  then show ?thesis
    by cases (simp_all add: process_item_update_def assms(3,4) Let_def next_order_status_def
        x1_def s1_def all_done_iff)
qed

lemma process_item_update_effect:
  assumes "om_ok (m_orders s)" and "distinct (m_display_clients s)"
    and "om_find (m_orders s) k = Some x" and "find_item x i = Some p"
    and "valid_advance (i_status (o_items x ! p)) st"
  obtains s' where
    "process_item_update k i st s = (Inr (), s')"
    and "m_orders s' = om_assign (m_orders s) k (advance_order x p st)"
    and "m_next_order_id s' = m_next_order_id s"
    and "appends s (item_update_messages k i x p st) s'"
proof (rule that [OF process_item_update_succeeds [OF assms(3-5)]])
qed (simp_all add: advance_order_def item_update_messages_def appends_def broadcast_queue
    broadcast_ok om.assign_assign [OF assms(1)] assms(2) Let_def split: option.splits)

subsection \<open>Order updates\<close>

lemma process_order_update_fails:
  "om_find (m_orders s) k = None \<Longrightarrow>
     process_order_update k st s = (Inl (SemanticError ''order not found''), s)"
  "om_find (m_orders s) k = Some x \<Longrightarrow> \<not> (o_status x = OS_DONE \<and> st = OS_DELIVERED) \<Longrightarrow>
     process_order_update k st s = (Inl (SemanticError ''invalid order status transition''), s)"
  by (auto simp: process_order_update_def)

lemma process_order_update_effect:
  assumes "om_ok (m_orders s)" and "distinct (m_display_clients s)"
    and "om_find (m_orders s) k = Some x" and "o_status x = OS_DONE"
  obtains s' where
    "process_order_update k OS_DELIVERED s = (Inr (), s')"
    and "m_orders s' = om_erase (m_orders s) k"
    and "m_next_order_id s' = m_next_order_id s"
    and "appends s [message_order_update MT_DISP_ORDER_UPDATE k OS_DELIVERED] s'"
  using assms that om.erase_assign [OF assms(1)]
  by (simp add: process_order_update_def Let_def appends_def broadcast_queue broadcast_ok)

subsection \<open>Displays\<close>

lemma register_display_effect:
  "m_orders (register_display c s) = m_orders s"
  "m_next_order_id (register_display c s) = m_next_order_id s"
  "m_display_clients (register_display c s) = List.insert c (m_display_clients s)"
  "queue_of (register_display c s) d =
     queue_of s d @ (if d = c then snapshot_messages (m_orders s) else [])"
  "queues_ok s \<Longrightarrow> queues_ok (register_display c s)"
  by (simp_all add: register_display_def Let_def snapshot_loop_queue snapshot_loop_ok)

lemma unregister_display_effect:
  "m_orders (unregister_display c s) = m_orders s"
  "m_next_order_id (unregister_display c s) = m_next_order_id s"
  "m_display_clients (unregister_display c s) = removeAll c (m_display_clients s)"
  "queue_of (unregister_display c s) = queue_of s"
  "queues_ok (unregister_display c s) = queues_ok s"
  by (simp_all add: unregister_display_def)

lemma client_dequeue_effect:
  assumes "queues_ok s"
  obtains r s' where "client_dequeue False c s = (Inr r, s')"
    and "m_orders s' = m_orders s" and "m_next_order_id s' = m_next_order_id s"
    and "m_display_clients s' = m_display_clients s" and "queues_ok s'"
    and "\<And>d. d \<noteq> c \<Longrightarrow> queue_of s' d = queue_of s d"
    and "case r of None \<Rightarrow> queue_of s c = [] \<and> queue_of s' c = []
         | Some msg \<Rightarrow> queue_of s c = msg # queue_of s' c"
proof -
  have "mq_ok (m_queues s c)" using assms by (simp add: queues_ok_def)
  from mq.deq_total [OF this] obtain r q where d: "mq_dequeue False (m_queues s c) = Inr (r, q)"
    "mq_ok q" "case r of None \<Rightarrow> mq_queue (m_queues s c) = [] \<and> q = m_queues s c
       | Some x \<Rightarrow> mq_queue (m_queues s c) = x # mq_queue q"
    by blast
  show ?thesis
    by (rule that [of r "s\<lparr>m_queues := (m_queues s)(c := q)\<rparr>"])
      (use assms d in \<open>auto simp: client_dequeue_def queue_of_def queues_ok_def
        split: option.splits\<close>)
qed

lemma client_dequeue_expired: "client_dequeue True c s = (Inr None, s)"
  by (simp add: client_dequeue_def mq.deq_expired)

subsection \<open>The invariant\<close>

lemma advance_order_sel [simp]:
  "o_id (advance_order x p st) = o_id x"
  "o_items (advance_order x p st) = o_items (item_set_status x p st)"
  by (simp_all add: advance_order_def Let_def split: option.splits)

lemma set_item_set_status:
  "i \<in> set (o_items (item_set_status x p st)) \<Longrightarrow>
     i \<in> set (o_items x) \<or> (\<exists>j. p < length (o_items x) \<and> j = o_items x ! p \<and> i = j\<lparr>i_status := st\<rparr>)"
proof (cases "p < length (o_items x)")
  case True
  then show "i \<in> set (o_items (item_set_status x p st)) \<Longrightarrow> ?thesis"
    by (auto simp: item_set_status_def dest!: set_update_subset_insert [THEN subsetD])
next
  case False
  then show "i \<in> set (o_items (item_set_status x p st)) \<Longrightarrow> ?thesis"
    by (simp add: item_set_status_def list_update_beyond)
qed

lemma live_order_advance:
  assumes "live_order n k x" and "find_item x i = Some p"
  shows "live_order n k (advance_order x p st)"
proof -
  have "o_status (advance_order x p st) \<in> {OS_NEW, OS_IN_PROGRESS, OS_DONE}"
    using assms(1)
    by (auto simp: advance_order_def next_order_status_def live_order_def Let_def)
  moreover have "p < length (o_items x)"
    using assms(2) by (simp add: find_item_Some)
  ultimately show ?thesis
    using assms(1) by (auto simp: live_order_def dest!: set_item_set_status)
qed

lemma live_order_created: "1000 \<le> k \<Longrightarrow> k < n \<Longrightarrow> live_order n k (created_order k x)"
  by (auto simp: live_order_def created_order_def)

lemma server_inv_new: "server_inv s \<Longrightarrow> server_inv (snd (process_new_order x s))"
proof (cases "m_next_order_id s = int_max")
  case False
  assume inv: "server_inv s"
  obtain s' where s': "process_new_order x s = (Inr (m_next_order_id s), s')"
    "m_orders s' = om_assign (m_orders s) (m_next_order_id s) (created_order (m_next_order_id s) x)"
    "m_next_order_id s' = m_next_order_id s + 1"
    "appends s [message_order MT_DISP_ORDER (Some (created_order (m_next_order_id s) x))] s'"
    using process_new_order_effect [OF server_invD(2) [OF inv] False] by blast
  then show ?thesis
    using inv False live_order_mono [of "m_next_order_id s"]
    by (auto simp: server_inv_def om.ok_assign om.find_assign appends_def live_order_created)
qed (simp add: process_new_order_def)

lemma process_item_update_cases:
  assumes "server_inv s"
  obtains (fails) e where "process_item_update k i st s = (Inl (SemanticError e), s)"
  | (succeeds) x p s' where "om_find (m_orders s) k = Some x" "find_item x i = Some p"
      "valid_advance (i_status (o_items x ! p)) st" "process_item_update k i st s = (Inr (), s')"
      "m_orders s' = om_assign (m_orders s) k (advance_order x p st)"
      "m_next_order_id s' = m_next_order_id s" "appends s (item_update_messages k i x p st) s'"
proof (cases "om_find (m_orders s) k")
  case None
  then show ?thesis using fails process_item_update_fails(1) by blast
next
  case x: (Some x)
  show ?thesis
  proof (cases "find_item x i")
    case None
    then show ?thesis using x fails process_item_update_fails(2) by blast
  next
    case p: (Some p)
    show ?thesis
    proof (cases "valid_advance (i_status (o_items x ! p)) st")
      case False
      then show ?thesis using x p fails process_item_update_fails(3) by blast
    next
      case True
      then show ?thesis
        using process_item_update_effect [OF server_invD(1,2) [OF assms] x p True]
          succeeds [OF x p True] by blast
    qed
  qed
qed

lemma process_order_update_cases:
  assumes "server_inv s"
  obtains (fails) e where "process_order_update k st s = (Inl (SemanticError e), s)"
  | (succeeds) x s' where "om_find (m_orders s) k = Some x" "o_status x = OS_DONE"
      "st = OS_DELIVERED" "process_order_update k st s = (Inr (), s')"
      "m_orders s' = om_erase (m_orders s) k" "m_next_order_id s' = m_next_order_id s"
      "appends s [message_order_update MT_DISP_ORDER_UPDATE k OS_DELIVERED] s'"
proof (cases "om_find (m_orders s) k")
  case None
  then show ?thesis using fails process_order_update_fails(1) by blast
next
  case x: (Some x)
  show ?thesis
  proof (cases "o_status x = OS_DONE \<and> st = OS_DELIVERED")
    case False
    then show ?thesis using x fails process_order_update_fails(2) by blast
  next
    case True
    then show ?thesis
      using process_order_update_effect [OF server_invD(1,2) [OF assms] x] succeeds [OF x] by blast
  qed
qed

lemma server_inv_step: "server_inv s \<Longrightarrow> server_inv (server_step op s)"
proof (cases op)
  case (Op_new_order x)
  then show "server_inv s \<Longrightarrow> ?thesis" by (simp add: server_inv_new)
next
  case (Op_item_update k i st)
  assume inv: "server_inv s"
  then show ?thesis
  proof (cases rule: process_item_update_cases [where k = k and i = i and st = st])
    case (succeeds x p s')
    then show ?thesis
      using inv live_order_advance unfolding server_inv_def appends_def Op_item_update
      by (auto simp: om.ok_assign om.find_assign)
  qed (simp add: inv Op_item_update)
next
  case (Op_order_update k st)
  assume inv: "server_inv s"
  then show ?thesis
  proof (cases rule: process_order_update_cases [where k = k and st = st])
    case (succeeds x s')
    then show ?thesis
      using inv unfolding server_inv_def appends_def Op_order_update
      by (auto simp: om.ok_erase om.find_erase)
  qed (simp add: inv Op_order_update)
next
  case (Op_register c)
  then show "server_inv s \<Longrightarrow> ?thesis"
    by (simp add: server_inv_def register_display_effect)
next
  case (Op_unregister c)
  then show "server_inv s \<Longrightarrow> ?thesis"
    by (simp add: server_inv_def unregister_display_effect distinct_removeAll)
next
  case (Op_dequeue c)
  assume inv: "server_inv s"
  obtain r s' where "client_dequeue False c s = (Inr r, s')" "m_orders s' = m_orders s"
    "m_next_order_id s' = m_next_order_id s" "m_display_clients s' = m_display_clients s"
    "queues_ok s'"
    using client_dequeue_effect [OF server_invD(3) [OF inv]] by blast
  then show ?thesis using inv by (simp add: server_inv_def Op_dequeue)
qed

interpretation srv: step_invariant server_step "\<lambda>_. True" server_inv
  by unfold_locales (rule server_inv_step)

lemma server_run_inv: "server_inv s \<Longrightarrow> server_inv (server_run ops s)"
  unfolding server_run_def by (rule srv.inv_run) simp_all

subsection \<open>Functional behaviour\<close>

text \<open>
  C17: a new order gets the next id, which starts at 1000 and grows by one, and which no
  order in the map has; it is stored under that id with every item carrying the id and the
  order's status reset to \<open>NEW\<close>, whatever the message said; every registered display gets
  exactly one \<open>DISP_ORDER\<close> message with that order, and nothing else changes.
\<close>

theorem new_order_spec:
  assumes "server_inv s" and "m_next_order_id s \<noteq> int_max"
  shows "case process_new_order x s of (r, s') \<Rightarrow>
     r = Inr (m_next_order_id s) \<and> 1000 \<le> m_next_order_id s \<and>
     om_find (m_orders s) (m_next_order_id s) = None \<and>
     om_find (m_orders s') = (om_find (m_orders s))(m_next_order_id s \<mapsto>
       \<lparr>o_id = m_next_order_id s, o_status = OS_NEW,
        o_items = map (\<lambda>i. i\<lparr>i_order_id := m_next_order_id s\<rparr>) (o_items x)\<rparr>) \<and>
     m_next_order_id s' = m_next_order_id s + 1 \<and>
     (\<forall>c. queue_of s' c = queue_of s c @
        (if c \<in> set (m_display_clients s)
         then [message_order MT_DISP_ORDER (om_find (m_orders s') (m_next_order_id s))] else []))"
proof -
  obtain s' where s': "process_new_order x s = (Inr (m_next_order_id s), s')"
    "m_orders s' = om_assign (m_orders s) (m_next_order_id s) (created_order (m_next_order_id s) x)"
    "m_next_order_id s' = m_next_order_id s + 1"
    "appends s [message_order MT_DISP_ORDER (Some (created_order (m_next_order_id s) x))] s'"
    using process_new_order_effect [OF server_invD(2) [OF assms(1)] assms(2)] by blast
  moreover have "om_find (m_orders s) (m_next_order_id s) = None"
    using server_invD(4) [OF assms(1), of "m_next_order_id s"]
    by (cases "om_find (m_orders s) (m_next_order_id s)") (auto simp: live_order_def)
  ultimately show ?thesis
    using assms(1) by (simp add: server_inv_def om.find_assign created_order_def appends_def)
qed

lemma new_order_spec_witness:
  "fst (process_new_order (mk_order 1 OS_DONE) server_init) = Inr 1000"
  using new_order_spec [OF server_inv_init, of "mk_order 1 OS_DONE"]
  by (simp add: server_init_def int_max_def split: prod.splits)

text \<open>A state with one registered display and one order of two items.\<close>

definition two_item_order :: order where
  "two_item_order = \<lparr>o_id = 1, o_status = OS_NEW,
     o_items = [mk_item 1 1 IS_NEW ''Salad'' 2, mk_item 1 2 IS_NEW ''Pie'' 1]\<rparr>"

definition busy_server :: server where
  "busy_server = server_run [Op_register 7, Op_new_order two_item_order] server_init"

lemma busy_server_inv: "server_inv busy_server"
  unfolding busy_server_def by (rule server_run_inv [OF server_inv_init])

lemma busy_server_orders: "m_orders busy_server = [(1000, created_order 1000 two_item_order)]"
  by (simp add: busy_server_def server_run_def process_new_order_def server_init_def
      register_display_effect int_max_def created_order_def two_item_order_def mk_item_def Let_def)

lemma busy_server_next: "m_next_order_id busy_server = 1001"
  by (simp add: busy_server_def server_run_def process_new_order_def server_init_def
      register_display_effect int_max_def Let_def)

text \<open>
  C2: an item update. It is refused with the matching \<open>SemanticError\<close>, leaving the state as it
  was, when the order or the item does not exist or the change is not one step forward.
  Otherwise the first item with the id changes, the order moves to \<open>IN_PROGRESS\<close> with its
  first item started and to \<open>DONE\<close> with its last item done, and every registered display
  gets the item message followed, exactly when the order's status changed, by the order
  message.
\<close>

theorem item_update_spec:
  assumes "server_inv s"
  shows "case process_item_update k i st s of (r, s') \<Rightarrow>
     (case om_find (m_orders s) k of
        None \<Rightarrow> r = Inl (SemanticError ''order not found'') \<and> s' = s
      | Some x \<Rightarrow> (case find_item x i of
          None \<Rightarrow> r = Inl (SemanticError ''item not found'') \<and> s' = s
        | Some p \<Rightarrow>
            if \<not> valid_advance (i_status (o_items x ! p)) st
            then r = Inl (SemanticError ''invalid item status transition'') \<and> s' = s
            else r = Inr () \<and>
              om_find (m_orders s') = (om_find (m_orders s))(k \<mapsto> advance_order x p st) \<and>
              m_next_order_id s' = m_next_order_id s \<and>
              (\<forall>c. queue_of s' c = queue_of s c @
                 (if c \<in> set (m_display_clients s) then item_update_messages k i x p st else []))))"
proof (cases "\<exists>x p. om_find (m_orders s) k = Some x \<and> find_item x i = Some p \<and>
    valid_advance (i_status (o_items x ! p)) st")
  case True
  then obtain x p where x: "om_find (m_orders s) k = Some x" "find_item x i = Some p"
    "valid_advance (i_status (o_items x ! p)) st" by blast
  obtain s' where s': "process_item_update k i st s = (Inr (), s')"
    "m_orders s' = om_assign (m_orders s) k (advance_order x p st)"
    "m_next_order_id s' = m_next_order_id s" "appends s (item_update_messages k i x p st) s'"
    using process_item_update_effect [OF server_invD(1,2) [OF assms] x] by blast
  then show ?thesis
    using x server_invD(1) [OF assms] by (simp add: om.find_assign appends_def)
next
  case bad: False
  show ?thesis
  proof (cases "om_find (m_orders s) k")
    case (Some x)
    then show ?thesis
      using bad by (cases "find_item x i") (simp_all add: process_item_update_fails)
  qed (simp add: process_item_update_fails)
qed

lemma item_update_spec_witness:
  "fst (process_item_update 1000 2 IS_IN_PROGRESS busy_server) = Inr ()"
  using item_update_spec [OF busy_server_inv, where k = 1000 and i = 2 and st = IS_IN_PROGRESS]
  by (simp add: busy_server_orders created_order_def two_item_order_def find_item_def
      valid_advance_def split: prod.splits)

text \<open>
  C18: an order update succeeds exactly when it asks to deliver an order that is \<open>DONE\<close>; then
  the order leaves the collection and every registered display is told. Every other request
  is refused with a \<open>SemanticError\<close> and changes nothing.
\<close>

theorem order_update_spec:
  assumes "server_inv s"
  shows "case process_order_update k st s of (r, s') \<Rightarrow>
     if (\<exists>x. om_find (m_orders s) k = Some x \<and> o_status x = OS_DONE) \<and> st = OS_DELIVERED
     then r = Inr () \<and> om_find (m_orders s') = (om_find (m_orders s))(k := None) \<and>
       m_next_order_id s' = m_next_order_id s \<and>
       (\<forall>c. queue_of s' c = queue_of s c @
          (if c \<in> set (m_display_clients s)
           then [message_order_update MT_DISP_ORDER_UPDATE k OS_DELIVERED] else []))
     else (\<exists>e. r = Inl (SemanticError e)) \<and> s' = s"
using assms
proof (cases rule: process_order_update_cases [where k = k and st = st])
  case (fails e)
  have "\<not> ((\<exists>x. om_find (m_orders s) k = Some x \<and> o_status x = OS_DONE) \<and> st = OS_DELIVERED)"
  proof
    assume "(\<exists>x. om_find (m_orders s) k = Some x \<and> o_status x = OS_DONE) \<and> st = OS_DELIVERED"
    then obtain x where "om_find (m_orders s) k = Some x" "o_status x = OS_DONE" "st = OS_DELIVERED"
      by blast
    with fails process_order_update_effect [OF server_invD(1,2) [OF assms]] show False
      by (metis Inl_Inr_False fst_conv)
  qed
  with fails show ?thesis by simp
next
  case (succeeds x s')
  then show ?thesis
    using server_invD(1) [OF assms] by (simp add: om.find_erase appends_def)
qed

lemma order_update_spec_witness:
  "fst (process_order_update 1000 OS_DELIVERED busy_server) \<noteq> Inr ()"
  using order_update_spec [OF busy_server_inv, where k = 1000 and st = OS_DELIVERED]
  by (auto simp: busy_server_orders created_order_def split: prod.splits)

end
