(* ===== verification/Server_Life.thy ===== *)
theory Server_Life
  imports Server_Correct
begin

text \<open>
  The life of an order across sequences of server operations: statuses only move forward
  and ids are never reused; an order's status is determined by its items' statuses when its
  items started as \<open>NEW\<close>; such an order can always be brought to delivery; and the two ways
  an order can be created so that it never is.
\<close>

subsection \<open>Progress is forward only\<close>

text \<open>The same order later: identity and items fixed, statuses at least as far.\<close>

definition order_le :: "order \<Rightarrow> order \<Rightarrow> bool" where
  "order_le x y \<longleftrightarrow>
     o_id x = o_id y \<and> o_status x \<le> o_status y \<and>
     list_all2 (\<lambda>i j. i_status i \<le> i_status j \<and> j = i\<lparr>i_status := i_status j\<rparr>)
       (o_items x) (o_items y)"

definition server_le :: "server \<Rightarrow> server \<Rightarrow> bool" where
  "server_le s t \<longleftrightarrow>
     m_next_order_id s \<le> m_next_order_id t \<and>
     (\<forall>k y. k < m_next_order_id s \<longrightarrow> om_find (m_orders t) k = Some y \<longrightarrow>
        (\<exists>x. om_find (m_orders s) k = Some x \<and> order_le x y))"

lemma order_le_refl: "order_le x x"
  by (simp add: order_le_def list_all2_refl)

lemma item_le_trans:
  assumes "i_status i \<le> i_status j \<and> j = i\<lparr>i_status := i_status j\<rparr>"
    and "i_status j \<le> i_status k \<and> k = j\<lparr>i_status := i_status k\<rparr>"
  shows "i_status i \<le> i_status k \<and> k = i\<lparr>i_status := i_status k\<rparr>"
  using assms by (cases i; cases j; cases k) simp

lemma order_le_trans:
  assumes "order_le x y" and "order_le y z"
  shows "order_le x z"
  unfolding order_le_def
proof (intro conjI)
  show "o_id x = o_id z" "o_status x \<le> o_status z"
    using assms by (auto simp: order_le_def)
  show "list_all2 (\<lambda>i j. i_status i \<le> i_status j \<and> j = i\<lparr>i_status := i_status j\<rparr>)
      (o_items x) (o_items z)"
    unfolding list_all2_conv_all_nth
  proof (intro conjI allI impI)
    show "length (o_items x) = length (o_items z)"
      using assms by (simp add: order_le_def list_all2_conv_all_nth)
    fix n assume "n < length (o_items x)"
    then show "i_status (o_items x ! n) \<le> i_status (o_items z ! n)"
      "o_items z ! n = (o_items x ! n)\<lparr>i_status := i_status (o_items z ! n)\<rparr>"
      using item_le_trans [of "o_items x ! n" "o_items y ! n" "o_items z ! n"] assms
      by (simp_all add: order_le_def list_all2_conv_all_nth)
  qed
qed

lemma valid_advance_le: "valid_advance a b \<Longrightarrow> a \<le> b"
  by (auto simp: valid_advance_def status_order_defs)

lemma order_le_advance:
  assumes "find_item x i = Some p" and "valid_advance (i_status (o_items x ! p)) st"
  shows "order_le x (advance_order x p st)"
proof -
  have "o_status x \<le> o_status (advance_order x p st)"
    by (cases "o_status x")
      (auto simp: advance_order_def next_order_status_def Let_def status_order_defs)
  moreover have "list_all2 (\<lambda>i j. i_status i \<le> i_status j \<and> j = i\<lparr>i_status := i_status j\<rparr>)
      (o_items x) (o_items (item_set_status x p st))"
    using valid_advance_le [OF assms(2)]
    by (auto simp: list_all2_conv_all_nth nth_item_set_status)
  ultimately show ?thesis by (simp add: order_le_def)
qed

lemma server_le_refl: "server_le s s"
  by (simp add: server_le_def order_le_refl)

lemma server_le_trans: "server_le s t \<Longrightarrow> server_le t u \<Longrightarrow> server_le s u"
  unfolding server_le_def by (meson order_le_trans order_trans order_less_le_trans)

lemma server_le_same: "m_orders t = m_orders s \<Longrightarrow> m_next_order_id t = m_next_order_id s \<Longrightarrow> server_le s t"
  by (simp add: server_le_def order_le_refl)

lemma server_le_step:
  assumes inv: "server_inv s"
  shows "server_le s (server_step op s)"
proof (cases op)
  case (Op_new_order x)
  show ?thesis
  proof (cases "m_next_order_id s = int_max")
    case True
    then show ?thesis by (simp add: Op_new_order process_new_order_def server_le_refl)
  next
    case False
    obtain s' where "process_new_order x s = (Inr (m_next_order_id s), s')"
      "m_orders s' = om_assign (m_orders s) (m_next_order_id s) (created_order (m_next_order_id s) x)"
      "m_next_order_id s' = m_next_order_id s + 1"
      using process_new_order_effect [OF server_invD(2) [OF inv] False] by blast
    then show ?thesis
      using server_invD(1) [OF inv]
      by (simp add: Op_new_order server_le_def om.find_assign order_le_refl)
  qed
next
  case (Op_item_update k i st)
  from inv show ?thesis
  proof (cases rule: process_item_update_cases [where k = k and i = i and st = st])
    case (succeeds x p s')
    then show ?thesis
      using server_invD(1) [OF inv] order_le_advance [OF succeeds(2,3)]
      by (simp add: Op_item_update server_le_def om.find_assign order_le_refl)
  qed (simp add: Op_item_update server_le_refl)
next
  case (Op_order_update k st)
  from inv show ?thesis
  proof (cases rule: process_order_update_cases [where k = k and st = st])
    case (succeeds x s')
    then show ?thesis
      using server_invD(1) [OF inv]
      by (simp add: Op_order_update server_le_def om.find_erase order_le_refl)
  qed (simp add: Op_order_update server_le_refl)
next
  case (Op_dequeue c)
  obtain r s' where "client_dequeue False c s = (Inr r, s')" "m_orders s' = m_orders s"
    "m_next_order_id s' = m_next_order_id s"
    using client_dequeue_effect [OF server_invD(3) [OF inv]] by blast
  then show ?thesis by (simp add: Op_dequeue server_le_same)
qed (simp_all add: server_le_same register_display_effect unregister_display_effect)

interpretation progress: step_related server_step "\<lambda>_. True" server_inv server_le
  by unfold_locales (auto intro: server_le_refl server_le_step server_le_trans)

lemma server_run_le: "server_inv s \<Longrightarrow> server_le s (server_run ops s)"
  unfolding server_run_def by (rule progress.rel_run) simp_all

text \<open>
  C22: whatever operations follow, in whatever order: an order that is still in the
  collection is the same order, with the same items, and neither its status nor any item's
  status has moved backwards; and an id that was given out before and is not in the
  collection never comes back.
\<close>

theorem statuses_move_forward:
  assumes "server_inv s" and "k < m_next_order_id s"
  shows "case om_find (m_orders (server_run ops s)) k of
      None \<Rightarrow> True
    | Some y \<Rightarrow> (case om_find (m_orders s) k of None \<Rightarrow> False | Some x \<Rightarrow> order_le x y)"
  using server_run_le [OF assms(1), of ops] assms(2)
  by (fastforce simp: server_le_def split: option.splits)

lemma statuses_move_forward_witness:
  "case om_find (m_orders (server_run [Op_item_update 1000 1 IS_IN_PROGRESS] busy_server)) 1000 of
     None \<Rightarrow> True
   | Some y \<Rightarrow> order_le (created_order 1000 two_item_order) y"
  using statuses_move_forward [OF busy_server_inv, of 1000 "[Op_item_update 1000 1 IS_IN_PROGRESS]"]
  by (simp add: busy_server_orders busy_server_next split: option.splits)

text \<open>
  Two orders created one after the other, with any operations in between, get
  different ids, the later one the larger.
\<close>

theorem order_ids_increase:
  assumes "server_inv s" and "process_new_order x s = (Inr k, s')"
    and "process_new_order y (server_run ops s') = (Inr k', s'')"
  shows "k < k'"
proof -
  have ne: "m_next_order_id s \<noteq> int_max" "m_next_order_id (server_run ops s') \<noteq> int_max"
    using assms(2,3) by (auto simp: process_new_order_def split: if_splits)
  have inv: "server_inv s'"
    using server_inv_new [OF assms(1), of x] assms(2) by simp
  have "k + 1 = m_next_order_id s'"
    by (rule process_new_order_effect [OF server_invD(2) [OF assms(1)] ne(1), of x])
      (use assms(2) in simp)
  also have "\<dots> \<le> m_next_order_id (server_run ops s')"
    using server_run_le [OF inv] by (simp add: server_le_def)
  also have "\<dots> = k'"
    using assms(3) ne(2) by (auto simp: process_new_order_def Let_def)
  finally show ?thesis by simp
qed

lemma order_ids_increase_witness:
  "let s' = snd (process_new_order two_item_order server_init);
       k' = fst (process_new_order two_item_order (server_run [Op_order_update 1000 OS_DELIVERED] s'))
   in k' = Inr 1001 \<and> (1000::int) < 1001"
proof -
  let ?s = "snd (process_new_order two_item_order server_init)"
  let ?t = "server_run [Op_order_update 1000 OS_DELIVERED] ?s"
  have 1: "process_new_order two_item_order server_init = (Inr 1000, ?s)"
    by (simp add: process_new_order_def server_init_def int_max_def Let_def)
  have "m_next_order_id ?t = 1001"
    by (simp add: process_new_order_def server_init_def int_max_def server_run_def Let_def
        process_order_update_def)
  then have 2: "process_new_order two_item_order ?t = (Inr 1001, snd (process_new_order two_item_order ?t))"
    by (simp add: process_new_order_def int_max_def Let_def)
  show ?thesis
    using order_ids_increase [OF server_inv_init 1 2] 2 by (simp add: Let_def) (metis fst_conv)
qed

subsection \<open>The order's status as a summary of its items\<close>

definition status_summary :: "item list \<Rightarrow> order_status" where
  "status_summary its =
     (if \<forall>i\<in>set its. i_status i = IS_DONE then OS_DONE
      else if \<forall>i\<in>set its. i_status i = IS_NEW then OS_NEW
      else OS_IN_PROGRESS)"

definition consistent_order :: "order \<Rightarrow> bool" where
  "consistent_order x \<longleftrightarrow> o_items x \<noteq> [] \<and> o_status x = status_summary (o_items x)"

text \<open>A new order as the updater client builds it: some items, none started.\<close>

fun fresh_op :: "server_op \<Rightarrow> bool" where
  "fresh_op (Op_new_order x) \<longleftrightarrow> o_items x \<noteq> [] \<and> (\<forall>i\<in>set (o_items x). i_status i = IS_NEW)"
| "fresh_op _ \<longleftrightarrow> True"

definition consistent_server :: "server \<Rightarrow> bool" where
  "consistent_server s \<longleftrightarrow>
     server_inv s \<and> (\<forall>k x. om_find (m_orders s) k = Some x \<longrightarrow> consistent_order x)"

lemma consistent_created:
  assumes "o_items x \<noteq> []" and "\<forall>i\<in>set (o_items x). i_status i = IS_NEW"
  shows "consistent_order (created_order k x)"
  using assms by (cases "o_items x") (auto simp: consistent_order_def created_order_def status_summary_def)

lemma all_status_nth:
  "p < length (o_items x) \<Longrightarrow>
     (\<forall>i\<in>set (o_items x). i_status i = v) \<longleftrightarrow>
     i_status (o_items x ! p) = v \<and> (\<forall>j<length (o_items x). j \<noteq> p \<longrightarrow> i_status (o_items x ! j) = v)"
  by (auto simp: all_set_conv_all_nth)

lemma all_status_set:
  "p < length (o_items x) \<Longrightarrow>
     (\<forall>i\<in>set (o_items (item_set_status x p st)). i_status i = v) \<longleftrightarrow>
     st = v \<and> (\<forall>j<length (o_items x). j \<noteq> p \<longrightarrow> i_status (o_items x ! j) = v)"
  by (auto simp: all_set_conv_all_nth nth_item_set_status)

lemma consistent_advance:
  assumes "consistent_order x" and "find_item x i = Some p"
    and "valid_advance (i_status (o_items x ! p)) st"
  shows "consistent_order (advance_order x p st)"
proof -
  have p: "p < length (o_items x)" using assms(2) by (simp add: find_item_Some)
  then have ne: "o_items (item_set_status x p st) \<noteq> []"
    by (metis item_set_status_sel(3) length_0_conv not_less_zero)
  have "o_status x = status_summary (o_items x)" using assms(1) by (simp add: consistent_order_def)
  then have "o_status (advance_order x p st) = status_summary (o_items (item_set_status x p st))"
    using assms(3)
    unfolding advance_order_def next_order_status_def Let_def valid_advance_def
      status_summary_def all_status_nth [OF p] all_status_set [OF p]
    by (elim disjE conjE) (simp_all, blast)
  with ne show ?thesis by (simp add: consistent_order_def)
qed

lemma consistent_step:
  assumes "consistent_server s" and "fresh_op op"
  shows "consistent_server (server_step op s)"
proof -
  have inv: "server_inv s" and old: "\<And>k x. om_find (m_orders s) k = Some x \<Longrightarrow> consistent_order x"
    using assms(1) by (auto simp: consistent_server_def)
  note ok = server_invD(1) [OF inv]
  have "consistent_order x" if y: "om_find (m_orders (server_step op s)) k = Some x" for k x
  proof (cases op)
    case (Op_new_order o')
    show ?thesis
    proof (cases "m_next_order_id s = int_max")
      case True
      then show ?thesis using y old by (simp add: Op_new_order process_new_order_def)
    next
      case False
      obtain s' where "process_new_order o' s = (Inr (m_next_order_id s), s')"
        "m_orders s' = om_assign (m_orders s) (m_next_order_id s)
           (created_order (m_next_order_id s) o')"
        using process_new_order_effect [OF server_invD(2) [OF inv] False] by blast
      then show ?thesis
        using y old assms(2) consistent_created
        by (auto simp: Op_new_order om.find_assign [OF ok] split: if_splits)
    qed
  next
    case (Op_item_update k' i st)
    from inv show ?thesis
    proof (cases rule: process_item_update_cases [where k = k' and i = i and st = st])
      case (succeeds x' p s')
      then show ?thesis
        using y old consistent_advance [OF old [OF succeeds(1)] succeeds(2,3)]
        by (auto simp: Op_item_update om.find_assign [OF ok] split: if_splits)
    qed (use y old in \<open>simp add: Op_item_update\<close>)
  next
    case (Op_order_update k' st)
    from inv show ?thesis
    proof (cases rule: process_order_update_cases [where k = k' and st = st])
      case (succeeds x' s')
      then show ?thesis
        using y old by (auto simp: Op_order_update om.find_erase [OF ok] split: if_splits)
    qed (use y old in \<open>simp add: Op_order_update\<close>)
  next
    case (Op_dequeue c)
    obtain r s' where "client_dequeue False c s = (Inr r, s')" "m_orders s' = m_orders s"
      using client_dequeue_effect [OF server_invD(3) [OF inv]] by blast
    then show ?thesis using y old by (simp add: Op_dequeue)
  qed (use y old in \<open>simp_all add: register_display_effect unregister_display_effect\<close>)
  with server_inv_step [OF inv] show ?thesis by (simp add: consistent_server_def)
qed

interpretation consistent: step_invariant server_step fresh_op consistent_server
  by unfold_locales (rule consistent_step)

lemma consistent_run:
  "consistent_server s \<Longrightarrow> \<forall>op\<in>set ops. fresh_op op \<Longrightarrow> consistent_server (server_run ops s)"
  unfolding server_run_def by (rule consistent.inv_run)

lemma consistent_server_init: "consistent_server server_init"
  using server_inv_init by (simp add: consistent_server_def server_init_def)

text \<open>
  C20: when every order that was created had some items and no item started, the status of
  every order in the collection is at all times the summary of its items': \<open>NEW\<close> while
  no item is started, \<open>DONE\<close> when all are done, \<open>IN_PROGRESS\<close> in between.
\<close>

theorem order_status_is_summary:
  assumes "\<forall>op\<in>set ops. fresh_op op"
    and "om_find (m_orders (server_run ops server_init)) k = Some x"
  shows "o_status x = status_summary (o_items x)"
  using consistent_run [OF consistent_server_init assms(1)] assms(2)
  by (auto simp: consistent_server_def consistent_order_def)

lemma order_status_is_summary_witness:
  "o_status (created_order 1000 two_item_order) = status_summary (o_items (created_order 1000 two_item_order))"
proof (rule order_status_is_summary)
  show "\<forall>op\<in>set [Op_register 7, Op_new_order two_item_order]. fresh_op op"
    by (simp add: two_item_order_def)
  show "om_find (m_orders (server_run [Op_register 7, Op_new_order two_item_order] server_init)) 1000 =
      Some (created_order 1000 two_item_order)"
    using busy_server_orders by (simp add: busy_server_def)
qed

subsection \<open>Orders that can be finished\<close>

lemma item_update_find:
  assumes "server_inv s" and "om_find (m_orders s) k = Some x" and "find_item x i = Some p"
    and "valid_advance (i_status (o_items x ! p)) st"
  shows "om_find (m_orders (server_step (Op_item_update k i st) s)) =
    (om_find (m_orders s))(k \<mapsto> advance_order x p st)"
proof -
  obtain s' where "process_item_update k i st s = (Inr (), s')"
    "m_orders s' = om_assign (m_orders s) k (advance_order x p st)"
    using process_item_update_effect [OF server_invD(1,2) [OF assms(1)] assms(2-4)] by blast
  then show ?thesis using server_invD(1) [OF assms(1)] by (simp add: om.find_assign)
qed

text \<open>The requests that take one item, then every item of an order, to delivery.\<close>

fun finish_item :: "int \<Rightarrow> item \<Rightarrow> server_op list" where
  "finish_item k i =
     (case i_status i of
        IS_NEW \<Rightarrow> [Op_item_update k (i_id i) IS_IN_PROGRESS, Op_item_update k (i_id i) IS_DONE]
      | IS_IN_PROGRESS \<Rightarrow> [Op_item_update k (i_id i) IS_DONE]
      | _ \<Rightarrow> [])"

definition delivery_script :: "int \<Rightarrow> order \<Rightarrow> server_op list" where
  "delivery_script k x =
     concat (map (finish_item k) (o_items x)) @ [Op_order_update k OS_DELIVERED]"

lemma server_run_append: "server_run (xs @ ys) s = server_run ys (server_run xs s)"
  by (simp add: server_run_def)

lemma server_run_Cons: "server_run (x # xs) s = server_run xs (server_step x s)"
  by (simp add: server_run_def)

lemma server_run_Nil [simp]: "server_run [] s = s"
  by (simp add: server_run_def)

lemma find_item_distinct:
  "distinct (map i_id (o_items x)) \<Longrightarrow> p < length (o_items x) \<Longrightarrow>
     find_item x (i_id (o_items x ! p)) = Some p"
  by (auto simp: find_item_Some distinct_conv_nth)

text \<open>An order in the middle of the script: the items before \<open>n\<close> are done, the rest untouched.\<close>

definition halfway :: "int \<Rightarrow> order \<Rightarrow> nat \<Rightarrow> server \<Rightarrow> server \<Rightarrow> bool" where
  "halfway k x n s t \<longleftrightarrow> server_inv t \<and>
     (\<exists>y. om_find (m_orders t) = (om_find (m_orders s))(k \<mapsto> y) \<and> consistent_order y \<and>
        map i_id (o_items y) = map i_id (o_items x) \<and>
        (\<forall>j<length (o_items x). if j < n then i_status (o_items y ! j) = IS_DONE
                                else o_items y ! j = o_items x ! j))"

lemma halfway_step:
  assumes "halfway k x n s t" and "distinct (map i_id (o_items x))" and "n < length (o_items x)"
    and "i_status (o_items x ! n) \<noteq> IS_INVALID"
  shows "halfway k x (Suc n) s (server_run (finish_item k (o_items x ! n)) t)"
proof -
  let ?i = "i_id (o_items x ! n)"
  obtain y where inv: "server_inv t"
    and y: "om_find (m_orders t) = (om_find (m_orders s))(k \<mapsto> y)" "consistent_order y"
      "map i_id (o_items y) = map i_id (o_items x)"
    and st: "\<forall>j<length (o_items x). if j < n then i_status (o_items y ! j) = IS_DONE
                                else o_items y ! j = o_items x ! j"
    using assms(1) unfolding halfway_def by blast
  have len: "length (o_items y) = length (o_items x)" using y(3) by (metis length_map)
  have n: "o_items y ! n = o_items x ! n" using st assms(3) by auto
  have find: "find_item z ?i = Some n" if "map i_id (o_items z) = map i_id (o_items x)" for z
    using find_item_distinct [of z n] that assms(2,3)
    by (metis length_map nth_map)
  have adv: "server_inv (server_step (Op_item_update k ?i v) u) \<and>
      om_find (m_orders (server_step (Op_item_update k ?i v) u)) =
        (om_find (m_orders s))(k \<mapsto> advance_order z n v) \<and>
      consistent_order (advance_order z n v) \<and>
      map i_id (o_items (advance_order z n v)) = map i_id (o_items x)"
    if "server_inv u" "om_find (m_orders u) = (om_find (m_orders s))(k \<mapsto> z)"
      "consistent_order z" "map i_id (o_items z) = map i_id (o_items x)"
      "valid_advance (i_status (o_items z ! n)) v" for u z v
    using server_inv_step [OF that(1)] consistent_advance [OF that(3) find [OF that(4)] that(5)]
      item_update_find [OF that(1) _ find [OF that(4)] that(5)] that
    by (simp del: server_step.simps)
  consider "i_status (o_items x ! n) = IS_DONE" | "i_status (o_items x ! n) = IS_IN_PROGRESS"
    | "i_status (o_items x ! n) = IS_NEW"
    using assms(4) by (cases "i_status (o_items x ! n)") simp_all
  then show ?thesis
  proof cases
    case 1
    then show ?thesis
      using inv y st n by (auto simp: halfway_def less_Suc_eq intro!: exI [of _ y])
  next
    case 2
    then show ?thesis
      using adv [OF inv y, of IS_DONE] n st len
      by (auto simp: halfway_def server_run_Cons valid_advance_def less_Suc_eq nth_item_set_status
          intro!: exI [of _ "advance_order y n IS_DONE"])
  next
    case 3
    let ?y = "advance_order y n IS_IN_PROGRESS"
    have 4: "server_inv (server_step (Op_item_update k ?i IS_IN_PROGRESS) t)"
      "om_find (m_orders (server_step (Op_item_update k ?i IS_IN_PROGRESS) t)) =
        (om_find (m_orders s))(k \<mapsto> ?y)"
      "consistent_order ?y" "map i_id (o_items ?y) = map i_id (o_items x)"
      using adv [OF inv y, of IS_IN_PROGRESS] n 3 by (simp_all add: valid_advance_def)
    then show ?thesis
      using adv [OF 4, of IS_DONE] n st len assms(3) 3
      by (auto simp: halfway_def server_run_Cons valid_advance_def less_Suc_eq nth_item_set_status
          intro!: exI [of _ "advance_order ?y n IS_DONE"])
  qed
qed

lemma halfway_script:
  assumes "consistent_server s" and "om_find (m_orders s) k = Some x"
    and "distinct (map i_id (o_items x))" and "\<forall>i\<in>set (o_items x). i_status i \<noteq> IS_INVALID"
    and "n \<le> length (o_items x)"
  shows "halfway k x n s (server_run (concat (map (finish_item k) (take n (o_items x)))) s)"
  using assms(5)
proof (induction n)
  case 0
  have "consistent_order x" "server_inv s"
    using assms(1,2) by (auto simp: consistent_server_def)
  then show ?case
    using assms(2) by (auto simp: halfway_def intro!: exI [of _ x])
next
  case (Suc n)
  then show ?case
    using halfway_step [OF _ assms(3)] assms(4)
    by (simp add: take_Suc_conv_app_nth server_run_append)
qed

text \<open>
  C21: an order whose items have distinct ids can be delivered from every state in which the
  collection can contain it: the requests of \<open>delivery_script\<close> finish its items one after
  the other and deliver it, after which it is gone from the collection, all other orders
  being as they were.
\<close>

theorem order_can_be_delivered:
  assumes "consistent_server s" and "om_find (m_orders s) k = Some x"
    and "distinct (map i_id (o_items x))" and "\<forall>i\<in>set (o_items x). i_status i \<noteq> IS_INVALID"
  shows "om_find (m_orders (server_run (delivery_script k x) s)) = (om_find (m_orders s))(k := None)"
proof -
  define t where "t = server_run (concat (map (finish_item k) (o_items x))) s"
  have "halfway k x (length (o_items x)) s t"
    using halfway_script [OF assms order_refl] by (simp add: t_def)
  then obtain y where inv: "server_inv t"
    and y: "om_find (m_orders t) = (om_find (m_orders s))(k \<mapsto> y)" "consistent_order y"
      "map i_id (o_items y) = map i_id (o_items x)"
    and st: "\<forall>j<length (o_items x). i_status (o_items y ! j) = IS_DONE"
    by (auto simp: halfway_def)
  have "length (o_items y) = length (o_items x)" using y(3) by (metis length_map)
  then have "\<forall>i\<in>set (o_items y). i_status i = IS_DONE"
    using st by (simp add: all_set_conv_all_nth)
  then have "o_status y = OS_DONE"
    using y(2) by (simp add: consistent_order_def status_summary_def)
  then obtain s' where "process_order_update k OS_DELIVERED t = (Inr (), s')"
    "m_orders s' = om_erase (m_orders t) k"
    using process_order_update_effect [OF server_invD(1,2) [OF inv], of k y] y(1) by auto
  then have "om_find (m_orders (server_run [Op_order_update k OS_DELIVERED] t)) =
      (om_find (m_orders s))(k := None)"
    using server_invD(1) [OF inv] y(1) by (simp add: server_run_Cons om.find_erase)
  then show ?thesis
    by (simp add: delivery_script_def server_run_append t_def)
qed

lemma consistent_busy_server: "consistent_server busy_server"
  unfolding busy_server_def
  by (rule consistent_run [OF consistent_server_init]) (simp add: two_item_order_def)

lemma order_can_be_delivered_witness:
  "om_find (m_orders (server_run
      [Op_item_update 1000 1 IS_IN_PROGRESS, Op_item_update 1000 1 IS_DONE,
       Op_item_update 1000 2 IS_IN_PROGRESS, Op_item_update 1000 2 IS_DONE,
       Op_order_update 1000 OS_DELIVERED] busy_server)) 1000 = None"
  using order_can_be_delivered [OF consistent_busy_server, of 1000 "created_order 1000 two_item_order"]
  by (simp add: busy_server_orders created_order_def two_item_order_def delivery_script_def)

subsection \<open>Orders that can never be finished\<close>

text \<open>
  Two kinds of orders: \<open>NEW\<close> without an item that could be started; or with an unfinished
  item hidden behind an earlier item of the same id.
\<close>

definition unfinishable :: "order \<Rightarrow> bool" where
  "unfinishable x \<longleftrightarrow>
     o_status x = OS_NEW \<and> (\<forall>i\<in>set (o_items x). i_status i \<noteq> IS_NEW) \<or>
     o_status x \<noteq> OS_DONE \<and>
     (\<exists>j<length (o_items x). i_status (o_items x ! j) \<noteq> IS_DONE \<and>
        (\<exists>i<j. i_id (o_items x ! i) = i_id (o_items x ! j)))"

lemma unfinishable_not_done: "unfinishable x \<Longrightarrow> o_status x \<noteq> OS_DONE"
  by (auto simp: unfinishable_def)

lemma unfinishable_advance:
  assumes "unfinishable x" and "find_item x i = Some p"
    and "valid_advance (i_status (o_items x ! p)) st"
  shows "unfinishable (advance_order x p st)"
  using assms(1) [unfolded unfinishable_def]
proof (elim disjE conjE exE)
  assume new: "o_status x = OS_NEW" "\<forall>i\<in>set (o_items x). i_status i \<noteq> IS_NEW"
  have p: "p < length (o_items x)" using assms(2) by (simp add: find_item_Some)
  then have "i_status (o_items x ! p) \<noteq> IS_NEW" using new(2) by simp
  then have st: "st = IS_DONE" using assms(3) by (simp add: valid_advance_def)
  then have "o_status (advance_order x p st) = OS_NEW"
    using new(1) by (simp add: advance_order_def next_order_status_def Let_def)
  moreover have "\<forall>i\<in>set (o_items (item_set_status x p st)). i_status i \<noteq> IS_NEW"
    using new(2) st by (auto simp: all_set_conv_all_nth nth_item_set_status)
  ultimately have "o_status (advance_order x p st) = OS_NEW \<and>
      (\<forall>i\<in>set (o_items (advance_order x p st)). i_status i \<noteq> IS_NEW)" by simp
  then show "unfinishable (advance_order x p st)" unfolding unfinishable_def by blast
next
  fix j j'
  assume x: "o_status x \<noteq> OS_DONE" and j: "j < length (o_items x)" "j' < j"
    "i_id (o_items x ! j') = i_id (o_items x ! j)" "i_status (o_items x ! j) \<noteq> IS_DONE"
  then have "p \<noteq> j" using assms(2) by (auto simp: find_item_Some)
  then have left: "i_status (o_items (item_set_status x p st) ! j) \<noteq> IS_DONE"
    using j by (simp add: nth_item_set_status)
  then have "\<not> (\<forall>i\<in>set (o_items (item_set_status x p st)). i_status i = IS_DONE)"
    using j(1) by (metis item_set_status_sel(3) nth_mem)
  then have "o_status (advance_order x p st) \<noteq> OS_DONE"
    using x by (auto simp: advance_order_def next_order_status_def Let_def)
  moreover have "i_id (o_items (item_set_status x p st) ! j') = i_id (o_items (item_set_status x p st) ! j)"
    using j by (auto simp: nth_item_set_status)
  ultimately have "o_status (advance_order x p st) \<noteq> OS_DONE \<and>
     (\<exists>j<length (o_items (advance_order x p st)).
        i_status (o_items (advance_order x p st) ! j) \<noteq> IS_DONE \<and>
        (\<exists>i<j. i_id (o_items (advance_order x p st) ! i) = i_id (o_items (advance_order x p st) ! j)))"
    using left j by auto
  then show "unfinishable (advance_order x p st)" unfolding unfinishable_def by blast
qed

definition stuck_at :: "int \<Rightarrow> server \<Rightarrow> bool" where
  "stuck_at k s \<longleftrightarrow> server_inv s \<and>
     (case om_find (m_orders s) k of None \<Rightarrow> False | Some x \<Rightarrow> unfinishable x)"

lemma stuck_at_step:
  assumes "stuck_at k s"
  shows "stuck_at k (server_step op s)"
proof -
  obtain x where inv: "server_inv s" and x: "om_find (m_orders s) k = Some x" "unfinishable x"
    using assms by (auto simp: stuck_at_def split: option.splits)
  note ok = server_invD(1) [OF inv]
  have k: "k < m_next_order_id s" using server_invD(4) [OF inv x(1)] by (simp add: live_order_def)
  have "case om_find (m_orders (server_step op s)) k of None \<Rightarrow> False | Some x \<Rightarrow> unfinishable x"
  proof (cases op)
    case (Op_new_order o')
    show ?thesis
    proof (cases "m_next_order_id s = int_max")
      case True
      then show ?thesis using x by (simp add: Op_new_order process_new_order_def)
    next
      case False
      obtain s' where "process_new_order o' s = (Inr (m_next_order_id s), s')"
        "m_orders s' = om_assign (m_orders s) (m_next_order_id s)
           (created_order (m_next_order_id s) o')"
        using process_new_order_effect [OF server_invD(2) [OF inv] False] by blast
      then show ?thesis using x k by (simp add: Op_new_order om.find_assign [OF ok])
    qed
  next
    case (Op_item_update k' i st)
    from inv show ?thesis
    proof (cases rule: process_item_update_cases [where k = k' and i = i and st = st])
      case (succeeds x' p s')
      then show ?thesis
        using x unfinishable_advance [OF _ succeeds(2,3)]
        by (auto simp: Op_item_update om.find_assign [OF ok])
    qed (use x in \<open>simp add: Op_item_update\<close>)
  next
    case (Op_order_update k' st)
    from inv show ?thesis
    proof (cases rule: process_order_update_cases [where k = k' and st = st])
      case (succeeds x' s')
      then show ?thesis
        using x unfinishable_not_done [OF x(2)]
        by (auto simp: Op_order_update om.find_erase [OF ok])
    qed (use x in \<open>simp add: Op_order_update\<close>)
  next
    case (Op_dequeue c)
    obtain r s' where "client_dequeue False c s = (Inr r, s')" "m_orders s' = m_orders s"
      using client_dequeue_effect [OF server_invD(3) [OF inv]] by blast
    then show ?thesis using x by (simp add: Op_dequeue)
  qed (use x in \<open>simp_all add: register_display_effect unregister_display_effect\<close>)
  with server_inv_step [OF inv] show ?thesis by (simp add: stuck_at_def)
qed

interpretation stuck: step_invariant server_step "\<lambda>_. True" "stuck_at k" for k
  by unfold_locales (rule stuck_at_step)

text \<open>
  C25: the server accepts orders it can never bring to delivery: a new order none of whose
  items is \<open>NEW\<close> (its status is reset to \<open>NEW\<close>, the items' are not), or with an item hidden
  behind an earlier one with the same id. Whatever requests follow, the order stays in the
  collection and is never \<open>DONE\<close>, so delivering it is always refused.
\<close>

theorem unfinishable_orders_accepted:
  assumes "server_inv s" and "process_new_order x s = (Inr k, s')"
    and "(\<forall>i\<in>set (o_items x). i_status i \<noteq> IS_NEW) \<or>
         (\<exists>j<length (o_items x). i_status (o_items x ! j) \<noteq> IS_DONE \<and>
            (\<exists>i<j. i_id (o_items x ! i) = i_id (o_items x ! j)))"
  shows "\<exists>y. om_find (m_orders (server_run ops s')) k = Some y \<and> o_status y \<noteq> OS_DONE"
proof -
  have ne: "m_next_order_id s \<noteq> int_max" and k: "k = m_next_order_id s"
    using assms(2) by (auto simp: process_new_order_def Let_def split: if_splits)
  have find: "om_find (m_orders s') k = Some (created_order k x)"
    by (rule process_new_order_effect [OF server_invD(2) [OF assms(1)] ne, of x])
      (use assms(2) k server_invD(1) [OF assms(1)] in \<open>simp add: om.find_assign\<close>)
  have "unfinishable (created_order k x)"
    using assms(3)
  proof (elim disjE exE conjE)
    fix j i assume "j < length (o_items x)" "i_status (o_items x ! j) \<noteq> IS_DONE" "i < j"
      "i_id (o_items x ! i) = i_id (o_items x ! j)"
    then show ?thesis
      unfolding unfinishable_def created_order_def
      by (intro disjI2 conjI exI [of _ j] exI [of _ i]) simp_all
  qed (simp add: unfinishable_def created_order_def)
  then have "stuck_at k s'"
    using find server_inv_new [OF assms(1), of x] assms(2) by (simp add: stuck_at_def)
  then have "stuck_at k (server_run ops s')"
    unfolding server_run_def by (rule stuck.inv_run) simp
  then show ?thesis
    using unfinishable_not_done by (auto simp: stuck_at_def split: option.splits)
qed

text \<open>An order that is accepted although its only item is already done.\<close>

lemma unfinishable_orders_accepted_witness:
  "\<exists>s' y. process_new_order (add_item (mk_order 1 OS_NEW) (mk_item 1 1 IS_DONE ''Pie'' 1)) server_init =
       (Inr 1000, s') \<and>
     om_find (m_orders (server_run [Op_order_update 1000 OS_DELIVERED] s')) 1000 = Some y"
proof -
  define x where "x = add_item (mk_order 1 OS_NEW) (mk_item 1 1 IS_DONE ''Pie'' 1)"
  obtain s' where s': "process_new_order x server_init = (Inr 1000, s')"
    using process_new_order_effect [of server_init x]
    by (auto simp: server_init_def int_max_def)
  have "\<forall>i\<in>set (o_items x). i_status i \<noteq> IS_NEW"
    by (simp add: x_def add_item_def)
  with s' unfinishable_orders_accepted [OF server_inv_init s', of "[Op_order_update 1000 OS_DELIVERED]"]
  show ?thesis unfolding x_def by blast
qed

end
