(* ===== verification/Rio.thy ===== *)
theory Rio
  imports Except
begin

text \<open>
  The two unbuffered robust I/O loops of \<open>src/csapp.cpp\<close>, which the program uses, over a model of a file
  descriptor. The descriptor holds the bytes the peer sends before it closes, the bytes
  written so far, and the outcomes of the coming \<open>read\<close> and \<open>write\<close> calls: a call transfers
  some number of bytes (a short count is possible), or fails and sets \<open>errno\<close>. When the
  listed outcomes are used up, calls transfer everything they can. Every finite run of a
  loop is a run for some list of outcomes, so a theorem about all lists covers every
  behaviour of the kernel.
\<close>

text \<open>The conversion of a wider integer to a 32-bit \<open>int\<close>.\<close>

definition c_int :: "int \<Rightarrow> int" where
  "c_int k = signed_take_bit 31 k"

lemma c_int_id: "- (2 ^ 31) \<le> k \<Longrightarrow> k < 2 ^ 31 \<Longrightarrow> c_int k = k"
  unfolding c_int_def by (rule signed_take_bit_int_eq_self)

datatype errno = E_NONE | E_INTR | E_IO | E_PIPE

datatype rd_event = Rd_Some nat | Rd_Fail errno

datatype wr_event = Wr_Some nat | Wr_Fail errno

record fd =
  fd_in :: string
  fd_rd :: "rd_event list"
  fd_out :: string
  fd_wr :: "wr_event list"
  fd_errno :: errno

subsection \<open>System calls\<close>

text \<open>
  \<open>read(fd, buf, n)\<close>: the count and the bytes. A read of a positive size transfers at
  least one byte unless the input is at its end.
\<close>

fun sys_read :: "fd \<Rightarrow> nat \<Rightarrow> int \<times> string \<times> fd" where
  "sys_read d n =
     (case fd_rd d of
        [] \<Rightarrow> (let bs = take n (fd_in d) in
              (int (length bs), bs, d\<lparr>fd_in := drop n (fd_in d)\<rparr>))
      | Rd_Some k # es \<Rightarrow>
          (let m = min (max 1 k) n; bs = take m (fd_in d) in
           (int (length bs), bs, d\<lparr>fd_in := drop m (fd_in d), fd_rd := es\<rparr>))
      | Rd_Fail e # es \<Rightarrow> (-1, [], d\<lparr>fd_rd := es, fd_errno := e\<rparr>))"

text \<open>\<open>write(fd, buf, n)\<close>: a return of 0 leaves \<open>errno\<close> as it is.\<close>

fun sys_write :: "fd \<Rightarrow> string \<Rightarrow> int \<times> fd" where
  "sys_write d bs =
     (case fd_wr d of
        [] \<Rightarrow> (int (length bs), d\<lparr>fd_out := fd_out d @ bs\<rparr>)
      | Wr_Some k # es \<Rightarrow>
          (int (length (take k bs)), d\<lparr>fd_out := fd_out d @ take k bs, fd_wr := es\<rparr>)
      | Wr_Fail e # es \<Rightarrow> (-1, d\<lparr>fd_wr := es, fd_errno := e\<rparr>))"

declare sys_read.simps [simp del] sys_write.simps [simp del]

lemma sys_read_spec:
  assumes "sys_read d n = (r, bs, d')" and "0 < n"
  shows "(\<exists>e es. r = -1 \<and> bs = [] \<and> fd_rd d = Rd_Fail e # es \<and>
            d' = d\<lparr>fd_rd := es, fd_errno := e\<rparr>) \<or>
         (r = int (length bs) \<and> (bs = [] \<longrightarrow> fd_in d = []) \<and> length bs \<le> n \<and>
          fd_in d = bs @ fd_in d' \<and> fd_out d' = fd_out d \<and> fd_wr d' = fd_wr d \<and>
          set (fd_rd d') \<subseteq> set (fd_rd d) \<and> length (fd_rd d') \<le> length (fd_rd d))"
proof (cases "fd_rd d")
  case Nil
  then show ?thesis
    using assms by (cases "fd_in d") (auto simp: sys_read.simps Let_def)
next
  case (Cons ev es)
  then show ?thesis
    using assms by (cases ev; cases "fd_in d") (auto simp: sys_read.simps Let_def)
qed

lemma sys_read_measure:
  assumes "sys_read d n = (r, bs, d')" and "0 < n"
  shows "r < 0 \<Longrightarrow> length (fd_rd d') < length (fd_rd d)"
    and "0 < r \<Longrightarrow> n - nat r + length (fd_rd d') < n + length (fd_rd d)"
  using sys_read_spec [OF assms] assms(2) by (cases bs; auto)+

subsection \<open>rio\_readn\<close>

function rio_readn_loop :: "nat \<Rightarrow> nat \<Rightarrow> string \<Rightarrow> fd \<Rightarrow> int \<times> string \<times> fd" where
  "rio_readn_loop n nleft buf d =
     (if 0 < nleft then
        (case sys_read d nleft of (nread, bs, d') \<Rightarrow>
           if nread < 0 then
             (if fd_errno d' = E_INTR then rio_readn_loop n nleft buf d' else (-1, buf, d'))
           else if nread = 0 then (int (n - nleft), buf, d')
           else rio_readn_loop n (nleft - nat nread) (buf @ bs) d')
      else (int (n - nleft), buf, d))"
  by pat_completeness auto
termination
  by (relation "measure (\<lambda>(n, nleft, buf, d). nleft + length (fd_rd d))")
    (auto dest: sys_read_measure [OF sym])

declare rio_readn_loop.simps [simp del]

definition rio_readn :: "fd \<Rightarrow> nat \<Rightarrow> int \<times> string \<times> fd" where
  "rio_readn d n = rio_readn_loop n n [] d"

text \<open>Reads are only ever interrupted, never failing for another reason.\<close>

definition rd_ok :: "fd \<Rightarrow> bool" where
  "rd_ok d \<longleftrightarrow> (\<forall>e. Rd_Fail e \<in> set (fd_rd d) \<longrightarrow> e = E_INTR)"

lemma rd_ok_subset: "set (fd_rd d') \<subseteq> set (fd_rd d) \<Longrightarrow> rd_ok d \<Longrightarrow> rd_ok d'"
  by (auto simp: rd_ok_def)

lemma rio_readn_loop_result:
  assumes "length buf + nleft = n" and "rio_readn_loop n nleft buf d = (r, bs, d')"
  shows "\<exists>t. bs = buf @ t \<and> fd_in d = t @ fd_in d' \<and> length bs \<le> n \<and>
      fd_out d' = fd_out d \<and> fd_wr d' = fd_wr d \<and> set (fd_rd d') \<subseteq> set (fd_rd d) \<and>
      (r = int (length bs) \<and> (length bs = n \<or> fd_in d' = []) \<or> r = -1 \<and> \<not> rd_ok d)"
  using assms
proof (induction n nleft buf d arbitrary: r bs d' rule: rio_readn_loop.induct)
  case (1 n nleft buf d)
  show ?case
  proof (cases "0 < nleft")
    case False
    with "1.prems" show ?thesis by (auto simp: rio_readn_loop.simps [of n nleft])
  next
    case True
    obtain nr t d1 where sr: "sys_read d nleft = (nr, t, d1)" by (metis prod_cases3)
    have eq: "(if nr < 0 then
             (if fd_errno d1 = E_INTR then rio_readn_loop n nleft buf d1 else (-1, buf, d1))
           else if nr = 0 then (int (n - nleft), buf, d1)
           else rio_readn_loop n (nleft - nat nr) (buf @ t) d1) = (r, bs, d')"
      using "1.prems"(2) True sr by (subst (asm) rio_readn_loop.simps) simp
    from sys_read_spec [OF sr True] consider
        (fail) e es where "nr = -1" "fd_rd d = Rd_Fail e # es" "d1 = d\<lparr>fd_rd := es, fd_errno := e\<rparr>"
      | (data) "nr = int (length t)" "t = [] \<longrightarrow> fd_in d = []" "length t \<le> nleft"
          "fd_in d = t @ fd_in d1" "fd_out d1 = fd_out d" "fd_wr d1 = fd_wr d"
          "set (fd_rd d1) \<subseteq> set (fd_rd d)"
      by blast
    then show ?thesis
    proof cases
      case fail
      show ?thesis
      proof (cases "e = E_INTR")
        case intr: True
        have "rio_readn_loop n nleft buf d1 = (r, bs, d')"
          using eq fail intr by simp
        with "1.IH"(1) [OF True sr [symmetric] refl] fail intr "1.prems"(1)
        have "\<exists>t. bs = buf @ t \<and> fd_in d1 = t @ fd_in d' \<and> length bs \<le> n \<and>
          fd_out d' = fd_out d1 \<and> fd_wr d' = fd_wr d1 \<and> set (fd_rd d') \<subseteq> set (fd_rd d1) \<and>
          (r = int (length bs) \<and> (length bs = n \<or> fd_in d' = []) \<or> r = -1 \<and> \<not> rd_ok d1)"
          by simp
        with fail intr show ?thesis by (auto simp: rd_ok_def)
      next
        case False
        then show ?thesis using eq fail "1.prems"(1) by (auto simp: rd_ok_def)
      qed
    next
      case data
      show ?thesis
      proof (cases "t = []")
        case eof: True
        then show ?thesis using eq data "1.prems"(1) by auto
      next
        case False
        then have "rio_readn_loop n (nleft - nat nr) (buf @ t) d1 = (r, bs, d')"
          using eq data by simp
        with "1.IH"(2) [OF True sr [symmetric] refl] data False "1.prems"(1)
        have "\<exists>u. bs = (buf @ t) @ u \<and> fd_in d1 = u @ fd_in d' \<and> length bs \<le> n \<and>
          fd_out d' = fd_out d1 \<and> fd_wr d' = fd_wr d1 \<and> set (fd_rd d') \<subseteq> set (fd_rd d1) \<and>
          (r = int (length bs) \<and> (length bs = n \<or> fd_in d' = []) \<or> r = -1 \<and> \<not> rd_ok d1)"
          by simp
        then obtain u where u: "bs = (buf @ t) @ u" "fd_in d1 = u @ fd_in d'" "length bs \<le> n"
          "fd_out d' = fd_out d1" "fd_wr d' = fd_wr d1" "set (fd_rd d') \<subseteq> set (fd_rd d1)"
          "r = int (length bs) \<and> (length bs = n \<or> fd_in d' = []) \<or> r = -1 \<and> \<not> rd_ok d1"
          by blast
        have "set (fd_rd d') \<subseteq> set (fd_rd d)" "rd_ok d \<longrightarrow> rd_ok d1"
          using data(7) u(6) rd_ok_subset by blast+
        with u data show ?thesis by (intro exI [of _ "t @ u"]) auto
      qed
    qed
  qed
qed

lemma rio_readn_result:
  assumes "rio_readn d n = (r, bs, d')"
  shows "fd_in d = bs @ fd_in d' \<and> length bs \<le> n \<and> fd_out d' = fd_out d \<and>
      fd_wr d' = fd_wr d \<and> set (fd_rd d') \<subseteq> set (fd_rd d) \<and>
      (r = int (length bs) \<and> (length bs = n \<or> fd_in d' = []) \<or> r = -1 \<and> \<not> rd_ok d)"
  using rio_readn_loop_result [of "[]" n n d r bs d'] assms by (simp add: rio_readn_def)

subsection \<open>rio\_writen\<close>

lemma sys_write_spec:
  assumes "sys_write d bs = (r, d')" and "bs \<noteq> []"
  shows "(\<exists>e es. r = -1 \<and> fd_wr d = Wr_Fail e # es \<and> d' = d\<lparr>fd_wr := es, fd_errno := e\<rparr>) \<or>
         (\<exists>es. r = 0 \<and> fd_wr d = Wr_Some 0 # es \<and> d' = d\<lparr>fd_wr := es\<rparr>) \<or>
         (0 < r \<and> nat r \<le> length bs \<and> fd_out d' = fd_out d @ take (nat r) bs \<and>
          fd_in d' = fd_in d \<and> fd_rd d' = fd_rd d \<and> set (fd_wr d') \<subseteq> set (fd_wr d) \<and>
          length (fd_wr d') \<le> length (fd_wr d))"
proof (cases "fd_wr d")
  case Nil
  then show ?thesis using assms by (auto simp: sys_write.simps)
next
  case (Cons ev es)
  show ?thesis
  proof (cases ev)
    case (Wr_Some k)
    then show ?thesis
      using assms Cons by (cases k) (auto simp: sys_write.simps min_def)
  next
    case (Wr_Fail e)
    then show ?thesis using assms Cons by (auto simp: sys_write.simps)
  qed
qed

lemma sys_write_measure:
  assumes "sys_write d bs = (r, d')" and "bs \<noteq> []"
  shows "r \<le> 0 \<Longrightarrow> length (fd_wr d') < length (fd_wr d)"
    and "0 < r \<Longrightarrow> length bs - nat r + length (fd_wr d') < length bs + length (fd_wr d)"
  using sys_write_spec [OF assms] assms(2) by auto

function rio_writen_loop :: "nat \<Rightarrow> string \<Rightarrow> fd \<Rightarrow> int \<times> fd" where
  "rio_writen_loop n bufp d =
     (if bufp \<noteq> [] then
        (case sys_write d bufp of (nwritten, d') \<Rightarrow>
           if nwritten \<le> 0 then
             (if fd_errno d' = E_INTR then rio_writen_loop n bufp d' else (-1, d'))
           else rio_writen_loop n (drop (nat nwritten) bufp) d')
      else (int n, d))"
  by pat_completeness auto
termination
  by (relation "measure (\<lambda>(n, bufp, d). length bufp + length (fd_wr d))")
    (auto dest: sys_write_measure [OF sym])

declare rio_writen_loop.simps [simp del]

definition rio_writen :: "fd \<Rightarrow> string \<Rightarrow> int \<times> fd" where
  "rio_writen d buf = rio_writen_loop (length buf) buf d"

text \<open>Writes are only ever interrupted, and transfer at least one byte otherwise.\<close>

definition wr_ok :: "fd \<Rightarrow> bool" where
  "wr_ok d \<longleftrightarrow> (\<forall>e. Wr_Fail e \<in> set (fd_wr d) \<longrightarrow> e = E_INTR) \<and> Wr_Some 0 \<notin> set (fd_wr d)"

lemma wr_ok_subset: "set (fd_wr d') \<subseteq> set (fd_wr d) \<Longrightarrow> wr_ok d \<Longrightarrow> wr_ok d'"
  by (auto simp: wr_ok_def)

lemma rio_writen_loop_result:
  assumes "rio_writen_loop n buf d = (r, d')"
  shows "\<exists>t u. buf = t @ u \<and> fd_out d' = fd_out d @ t \<and> fd_in d' = fd_in d \<and>
      fd_rd d' = fd_rd d \<and> set (fd_wr d') \<subseteq> set (fd_wr d) \<and>
      (r = int n \<and> u = [] \<or> r = -1 \<and> \<not> wr_ok d)"
  using assms
proof (induction n buf d arbitrary: r d' rule: rio_writen_loop.induct)
  case (1 n buf d)
  show ?case
  proof (cases "buf = []")
    case True
    with "1.prems" show ?thesis by (simp add: rio_writen_loop.simps [of n "[]"])
  next
    case False
    obtain nw d1 where sw: "sys_write d buf = (nw, d1)" by (metis prod.exhaust)
    have eq: "(if nw \<le> 0 then
             (if fd_errno d1 = E_INTR then rio_writen_loop n buf d1 else (-1, d1))
           else rio_writen_loop n (drop (nat nw) buf) d1) = (r, d')"
      using "1.prems" False sw by (subst (asm) rio_writen_loop.simps) simp
    have frame: "fd_in d1 = fd_in d" "fd_rd d1 = fd_rd d" "set (fd_wr d1) \<subseteq> set (fd_wr d)"
      using sys_write_spec [OF sw False] by auto
    show ?thesis
    proof (cases "0 < nw")
      case True
      with "1.IH"(2) [OF False sw [symmetric]] eq
      obtain t u where "drop (nat nw) buf = t @ u" "fd_out d' = fd_out d1 @ t"
        "fd_in d' = fd_in d1" "fd_rd d' = fd_rd d1" "set (fd_wr d') \<subseteq> set (fd_wr d1)"
        "r = int n \<and> u = [] \<or> r = -1 \<and> \<not> wr_ok d1"
        by auto
      moreover from this(1) have "buf = (take (nat nw) buf @ t) @ u"
        by (metis append_assoc append_take_drop_id)
      moreover have "fd_out d1 = fd_out d @ take (nat nw) buf"
        using True sys_write_spec [OF sw False] by auto
      ultimately show ?thesis
        using frame by (intro exI [of _ "take (nat nw) buf @ t"] exI [of _ u]) (auto simp: wr_ok_def)
    next
      case le: False
      have d1: "fd_out d1 = fd_out d" and bad: "fd_errno d1 \<noteq> E_INTR \<longrightarrow> \<not> wr_ok d"
        using le sys_write_spec [OF sw False] by (auto simp: wr_ok_def)
      show ?thesis
      proof (cases "fd_errno d1 = E_INTR")
        case True
        with "1.IH"(1) [OF False sw [symmetric]] eq le
        obtain t u where "buf = t @ u" "fd_out d' = fd_out d1 @ t"
          "fd_in d' = fd_in d1" "fd_rd d' = fd_rd d1" "set (fd_wr d') \<subseteq> set (fd_wr d1)"
          "r = int n \<and> u = [] \<or> r = -1 \<and> \<not> wr_ok d1"
          by auto
        then show ?thesis
          using frame d1 by (intro exI [of _ t] exI [of _ u]) (auto simp: wr_ok_def)
      next
        case False
        then show ?thesis
          using eq le d1 bad frame
          by (intro exI [of _ "[]"] exI [of _ buf]) auto
      qed
    qed
  qed
qed

lemma rio_writen_result:
  assumes "rio_writen d buf = (r, d')"
  shows "\<exists>t u. buf = t @ u \<and> fd_out d' = fd_out d @ t \<and> fd_in d' = fd_in d \<and>
      fd_rd d' = fd_rd d \<and> set (fd_wr d') \<subseteq> set (fd_wr d) \<and>
      (r = int (length buf) \<and> u = [] \<or> r = -1 \<and> \<not> wr_ok d)"
  using rio_writen_loop_result assms by (simp add: rio_writen_def)

end
