(* ===== verification/Framing.thy ===== *)
theory Framing
  imports Wire_Int Rio
begin

text \<open>
  Framing, \<open>src/io.cpp\<close>: a message is sent as four decimal digits (the number of bytes that
  follow), the text, and a newline. \<open>io_send\<close> and \<open>io_receive\<close> work on the descriptor model
  of \<open>Rio\<close>, whose reads and writes may be short or interrupted.
\<close>

subsection \<open>The length prefix\<close>

definition make_length_prefix :: "nat \<Rightarrow> string res" where
  "make_length_prefix payload_len_with_newline =
     (if payload_len_with_newline > 9999 then Inl (IOException ''message too long to frame'')
      else let digits = dec_digits payload_len_with_newline in
           Inr (replicate (4 - length digits) CHR ''0'' @ digits))"

text \<open>The loop over the four characters, then \<open>std::stoi\<close>.\<close>

fun check_digits :: "string \<Rightarrow> unit res" where
  "check_digits [] = Inr ()"
| "check_digits (c # cs) =
     (if \<not> is_digit c then Inl (IOException ''invalid length prefix'') else check_digits cs)"

definition parse_length_prefix :: "string \<Rightarrow> int res" where
  "parse_length_prefix prefix =
     bindR (check_digits prefix) (\<lambda>_.
     bindR (stoi prefix) (\<lambda>(n, pos).
       if n \<le> 0 then Inl (IOException ''invalid framed length'') else Inr n))"

subsection \<open>send and receive\<close>

definition io_send :: "string \<Rightarrow> fd \<Rightarrow> unit res \<times> fd" where
  "io_send s outfd =
     (case make_length_prefix (length s + 1) of
        Inl e \<Rightarrow> (Inl e, outfd)
      | Inr prefix \<Rightarrow>
          let framed = prefix @ s @ [CHR 0x0A] in
          case rio_writen outfd framed of (n, outfd') \<Rightarrow>
            if n \<noteq> int (length framed)
            then (Inl (IOException ''error sending framed message''), outfd')
            else (Inr (), outfd'))"

definition io_receive :: "fd \<Rightarrow> string res \<times> fd" where
  "io_receive infd =
     (case rio_readn infd 4 of (n, size_prefix, infd1) \<Rightarrow>
        if n \<noteq> 4 then (Inl (IOException ''error reading length prefix''), infd1)
        else case parse_length_prefix size_prefix of
          Inl e \<Rightarrow> (Inl e, infd1)
        | Inr framed_len \<Rightarrow>
            (case rio_readn infd1 (nat framed_len) of (n', body, infd2) \<Rightarrow>
               if n' \<noteq> framed_len
               then (Inl (IOException ''error reading framed payload''), infd2)
               else if last body \<noteq> CHR 0x0A
               then (Inl (IOException ''missing terminating newline in framed payload''), infd2)
               else (Inr (butlast body), infd2)))"

subsection \<open>Lemmas\<close>

lemma dec_digits_length:
  "dec_digits n = (if n < 10 then [digit_char n] else dec_digits (n div 10) @ [digit_char (n mod 10)])"
  by (rule dec_digits.simps)

lemma length_dec_digits_le: "n < 10 ^ Suc k \<Longrightarrow> length (dec_digits n) \<le> Suc k"
proof (induction k arbitrary: n)
  case 0
  then show ?case by (subst dec_digits_length) simp
next
  case (Suc k)
  then have "n div 10 < 10 ^ Suc k" by (simp add: div_less_iff_less_mult)
  with Suc.IH have "length (dec_digits (n div 10)) \<le> Suc k" by blast
  then show ?case by (subst dec_digits_length) simp
qed

lemma dec_val_zeros: "dec_val (replicate k CHR ''0'' @ s) = dec_val s"
  by (induction k) (simp_all add: dec_val_def digit_val_def)

lemma is_digit_zero [simp]: "is_digit CHR ''0''"
  by (simp add: is_digit_def)

lemma make_length_prefix_result:
  assumes "n \<le> 9999"
  obtains p where "make_length_prefix n = Inr p" and "length p = 4"
    and "\<forall>c\<in>set p. is_digit c" and "dec_val p = n"
proof -
  have "length (dec_digits n) \<le> 4"
    using length_dec_digits_le [of n 3] assms by simp
  then have "length (replicate (4 - length (dec_digits n)) CHR ''0'' @ dec_digits n) = 4"
    by simp
  moreover have "\<forall>c\<in>set (replicate (4 - length (dec_digits n)) CHR ''0'' @ dec_digits n). is_digit c"
    using dec_digits_digits by auto
  ultimately show ?thesis
    using that assms by (simp add: make_length_prefix_def Let_def dec_val_zeros)
qed

lemma check_digits_eq:
  "check_digits s = (if \<forall>c\<in>set s. is_digit c then Inr ()
     else Inl (IOException ''invalid length prefix''))"
  by (induction s) auto

lemma dec_val_less: "\<forall>c\<in>set s. is_digit c \<Longrightarrow> dec_val s < 10 ^ length s"
proof (induction s rule: rev_induct)
  case (snoc c s)
  then have "digit_val c < 10"
    by (auto simp: is_digit_def digit_val_def)
  with snoc show ?case by (simp add: dec_val_snoc)
qed (simp add: dec_val_def)

lemma parse_length_prefix_eq:
  assumes "length p = 4"
  shows "parse_length_prefix p =
    (if \<not> (\<forall>c\<in>set p. is_digit c) then Inl (IOException ''invalid length prefix'')
     else if dec_val p = 0 then Inl (IOException ''invalid framed length'')
     else Inr (int (dec_val p)))"
proof (cases "\<forall>c\<in>set p. is_digit c")
  case True
  then have "stoi ([] @ [] @ p) = Inr (int (dec_val p), length ([] @ [] @ p))"
    using assms dec_val_less [OF True] by (intro stoi_numeral) (auto simp: int_max_def)
  with True show ?thesis by (simp add: parse_length_prefix_def check_digits_eq)
qed (auto simp: parse_length_prefix_def check_digits_eq)

text \<open>The bytes of a frame.\<close>

definition is_frame :: "string \<Rightarrow> string \<Rightarrow> bool" where
  "is_frame s t \<longleftrightarrow>
     (\<exists>p. t = p @ s @ [CHR 0x0A] \<and> length p = 4 \<and> (\<forall>c\<in>set p. is_digit c) \<and>
          dec_val p = length s + 1)"

lemma is_frame_unique: "is_frame s t \<Longrightarrow> is_frame s' t \<Longrightarrow> s = s'"
  by (auto simp: is_frame_def)

lemma is_frame_bound: "is_frame s t \<Longrightarrow> length s \<le> 9998"
  by (auto simp: is_frame_def dest: dec_val_less)

lemma frame_prefix_unique:
  assumes "is_frame s t" and "is_frame s' t'" and "t @ rest = t' @ rest'"
  shows "s = s' \<and> t = t' \<and> rest = rest'"
proof -
  obtain p where p: "t = p @ s @ [CHR 0x0A]" "length p = 4" "dec_val p = length s + 1"
    using assms(1) by (auto simp: is_frame_def)
  obtain p' where p': "t' = p' @ s' @ [CHR 0x0A]" "length p' = 4" "dec_val p' = length s' + 1"
    using assms(2) by (auto simp: is_frame_def)
  have "p @ (s @ [CHR 0x0A] @ rest) = p' @ (s' @ [CHR 0x0A] @ rest')"
    using assms(3) p(1) p'(1) by simp
  then have eq: "p = p'" "s @ [CHR 0x0A] @ rest = s' @ [CHR 0x0A] @ rest'"
    using p(2) p'(2) by (simp_all add: append_eq_append_conv)
  then have "length s = length s'" using p(3) p'(3) by simp
  with eq(2) have "s = s' \<and> rest = rest'" by (simp add: append_eq_append_conv)
  with eq p(1) p'(1) show ?thesis by simp
qed

lemma io_send_cases:
  assumes "io_send s d = (r, d')"
  shows "fd_in d' = fd_in d \<and> fd_rd d' = fd_rd d \<and> set (fd_wr d') \<subseteq> set (fd_wr d) \<and>
     (if length s > 9998 then r = Inl (IOException ''message too long to frame'') \<and> d' = d
      else \<exists>t u. is_frame s (t @ u) \<and> fd_out d' = fd_out d @ t \<and>
             (r = Inr () \<and> u = [] \<or>
              r = Inl (IOException ''error sending framed message'') \<and> \<not> wr_ok d))"
proof (cases "length s > 9998")
  case True
  with assms show ?thesis by (auto simp: io_send_def make_length_prefix_def)
next
  case False
  then obtain p where p: "make_length_prefix (length s + 1) = Inr p" "length p = 4"
    "\<forall>c\<in>set p. is_digit c" "dec_val p = length s + 1"
    using make_length_prefix_result [of "length s + 1"] by auto
  let ?f = "p @ s @ [CHR 0x0A]"
  obtain n d1 where w: "rio_writen d ?f = (n, d1)" by (metis prod.exhaust)
  have f: "is_frame s ?f" using p by (auto simp: is_frame_def)
  have "(r, d') = (if n \<noteq> int (length ?f) then (Inl (IOException ''error sending framed message''), d1)
      else (Inr (), d1))"
    using assms p(1) w by (simp add: io_send_def Let_def)
  with rio_writen_result [OF w] f False show ?thesis
    by (auto split: if_splits)
qed

lemma io_send_ok:
  assumes "length s \<le> 9998" and "wr_ok d"
  shows "\<exists>t d'. io_send s d = (Inr (), d') \<and> is_frame s t \<and> fd_out d' = fd_out d @ t \<and>
    fd_in d' = fd_in d \<and> fd_rd d' = fd_rd d \<and> wr_ok d'"
proof -
  obtain r d' where "io_send s d = (r, d')" by (metis prod.exhaust)
  with io_send_cases [OF this] assms wr_ok_subset [of d' d] show ?thesis by auto
qed

text \<open>
  C29: sending. A text of at most 9998 bytes goes out as exactly one frame, after whatever
  was written before, for any sequence of short or interrupted writes; a longer text is
  refused before anything is written; a write error leaves a proper prefix of the frame.
\<close>

theorem io_send_spec:
  "case io_send s d of (r, d') \<Rightarrow>
     fd_in d' = fd_in d \<and>
     (if length s > 9998 then r = Inl (IOException ''message too long to frame'') \<and> d' = d
      else \<exists>t u. is_frame s (t @ u) \<and> fd_out d' = fd_out d @ t \<and>
             (r = Inr () \<and> u = [] \<or>
              r = Inl (IOException ''error sending framed message'') \<and> \<not> wr_ok d))"
proof (cases "io_send s d")
  case (Pair r d')
  from io_send_cases [OF Pair] show ?thesis
    unfolding Pair prod.case by (elim conjE) (intro conjI; assumption)
qed

lemma io_receive_cases:
  assumes "io_receive d = (r, d')"
  shows "case r of Inl e \<Rightarrow> is_IOException e
         | Inr s \<Rightarrow> \<exists>t. is_frame s t \<and> fd_in d = t @ fd_in d' \<and> fd_out d' = fd_out d \<and>
             fd_wr d' = fd_wr d \<and> set (fd_rd d') \<subseteq> set (fd_rd d)"
proof -
  obtain n p d1 where r1: "rio_readn d 4 = (n, p, d1)" by (metis prod_cases3)
  note R1 = rio_readn_result [OF r1]
  show ?thesis
  proof (cases "n = 4 \<and> (\<forall>c\<in>set p. is_digit c) \<and> dec_val p \<noteq> 0")
    case False
    then have "\<exists>e. r = Inl e \<and> is_IOException e"
    proof (cases "n = 4")
      case True
      then have "length p = 4" using R1 by auto
      with False True assms r1 show ?thesis
        by (auto simp: io_receive_def parse_length_prefix_eq split: if_splits)
    next
      case False
      with assms r1 show ?thesis by (auto simp: io_receive_def)
    qed
    then show ?thesis by auto
  next
    case True
    then have p: "length p = 4" "parse_length_prefix p = Inr (int (dec_val p))"
      using R1 by (auto simp: parse_length_prefix_eq)
    obtain m b d2 where r2: "rio_readn d1 (dec_val p) = (m, b, d2)" by (metis prod_cases3)
    note R2 = rio_readn_result [OF r2]
    have eq: "(r, d') =
        (if m \<noteq> int (dec_val p) then (Inl (IOException ''error reading framed payload''), d2)
         else if last b \<noteq> CHR 0x0A
         then (Inl (IOException ''missing terminating newline in framed payload''), d2)
         else (Inr (butlast b), d2))"
      using assms r1 r2 p True by (simp add: io_receive_def)
    show ?thesis
    proof (cases "m = int (dec_val p) \<and> last b = CHR 0x0A")
      case False
      with eq show ?thesis by (auto split: if_splits)
    next
      case ok: True
      then have b: "length b = dec_val p" "b \<noteq> []"
        using R2 True by auto
      then have "b = butlast b @ [CHR 0x0A]"
        using ok by (metis append_butlast_last_id)
      with b True p have "is_frame (butlast b) (p @ b)"
        by (auto simp: is_frame_def intro!: exI [of _ p])
      moreover have "fd_in d = (p @ b) @ fd_in d2" "set (fd_rd d2) \<subseteq> set (fd_rd d)"
        using R1 R2 by auto
      ultimately show ?thesis
        using eq ok R1 R2 by (auto simp del: append_assoc)
    qed
  qed
qed

lemma io_receive_frame:
  assumes "rd_ok d" and "fd_in d = t @ rest" and "is_frame s t"
  shows "\<exists>d'. io_receive d = (Inr s, d') \<and> fd_in d' = rest \<and> rd_ok d' \<and> fd_out d' = fd_out d \<and>
    fd_wr d' = fd_wr d"
proof -
  obtain p where p: "t = p @ s @ [CHR 0x0A]" "length p = 4" "\<forall>c\<in>set p. is_digit c"
    "dec_val p = length s + 1"
    using assms(3) by (auto simp: is_frame_def)
  obtain n p' d1 where r1: "rio_readn d 4 = (n, p', d1)" by (metis prod_cases3)
  have L: "length (fd_in d) = 4 + (length s + 1) + length rest"
    using assms(2) p(1,2) by simp
  have "length p' = 4"
    using rio_readn_result [OF r1] assms(1) L by auto
  with rio_readn_result [OF r1] assms(1,2) p(1,2)
  have R1: "n = 4" "p' = p" "fd_in d1 = (s @ [CHR 0x0A]) @ rest" "rd_ok d1" "fd_out d1 = fd_out d"
    "fd_wr d1 = fd_wr d"
    using rd_ok_subset by (auto simp: append_eq_append_conv)
  obtain m b d2 where r2: "rio_readn d1 (length s + 1) = (m, b, d2)" by (metis prod_cases3)
  have "length (fd_in d1) = (length s + 1) + length rest"
    using R1(3) by simp
  then have "length b = length s + 1"
    using rio_readn_result [OF r2] R1(4) by auto
  moreover from this have "b = s @ [CHR 0x0A] \<and> fd_in d2 = rest"
    using rio_readn_result [OF r2] R1(3)
    by (metis append_eq_append_conv length_append_singleton Suc_eq_plus1)
  ultimately have R2: "m = int (length s + 1)" "b = s @ [CHR 0x0A]" "fd_in d2 = rest" "rd_ok d2"
    "fd_out d2 = fd_out d1" "fd_wr d2 = fd_wr d1"
    using rio_readn_result [OF r2] R1(4) rd_ok_subset by auto
  have "parse_length_prefix p = Inr (int (length s + 1))"
    using p by (simp add: parse_length_prefix_eq)
  moreover have "nat (int (length s + 1)) = length s + 1" by simp
  ultimately have "io_receive d = (Inr s, d2)"
    using r1 r2 R1(1,2) R2(1,2) by (simp only: io_receive_def prod.case sum.case) simp
  then show ?thesis using R1 R2 by simp
qed

lemma io_receive_frame_fd: "io_receive d = (r, d') \<Longrightarrow> fd_out d' = fd_out d \<and> fd_wr d' = fd_wr d"
  by (auto simp: io_receive_def split: prod.splits sum.splits if_splits
      dest!: rio_readn_result)

text \<open>
  C11: receiving. Reads may be short or interrupted in any way; \<open>IO::receive\<close> then returns a
  text exactly when the input starts with its frame, consumes exactly that frame and leaves
  the rest (the next frames) in place. On any input and any read error, what it throws is
  \<open>IOException\<close>.
\<close>

theorem io_receive_spec:
  assumes "rd_ok d"
  shows "case io_receive d of (r, d') \<Rightarrow>
      (\<forall>s rest. r = Inr s \<and> fd_in d' = rest \<longleftrightarrow> (\<exists>t. is_frame s t \<and> fd_in d = t @ rest)) \<and>
      (\<forall>e. r = Inl e \<longrightarrow> is_IOException e) \<and> fd_out d' = fd_out d"
proof (cases "io_receive d")
  case (Pair r d')
  have "(r = Inr s \<and> fd_in d' = rest) \<longleftrightarrow> (\<exists>t. is_frame s t \<and> fd_in d = t @ rest)" for s rest
  proof
    assume "r = Inr s \<and> fd_in d' = rest"
    then show "\<exists>t. is_frame s t \<and> fd_in d = t @ rest"
      using io_receive_cases [OF Pair] by auto
  next
    assume "\<exists>t. is_frame s t \<and> fd_in d = t @ rest"
    then show "r = Inr s \<and> fd_in d' = rest"
      using io_receive_frame [OF assms] Pair by auto
  qed
  moreover have "r = Inl e \<longrightarrow> is_IOException e" for e
    using io_receive_cases [OF Pair] by auto
  ultimately show ?thesis
    using Pair io_receive_frame_fd [OF Pair] by simp
qed

text \<open>A descriptor whose input is given and whose calls transfer all they can.\<close>

definition plain_fd :: "string \<Rightarrow> fd" where
  "plain_fd input = \<lparr>fd_in = input, fd_rd = [], fd_out = [], fd_wr = [], fd_errno = E_NONE\<rparr>"

lemma plain_fd_ok [simp]: "rd_ok (plain_fd t)" "wr_ok (plain_fd t)" "fd_in (plain_fd t) = t"
  "fd_out (plain_fd t) = []"
  by (simp_all add: rd_ok_def wr_ok_def plain_fd_def)

text \<open>A descriptor whose writes are interrupted and short.\<close>

definition stuttering_fd :: fd where
  "stuttering_fd = (plain_fd [])\<lparr>fd_wr := [Wr_Some 3, Wr_Fail E_INTR, Wr_Some 1]\<rparr>"

lemma stuttering_fd_ok: "wr_ok stuttering_fd" "fd_out stuttering_fd = []"
  by (simp_all add: stuttering_fd_def wr_ok_def plain_fd_def)

lemma io_send_spec_witness:
  "fst (io_send ''QUIT|bye'' stuttering_fd) = Inr () \<and>
   is_frame ''QUIT|bye'' (fd_out (snd (io_send ''QUIT|bye'' stuttering_fd)))"
  using io_send_spec [where s = "''QUIT|bye''" and d = stuttering_fd] stuttering_fd_ok
  by (auto split: prod.splits)

text \<open>The input of the unit test for short prefixes: two frames, read in small pieces.\<close>

definition chunked_fd :: fd where
  "chunked_fd = (plain_fd (''00021'' @ [CHR 0x0A] @ ''0011ABCDEFGHIJ'' @ [CHR 0x0A]))
     \<lparr>fd_rd := [Rd_Some 1, Rd_Fail E_INTR, Rd_Some 2, Rd_Some 0]\<rparr>"

lemma is_frame_1: "is_frame ''1'' (''00021'' @ [CHR 0x0A])"
  by (simp add: is_frame_def is_digit_def dec_val_def digit_val_def)

lemma io_receive_spec_witness: "fst (io_receive chunked_fd) = Inr ''1''"
proof -
  have "rd_ok chunked_fd" by (simp add: rd_ok_def chunked_fd_def)
  moreover have "fd_in chunked_fd =
      (''00021'' @ [CHR 0x0A]) @ (''0011ABCDEFGHIJ'' @ [CHR 0x0A])"
    by (simp add: chunked_fd_def)
  ultimately show ?thesis
    using io_receive_spec [of chunked_fd] is_frame_1
    by (cases "io_receive chunked_fd") (fastforce simp only: prod.case fst_conv)
qed

subsection \<open>Frames as a codec\<close>

definition frame :: "string \<Rightarrow> string res" where
  "frame s = (case io_send s (plain_fd []) of (Inl e, _) \<Rightarrow> Inl e | (Inr _, d) \<Rightarrow> Inr (fd_out d))"

definition unframe :: "string \<Rightarrow> string res" where
  "unframe t = fst (io_receive (plain_fd t))"

lemma frame_is_frame:
  assumes "length s \<le> 9998"
  obtains t where "frame s = Inr t" and "is_frame s t"
  using io_send_ok [OF assms, of "plain_fd []"] that by (auto simp: frame_def)

interpretation framing: codec frame unframe "\<lambda>s. length s \<le> 9998"
proof
  fix s :: string assume "length s \<le> 9998"
  then obtain t where t: "frame s = Inr t" "is_frame s t" by (rule frame_is_frame)
  then have "\<exists>d'. io_receive (plain_fd t) = (Inr s, d')"
    using io_receive_frame [of "plain_fd t" t "[]" s] by auto
  with t show "bindR (frame s) unframe = Inr s"
    by (auto simp: unframe_def)
qed

end
