(* ===== verification/Wire_Correct.thy ===== *)
theory Wire_Correct
  imports Wire
begin

text \<open>
  Correctness of the text encoding: decoding inverts encoding on well-formed messages,
  decoded messages are well formed, re-encoding a decoded message gives a canonical text,
  and the only exception either function throws is \<open>InvalidMessage\<close>.
\<close>

subsection \<open>Items\<close>

lemma seps_in: "CHR ''|'' \<in> wire_seps" "CHR '','' \<in> wire_seps" "CHR '';'' \<in> wire_seps"
  "CHR '':'' \<in> wire_seps"
  by (simp_all add: wire_seps_def)

lemma sep_notin: "c \<in> wire_seps \<Longrightarrow> set s \<inter> wire_seps = {} \<Longrightarrow> c \<notin> set s"
  by blast

lemma field_sep_free [sep_simps]:
  "c \<in> wire_seps \<Longrightarrow> c \<notin> set (to_string v)"
  "c \<in> wire_seps \<Longrightarrow> c \<notin> set (item_status_to_str x)"
  "c \<in> wire_seps \<Longrightarrow> c \<notin> set (order_status_to_str y)"
  "c \<in> wire_seps \<Longrightarrow> c \<notin> set (client_mode_to_str z)"
  "c \<in> wire_seps \<Longrightarrow> c \<notin> set (message_type_to_str t)"
  "wf_item i \<Longrightarrow> c \<in> wire_seps \<Longrightarrow> c \<notin> set (i_desc i)"
  using to_string_sep_free enum_text_sep_free unfolding disjoint_iff wf_item_def by blast+

lemma split_item_to_str:
  "wf_item x \<Longrightarrow> splitc CHR '':'' (item_to_str x) =
     [to_string (i_order_id x), to_string (i_id x), item_status_to_str (i_status x), i_desc x,
      to_string (i_qty x)]"
  by (simp add: item_to_str_def sep_simps seps_in)

lemma parse_to_string [simp]:
  "positive_int v \<Longrightarrow> parse_positive_int (to_string v) f = Inr v"
  by (simp add: int_text.read_show positive_int_def)

lemma item_to_str_sep_free:
  "wf_item x \<Longrightarrow> c \<in> wire_seps \<Longrightarrow> c \<noteq> CHR '':'' \<Longrightarrow> c \<notin> set (item_to_str x)"
  by (simp add: item_to_str_def sep_simps)

interpretation item_text: sep_codec item_to_str decode_item wf_item "CHR '';''"
proof
  fix x assume "wf_item x"
  then show "decode_item (item_to_str x) = Inr x" and "CHR '';'' \<notin> set (item_to_str x)"
    by (simp_all add: decode_item_def split_item_to_str item_to_str_sep_free seps_in Let_def)
      (simp_all add: wf_item_def)
qed

lemma decode_item_wf:
  assumes "decode_item s = Inr x" and "set s \<inter> wire_seps \<subseteq> {CHR '':''}"
  shows "wf_item x"
proof -
  obtain p0 p1 p2 p3 p4 where sp: "splitc CHR '':'' s = [p0, p1, p2, p3, p4]"
    using assms(1) by (auto simp: decode_item_def split: list.splits)
  then have "p3 \<in> set (splitc CHR '':'' s)" by simp
  then have "set p3 \<inter> wire_seps = {}"
    using splitc_subset splitc_sep_free assms(2) by blast
  with assms(1) sp show ?thesis
    by (auto simp: decode_item_def res_simps Let_def wf_item_def positive_int_def
        dest: parse_positive_int_bounds)
qed

lemma decode_item_Inl: "decode_item s = Inl e \<Longrightarrow> is_InvalidMessage e"
  by (auto simp: decode_item_def res_simps Let_def split: list.splits
      dest: parse_positive_int_Inl)

subsection \<open>Orders\<close>

lemma encode_items_join:
  "encode_items i its out =
     out @ (if i > 0 \<and> its \<noteq> [] then '';'' else []) @ join CHR '';'' (map item_to_str its)"
proof (induction i its out rule: encode_items.induct)
  case (2 i x rest out)
  then show ?case by (cases rest) auto
qed simp

lemma encode_order_join:
  "o_items x \<noteq> [] \<Longrightarrow> encode_order (Some x) =
     Inr (to_string (o_id x) @ '','' @ order_status_to_str (o_status x) @ '','' @
          join CHR '';'' (map item_to_str (o_items x)))"
  by (simp add: encode_order_def get_num_items_def encode_items_join)

lemma decode_items_mapR:
  "decode_items fs x = bindR (mapR decode_item fs) (\<lambda>its. Inr (x\<lparr>o_items := o_items x @ its\<rparr>))"
proof (induction fs arbitrary: x)
  case (Cons f fs)
  then show ?case
    by (cases "decode_item f"; cases "mapR decode_item fs") (simp_all add: add_item_def)
qed simp

lemma order_text_sep_free:
  assumes "wf_order x" and "c \<in> wire_seps" and "c \<noteq> CHR '':''" and "c \<noteq> CHR '';''"
  shows "c \<notin> set (join CHR '';'' (map item_to_str (o_items x)))"
  using assms item_to_str_sep_free by (auto simp: wf_order_def dest!: set_join)

lemma mk_order_collapse: "(mk_order (o_id x) (o_status x))\<lparr>o_items := o_items x\<rparr> = x"
  by (simp add: mk_order_def)

lemma decode_encode_order:
  assumes "wf_order x"
  shows "bindR (encode_order (Some x)) decode_order = Inr x"
proof -
  have ne: "o_items x \<noteq> []" and it: "\<And>y. y \<in> set (o_items x) \<Longrightarrow> wf_item y"
    and id: "positive_int (o_id x)" and st: "o_status x \<noteq> OS_INVALID"
    using assms by (auto simp: wf_order_def)
  let ?t = "join CHR '';'' (map item_to_str (o_items x))"
  have "splitc CHR '','' (to_string (o_id x) @ '','' @ order_status_to_str (o_status x) @ '','' @ ?t)
      = [to_string (o_id x), order_status_to_str (o_status x), ?t]"
    using order_text_sep_free [OF assms] by (simp add: sep_simps seps_in)
  moreover have "mapR decode_item (splitc CHR '';'' ?t) = Inr (o_items x)"
    by (rule item_text.list_read_show [OF ne it])
  ultimately show ?thesis
    using id st ne
    by (simp add: encode_order_join decode_order_def decode_items_mapR mk_order_collapse Let_def)
qed

lemma decode_order_wf:
  assumes "decode_order s = Inr x" and "CHR ''|'' \<notin> set s"
  shows "wf_order x"
proof -
  obtain f0 f1 f2 where sp: "splitc CHR '','' s = [f0, f1, f2]"
    using assms(1) by (auto simp: decode_order_def split: list.splits)
  then have "f2 \<in> set (splitc CHR '','' s)" by simp
  then have f2: "CHR '','' \<notin> set f2" "CHR ''|'' \<notin> set f2"
    using splitc_sep_free splitc_subset assms(2) by fastforce+
  from assms(1) sp obtain its where its: "mapR decode_item (splitc CHR '';'' f2) = Inr its"
    and x: "o_items x = its" "positive_int (o_id x)" "o_status x \<noteq> OS_INVALID"
    by (auto simp: decode_order_def decode_items_mapR res_simps Let_def positive_int_def
        dest: parse_positive_int_bounds)
  have "its \<noteq> []"
    using mapR_Inr_length [OF its] splitc_not_Nil by fastforce
  moreover have "wf_item y" if y: "y \<in> set its" for y
  proof -
    obtain t where t: "t \<in> set (splitc CHR '';'' f2)" "decode_item t = Inr y"
      using mapR_Inr_set [OF its y] by blast
    then have "set t \<inter> wire_seps \<subseteq> {CHR '':''}"
      using splitc_sep_free [OF t(1)] splitc_subset [OF t(1)] f2 by (auto simp: wire_seps_def)
    with t(2) show ?thesis by (rule decode_item_wf)
  qed
  ultimately show ?thesis using x by (simp add: wf_order_def)
qed

lemma decode_order_Inl: "decode_order s = Inl e \<Longrightarrow> is_InvalidMessage e"
  by (auto simp: decode_order_def decode_items_mapR res_simps Let_def split: list.splits
      dest: parse_positive_int_Inl decode_item_Inl mapR_eq_Inl)

subsection \<open>Messages\<close>

lemmas decode_part_defs =
  decode_login_def decode_str_def decode_order_msg_def decode_item_update_def
  decode_order_update_def decode_heartbeat_def

lemmas encode_part_defs =
  encode_str_def encode_item_update_def encode_order_update_def

text \<open>The fields of a message's text, the type first.\<close>

definition message_fields :: "message \<Rightarrow> string list" where
  "message_fields m =
     message_type_to_str (m_type m) #
     (case m_type m of
        MT_LOGIN \<Rightarrow> [client_mode_to_str (m_client_mode m), m_str m]
      | MT_QUIT \<Rightarrow> [m_str m] | MT_OK \<Rightarrow> [m_str m] | MT_ERROR \<Rightarrow> [m_str m]
      | MT_ORDER_NEW \<Rightarrow> [case encode_order (m_order m) of Inr s \<Rightarrow> s | Inl _ \<Rightarrow> []]
      | MT_DISP_ORDER \<Rightarrow> [case encode_order (m_order m) of Inr s \<Rightarrow> s | Inl _ \<Rightarrow> []]
      | MT_ITEM_UPDATE \<Rightarrow>
          [to_string (m_order_id m), to_string (m_item_id m), item_status_to_str (m_item_status m)]
      | MT_DISP_ITEM_UPDATE \<Rightarrow>
          [to_string (m_order_id m), to_string (m_item_id m), item_status_to_str (m_item_status m)]
      | MT_ORDER_UPDATE \<Rightarrow> [to_string (m_order_id m), order_status_to_str (m_order_status m)]
      | MT_DISP_ORDER_UPDATE \<Rightarrow> [to_string (m_order_id m), order_status_to_str (m_order_status m)]
      | _ \<Rightarrow> [])"

lemma wf_order_encodes:
  assumes "wf_order x"
  obtains s where "encode_order (Some x) = Inr s" and "decode_order s = Inr x"
    and "CHR ''|'' \<notin> set s"
proof -
  have "o_items x \<noteq> []" using assms by (simp add: wf_order_def)
  then obtain s where s: "encode_order (Some x) = Inr s" "CHR ''|'' \<notin> set s"
    using order_text_sep_free [OF assms seps_in(1)]
    by (simp add: encode_order_join sep_simps seps_in)
  then show ?thesis using decode_encode_order [OF assms] that by simp
qed

lemma encode_fields:
  assumes "wf_message m"
  shows "encode m = Inr (join CHR ''|'' (message_fields m))"
  using assms
  by (cases "m_type m")
    (auto simp: wf_message_def decoded_ok_def carries_str_def encode_def message_fields_def
      encode_part_defs has_defs positive_int_def split: option.splits elim!: wf_order_encodes)

lemma message_fields_sep_free:
  assumes "wf_message m" and "t \<in> set (message_fields m)"
  shows "CHR ''|'' \<notin> set t"
  using assms
  by (cases "m_type m")
    (auto simp: wf_message_def decoded_ok_def message_fields_def sep_simps seps_in
      split: option.splits elim!: wf_order_encodes)

lemma split_encode:
  "wf_message m \<Longrightarrow> splitc CHR ''|'' (join CHR ''|'' (message_fields m)) = message_fields m"
  by (rule splitc_join) (auto simp: message_fields_def dest: message_fields_sep_free)

lemma message_fields_Cons: "\<exists>fs. message_fields m = message_type_to_str (m_type m) # fs"
  by (simp add: message_fields_def)


lemma message_ctor_type [simp]:
  "m_type (message_plain t) = t" "m_type (message_str t s) = t"
  "m_type (message_login t c s) = t" "m_type (message_order t x) = t"
  "m_type (message_order_update t i os) = t" "m_type (message_item_update t i j is) = t"
  by (simp_all add: message_ctor_defs)

lemma decode_fields:
  "splitc CHR ''|'' s = f # fs \<Longrightarrow> decode s =
     (let type = str_to_message_type f; fields = f # fs in
      if type = MT_INVALID then Inl (InvalidMessage ''invalid message type'')
      else if type = MT_LOGIN then decode_login type fields
      else if type \<in> {MT_QUIT, MT_OK, MT_ERROR} then decode_str type fields
      else if type \<in> {MT_ORDER_NEW, MT_DISP_ORDER} then decode_order_msg type fields
      else if type \<in> {MT_ITEM_UPDATE, MT_DISP_ITEM_UPDATE} then decode_item_update type fields
      else if type \<in> {MT_ORDER_UPDATE, MT_DISP_ORDER_UPDATE} then decode_order_update type fields
      else decode_heartbeat type fields)"
  by (cases "str_to_message_type f") (simp_all add: decode_def Let_def)

lemma decode_message_fields:
  assumes "wf_message m"
  shows "decode (join CHR ''|'' (message_fields m)) = Inr m"
proof -
  obtain fs where fs: "message_fields m = message_type_to_str (m_type m) # fs"
    using message_fields_Cons by blast
  have "splitc CHR ''|'' (join CHR ''|'' (message_fields m)) =
      message_type_to_str (m_type m) # fs"
    using split_encode [OF assms] fs by simp
  note dec = decode_fields [OF this, unfolded fs [symmetric]]
  show ?thesis
    using assms unfolding dec Let_def str_to_message_type_text wf_message_def carries_str_def
    by (cases "m_type m")
      (auto simp: decoded_ok_def message_fields_def decode_part_defs Let_def
        split: option.splits elim!: wf_order_encodes)
qed

interpretation wire: codec encode decode wf_message
  by unfold_locales (simp add: encode_fields decode_message_fields)

lemma decode_login_ok:
  "decode_login MT_LOGIN fs = Inr m \<Longrightarrow> \<forall>t\<in>set (tl fs). CHR ''|'' \<notin> set t \<Longrightarrow> decoded_ok m"
  by (auto simp: decode_login_def decoded_ok_def message_login_def message_default_def Let_def
      split: list.splits if_splits)

lemma decode_str_ok:
  assumes "decode_str type fs = Inr m" and "type \<in> {MT_QUIT, MT_OK, MT_ERROR}"
    and "\<forall>t\<in>set (tl fs). CHR ''|'' \<notin> set t"
  shows "decoded_ok m"
proof -
  obtain f t where "m = message_str type t" "CHR ''|'' \<notin> set t"
    using assms(1,3) by (auto simp: decode_str_def split: list.splits)
  then show ?thesis using assms(2)
    by (auto simp: decoded_ok_def message_str_def message_default_def)
qed

lemma decode_order_msg_ok:
  assumes "decode_order_msg type fs = Inr m" and "type \<in> {MT_ORDER_NEW, MT_DISP_ORDER}"
    and "\<forall>t\<in>set (tl fs). CHR ''|'' \<notin> set t"
  shows "decoded_ok m"
proof -
  obtain x where "m = message_order type (Some x)" "wf_order x"
    using assms(1,3)
    by (auto simp: decode_order_msg_def res_simps split: list.splits dest: decode_order_wf)
  then show ?thesis using assms(2)
    by (auto simp: decoded_ok_def message_order_def message_default_def)
qed

lemma decode_item_update_ok:
  assumes "decode_item_update type fs = Inr m" and "type \<in> {MT_ITEM_UPDATE, MT_DISP_ITEM_UPDATE}"
  shows "decoded_ok m"
proof -
  obtain i j st where "m = message_item_update type i j st" "positive_int i" "positive_int j"
    "st \<noteq> IS_INVALID"
    using assms(1)
    by (auto simp: decode_item_update_def res_simps Let_def positive_int_def
        split: list.splits if_splits dest: parse_positive_int_bounds)
  then show ?thesis using assms(2)
    by (auto simp: decoded_ok_def message_item_update_def message_default_def)
qed

lemma decode_order_update_ok:
  assumes "decode_order_update type fs = Inr m"
    and "type \<in> {MT_ORDER_UPDATE, MT_DISP_ORDER_UPDATE}"
  shows "decoded_ok m"
proof -
  obtain i st where "m = message_order_update type i st" "positive_int i" "st \<noteq> OS_INVALID"
    using assms(1)
    by (auto simp: decode_order_update_def res_simps Let_def positive_int_def
        split: list.splits if_splits dest: parse_positive_int_bounds)
  then show ?thesis using assms(2)
    by (auto simp: decoded_ok_def message_order_update_def message_default_def)
qed

lemma decode_heartbeat_ok: "decode_heartbeat MT_DISP_HEARTBEAT fs = Inr m \<Longrightarrow> decoded_ok m"
  by (auto simp: decode_heartbeat_def decoded_ok_def message_plain_def message_default_def
      split: list.splits)

lemma decode_decoded_ok:
  assumes "decode s = Inr m"
  shows "decoded_ok m"
proof -
  obtain f fs where sp: "splitc CHR ''|'' s = f # fs"
    by (cases "splitc CHR ''|'' s") auto
  then have free: "\<forall>t\<in>set (tl (f # fs)). CHR ''|'' \<notin> set t"
    using splitc_sep_free [of _ "CHR ''|''" s] by simp
  show ?thesis
    using assms free unfolding decode_fields [OF sp] Let_def
    by (cases "str_to_message_type f")
      (simp_all add: decode_login_ok decode_str_ok decode_order_msg_ok decode_item_update_ok
        decode_order_update_ok decode_heartbeat_ok)
qed

lemma decode_Inl:
  assumes "decode s = Inl e"
  shows "is_InvalidMessage e"
proof -
  obtain f fs where sp: "splitc CHR ''|'' s = f # fs"
    by (cases "splitc CHR ''|'' s") auto
  show ?thesis
    using assms unfolding decode_fields [OF sp] Let_def
    by (cases "str_to_message_type f")
      (auto simp: decode_part_defs res_simps Let_def split: list.splits if_splits
        dest: parse_positive_int_Inl decode_order_Inl)
qed

lemma encode_Inl: "encode m = Inl e \<Longrightarrow> is_InvalidMessage e"
  by (cases "m_type m")
    (auto simp: encode_def encode_part_defs encode_order_def res_simps
      split: if_splits option.splits)

subsection \<open>The properties\<close>

text \<open>A message of the unit tests, used as a concrete input.\<close>

definition sample_order :: order where
  "sample_order =
     add_item (add_item (mk_order 121 OS_NEW) (mk_item 121 45 IS_NEW ''Dal Makhani'' 1))
       (mk_item 121 67 IS_NEW ''Samosa'' 2)"

lemma wf_sample_order: "wf_order sample_order"
  by (simp add: sample_order_def wf_order_def wf_item_def positive_int_def int_max_def
      add_item_def wire_seps_def)

lemma wf_sample_message: "wf_message (message_order MT_ORDER_NEW (Some sample_order))"
  using wf_sample_order
  by (simp add: wf_message_def decoded_ok_def carries_str_def message_ctor_defs)

text \<open>
  C10: on every well-formed message, of every type, \<open>Wire::encode\<close> succeeds and
  \<open>Wire::decode\<close> of its text gives exactly that message back.
\<close>

theorem encode_decode_roundtrip:
  assumes "wf_message m"
  shows "\<exists>s. encode m = Inr s \<and> decode s = Inr m"
  using assms by (rule wire.enc_succeeds)

lemma encode_decode_roundtrip_witness:
  "\<exists>s. encode (message_order MT_ORDER_NEW (Some sample_order)) = Inr s \<and>
     decode s = Inr (message_order MT_ORDER_NEW (Some sample_order))"
  by (rule encode_decode_roundtrip [OF wf_sample_message])

text \<open>
  C30: whatever text arrives, a message that \<open>Wire::decode\<close> accepts is well formed: positive
  ids and quantities, valid statuses, at least one item, no separator inside a text field,
  and every field its type does not use at its default. Every other text is refused with
  \<open>InvalidMessage\<close>, and \<open>InvalidMessage\<close> is also the only exception of \<open>Wire::encode\<close>.
\<close>

theorem decode_result:
  "(case decode s of Inr m \<Rightarrow> decoded_ok m | Inl e \<Rightarrow> is_InvalidMessage e) \<and>
   (case encode m' of Inr t \<Rightarrow> True | Inl e \<Rightarrow> is_InvalidMessage e)"
  by (cases "decode s"; cases "encode m'")
    (simp_all add: decode_decoded_ok decode_Inl encode_Inl)

text \<open>
  C32: decoding then encoding gives a canonical text that decodes to the same message. The
  one exception are messages whose string is empty: \<open>Wire::decode\<close> accepts them and
  \<open>Wire::encode\<close> refuses them.
\<close>

theorem reencode_decoded:
  assumes "decode s = Inr m"
  shows "if carries_str (m_type m) \<and> m_str m = [] then \<exists>e. encode m = Inl e
         else \<exists>t. encode m = Inr t \<and> decode t = Inr m"
proof (cases "carries_str (m_type m) \<and> m_str m = []")
  case True
  then have "\<exists>e. encode m = Inl e"
    by (auto simp: carries_str_def encode_def encode_part_defs has_str_def)
  with True show ?thesis by simp
next
  case False
  then have "wf_message m"
    using decode_decoded_ok [OF assms] by (auto simp: wf_message_def)
  with False show ?thesis
    using wire.enc_succeeds by (simp only: if_False)
qed

lemma decode_quit_empty: "decode ''QUIT|'' = Inr (message_str MT_QUIT [])"
  using str_to_message_type_text [of MT_QUIT]
  by (simp add: decode_def decode_str_def Let_def)

lemma reencode_decoded_witness: "\<exists>e. encode (message_str MT_QUIT []) = Inl e"
  using reencode_decoded [OF decode_quit_empty]
  by (simp add: carries_str_def message_ctor_defs)

text \<open>
  Two different well-formed messages never have the same text.
\<close>

theorem encode_injective:
  assumes "wf_message m" and "wf_message m'" and "encode m = encode m'"
  shows "m = m'"
  using assms by (rule wire.enc_injective)

lemma encode_injective_witness:
  "encode (message_order MT_ORDER_NEW (Some sample_order)) \<noteq> encode (message_str MT_OK ''bye'')"
proof
  have "wf_message (message_str MT_OK ''bye'')"
    by (simp add: wf_message_def decoded_ok_def carries_str_def message_ctor_defs wire_seps_def)
  moreover assume "encode (message_order MT_ORDER_NEW (Some sample_order)) =
    encode (message_str MT_OK ''bye'')"
  ultimately have "message_order MT_ORDER_NEW (Some sample_order) = message_str MT_OK ''bye''"
    by (intro encode_injective [OF wf_sample_message])
  then show False by (simp add: message_ctor_defs)
qed

end
