(* ===== verification/Passwd_Db.thy ===== *)
theory Passwd_Db
  imports Main
begin

text \<open>
  \<open>src/passwd_db.cpp\<close>: the accepted credentials, each a user name, a slash and a password.
\<close>

definition s_passwd_db :: "string list" where
  "s_passwd_db =
    [''admin/password123'',
     ''testuser/testpass2026'',
     ''guest/guestaccess'',
     ''jdoe/qwerty789'',
     ''dev_account/devmode!'',
     ''staff_member/orange-juice-44'',
     ''student01/classroom!'',
     ''root/supersecret'',
     ''demo_user/demo-only-99'',
     ''app_tester/let-me-in-now'',
     ''alice/foobar'',
     ''bob/frotz'']"

definition authenticate :: "string \<Rightarrow> bool" where
  "authenticate cred \<longleftrightarrow> cred \<in> set s_passwd_db"

end
