(* ===== verification/Client.thy ===== *)
theory Client
  imports Server_Life Framing Wire_Correct Passwd_Db
begin

text \<open>
  \<open>include/client.h\<close> and \<open>src/client.cpp\<close>: one session. Its state is the \<open>Client\<close> object (its
  address \<open>c_id\<close>, its descriptor, mode and running flag; the message queue it owns is in the
  server's state); the server is passed along. Other sessions run at the same time: a session
  holds no lock between its calls of the server, so before each iteration of its loop any
  operations of other sessions may have happened. A loop takes these from a schedule, one list
  of operations per iteration, and with it whether the wait of the display loop for a message
  expires in this iteration; when the schedule is used up the loop is still running
  (\<open>None\<close>), so a theorem about all schedules is about every finite part of every run.
\<close>

record client =
  c_id :: client_id
  m_fd :: fd
  m_mode :: client_mode
  m_running :: bool
  m_closed :: bool

type_synonym schedule = "(server_op list \<times> bool) list"

definition sched_ops :: "schedule \<Rightarrow> server_op list" where
  "sched_ops sched = concat (map fst sched)"

lemma sched_ops_simps [simp]:
  "sched_ops [] = []" "sched_ops (x # sched) = fst x @ sched_ops sched"
  by (simp_all add: sched_ops_def)

definition client_new :: "client_id \<Rightarrow> fd \<Rightarrow> client" where
  "client_new this fd =
     \<lparr>c_id = this, m_fd = fd, m_mode = CM_INVALID, m_running = True, m_closed = False\<rparr>"

subsection \<open>send\_message\<close>

text \<open>The result is whether the message was sent; \<open>Inl\<close> only for what no handler catches.\<close>

definition client_send_message :: "message \<Rightarrow> client \<Rightarrow> bool res \<times> client" where
  "client_send_message msg this =
     (case encode msg of
        Inl e \<Rightarrow> (if is_std_exception e then Inr False else Inl e, this)
      | Inr encoded \<Rightarrow>
          (case io_send encoded (m_fd this) of
             (Inl e, d) \<Rightarrow> (if is_std_exception e then Inr False else Inl e, this\<lparr>m_fd := d\<rparr>)
           | (Inr _, d) \<Rightarrow> (Inr True, this\<lparr>m_fd := d\<rparr>)))"

subsection \<open>The updater loop\<close>

datatype flow = Next | Return

text \<open>Send a response, ignoring whether it was sent, and go on as told.\<close>

definition reply :: "message \<Rightarrow> flow \<Rightarrow> client \<Rightarrow> server \<Rightarrow> flow res \<times> client \<times> server" where
  "reply msg k this srv =
     (case client_send_message msg this of
        (Inl e, this1) \<Rightarrow> (Inl e, this1, srv)
      | (Inr _, this1) \<Rightarrow> (Inr k, this1, srv))"

definition updater_request :: "message \<Rightarrow> client \<Rightarrow> server \<Rightarrow> flow res \<times> client \<times> server" where
  "updater_request msg this srv =
     (if m_type msg = MT_QUIT then
        reply (message_str MT_OK ''bye'') Return this srv
      else if m_type msg = MT_ORDER_NEW then
        (case m_order msg of
           None \<Rightarrow> reply (message_str MT_ERROR ''missing order'') Next this srv
         | Some order \<Rightarrow>
             (case process_new_order order srv of
                (Inl e, srv1) \<Rightarrow> (Inl e, this, srv1)
              | (Inr id', srv1) \<Rightarrow>
                  reply (message_str MT_OK (''Created order id '' @ to_string id')) Next this srv1))
      else if m_type msg = MT_ITEM_UPDATE then
        (if \<not> has_order_id msg \<or> \<not> has_item_id msg \<or> \<not> has_item_status msg
         then reply (message_str MT_ERROR ''missing item fields'') Next this srv
         else case process_item_update (m_order_id msg) (m_item_id msg) (m_item_status msg) srv of
                (Inr _, srv1) \<Rightarrow> reply (message_str MT_OK ''successful item update'') Next this srv1
              | (Inl (SemanticError d), srv1) \<Rightarrow> reply (message_str MT_ERROR d) Next this srv1
              | (Inl e, srv1) \<Rightarrow> (Inl e, this, srv1))
      else if m_type msg = MT_ORDER_UPDATE then
        (if \<not> has_order_id msg \<or> \<not> has_order_status msg
         then reply (message_str MT_ERROR ''missing order fields'') Next this srv
         else case process_order_update (m_order_id msg) (m_order_status msg) srv of
                (Inr _, srv1) \<Rightarrow> reply (message_str MT_OK ''successful order update'') Next this srv1
              | (Inl (SemanticError d), srv1) \<Rightarrow> reply (message_str MT_ERROR d) Next this srv1
              | (Inl e, srv1) \<Rightarrow> (Inl e, this, srv1))
      else reply (message_str MT_ERROR ''Updater: unexpected message type'') Next this srv)"

text \<open>One iteration: the body of the \<open>try\<close>, then its two handlers.\<close>

definition updater_body :: "client \<Rightarrow> server \<Rightarrow> flow res \<times> client \<times> server" where
  "updater_body this srv =
     (case io_receive (m_fd this) of
        (Inl e, d) \<Rightarrow> (Inl e, this\<lparr>m_fd := d\<rparr>, srv)
      | (Inr raw, d) \<Rightarrow>
          let this1 = this\<lparr>m_fd := d\<rparr> in
          case decode raw of
            Inl e \<Rightarrow> (Inl e, this1, srv)
          | Inr msg \<Rightarrow> updater_request msg this1 srv)"

definition updater_iteration :: "client \<Rightarrow> server \<Rightarrow> flow res \<times> client \<times> server" where
  "updater_iteration this srv =
     (case updater_body this srv of
        (Inl e, this1, srv1) \<Rightarrow>
          if is_IOException e \<or> is_InvalidMessage e
          then (Inr Next, this1\<lparr>m_running := False\<rparr>, srv1)
          else (Inl e, this1, srv1)
      | r \<Rightarrow> r)"

fun updater_loop :: "schedule \<Rightarrow> client \<Rightarrow> server \<Rightarrow> unit res option \<times> client \<times> server" where
  "updater_loop sched this srv =
     (if \<not> m_running this then (Some (Inr ()), this, srv)
      else case sched of
        [] \<Rightarrow> (None, this, srv)
      | (ops, _) # rest \<Rightarrow>
          (case updater_iteration this (server_run ops srv) of
             (Inl e, this1, srv1) \<Rightarrow> (Some (Inl e), this1, srv1)
           | (Inr Return, this1, srv1) \<Rightarrow> (Some (Inr ()), this1, srv1)
           | (Inr Next, this1, srv1) \<Rightarrow> updater_loop rest this1 srv1))"

declare updater_loop.simps [simp del]

lemma updater_loop_step [simp]:
  "\<not> m_running c \<Longrightarrow> updater_loop sched c s = (Some (Inr ()), c, s)"
  "m_running c \<Longrightarrow> updater_loop [] c s = (None, c, s)"
  "m_running c \<Longrightarrow> updater_loop ((ops, b) # sched) c s =
     (case updater_iteration c (server_run ops s) of
        (Inl e, c1, s1) \<Rightarrow> (Some (Inl e), c1, s1)
      | (Inr Return, c1, s1) \<Rightarrow> (Some (Inr ()), c1, s1)
      | (Inr Next, c1, s1) \<Rightarrow> updater_loop sched c1 s1)"
  by (simp_all add: updater_loop.simps)

subsection \<open>The display loop\<close>

text \<open>\<open>Return\<close> is the \<open>break\<close>. The handler catches every exception.\<close>

definition display_iteration :: "bool \<Rightarrow> client \<Rightarrow> server \<Rightarrow> flow res \<times> client \<times> server" where
  "display_iteration expired this srv =
     (case client_dequeue expired (c_id this) srv of
        (Inl e, srv1) \<Rightarrow> (Inl e, this, srv1)
      | (Inr msg_ptr, srv1) \<Rightarrow>
          (case client_send_message
                  (case msg_ptr of Some msg \<Rightarrow> msg | None \<Rightarrow> message_plain MT_DISP_HEARTBEAT) this of
             (Inl e, this1) \<Rightarrow> (Inl e, this1, srv1)
           | (Inr sent, this1) \<Rightarrow> (Inr (if sent then Next else Return), this1, srv1)))"

fun display_while :: "schedule \<Rightarrow> client \<Rightarrow> server \<Rightarrow> unit res option \<times> client \<times> server" where
  "display_while sched this srv =
     (if \<not> m_running this then (Some (Inr ()), this, srv)
      else case sched of
        [] \<Rightarrow> (None, this, srv)
      | (ops, expired) # rest \<Rightarrow>
          (case display_iteration expired this (server_run ops srv) of
             (Inl (Fatal d), this1, srv1) \<Rightarrow> (Some (Inl (Fatal d)), this1, srv1)
           | (Inl e, this1, srv1) \<Rightarrow> (Some (Inr ()), this1, srv1)
           | (Inr Return, this1, srv1) \<Rightarrow> (Some (Inr ()), this1, srv1)
           | (Inr Next, this1, srv1) \<Rightarrow> display_while rest this1 srv1))"

declare display_while.simps [simp del]

lemma display_while_step [simp]:
  "\<not> m_running c \<Longrightarrow> display_while sched c s = (Some (Inr ()), c, s)"
  "m_running c \<Longrightarrow> display_while [] c s = (None, c, s)"
  "m_running c \<Longrightarrow> display_while ((ops, b) # sched) c s =
     (case display_iteration b c (server_run ops s) of
        (Inl (Fatal d), c1, s1) \<Rightarrow> (Some (Inl (Fatal d)), c1, s1)
      | (Inl e, c1, s1) \<Rightarrow> (Some (Inr ()), c1, s1)
      | (Inr Return, c1, s1) \<Rightarrow> (Some (Inr ()), c1, s1)
      | (Inr Next, c1, s1) \<Rightarrow> display_while sched c1 s1)"
  by (simp_all add: display_while.simps)

definition display_loop :: "schedule \<Rightarrow> client \<Rightarrow> server \<Rightarrow> unit res option \<times> client \<times> server" where
  "display_loop sched this srv =
     (case display_while sched this (register_display (c_id this) srv) of
        (Some (Inr _), this1, srv1) \<Rightarrow>
          (Some (Inr ()), this1, unregister_display (c_id this1) srv1)
      | r \<Rightarrow> r)"

subsection \<open>The session\<close>

definition chat_mode ::
  "schedule \<Rightarrow> client_mode \<Rightarrow> client \<Rightarrow> server \<Rightarrow> unit res option \<times> client \<times> server" where
  "chat_mode sched mode this srv =
     (case client_send_message (message_str MT_OK ''Login successful'') this of
        (Inl e, this1) \<Rightarrow> (Some (Inl e), this1, srv)
      | (Inr _, this1) \<Rightarrow>
          let this2 = this1\<lparr>m_mode := mode\<rparr> in
          if m_mode this2 = CM_DISPLAY then display_loop sched this2 srv
          else if m_mode this2 = CM_UPDATER then updater_loop sched this2 srv
          else (Some (Inl (ProtocolError ''invalid client mode'')), this2, srv))"

definition chat_body :: "schedule \<Rightarrow> client \<Rightarrow> server \<Rightarrow> unit res option \<times> client \<times> server" where
  "chat_body sched this srv =
     (case io_receive (m_fd this) of
        (Inl e, d) \<Rightarrow> (Some (Inl e), this\<lparr>m_fd := d\<rparr>, srv)
      | (Inr raw, d) \<Rightarrow>
          let this1 = this\<lparr>m_fd := d\<rparr> in
          case decode raw of
            Inl e \<Rightarrow> (Some (Inl e), this1, srv)
          | Inr login_msg \<Rightarrow>
              if m_type login_msg \<noteq> MT_LOGIN
              then (Some (Inl (ProtocolError ''expected LOGIN'')), this1, srv)
              else if \<not> has_client_mode login_msg \<or> \<not> has_str login_msg
              then (Some (Inl (ProtocolError ''LOGIN missing fields'')), this1, srv)
              else if \<not> authenticate (m_str login_msg) then
                (case client_send_message (message_str MT_ERROR ''Invalid credentials'') this1 of
                   (Inl e, this2) \<Rightarrow> (Some (Inl e), this2, srv)
                 | (Inr _, this2) \<Rightarrow> (Some (Inr ()), this2, srv))
              else chat_mode sched (m_client_mode login_msg) this1 srv)"

definition chat :: "schedule \<Rightarrow> client \<Rightarrow> server \<Rightarrow> unit res option \<times> client \<times> server" where
  "chat sched this srv =
     (case chat_body sched this srv of
        (Some (Inl e), this1, srv1) \<Rightarrow>
          (if is_std_exception e then Some (Inr ()) else Some (Inl e), this1, srv1)
      | r \<Rightarrow> r)"

text \<open>The thread: the session, then the destructor, which closes the descriptor.\<close>

definition client_thread_start ::
  "schedule \<Rightarrow> client \<Rightarrow> server \<Rightarrow> unit res option \<times> client \<times> server" where
  "client_thread_start sched client srv =
     (case chat sched client srv of
        (Some (Inr _), client1, srv1) \<Rightarrow> (Some (Inr ()), client1\<lparr>m_closed := True\<rparr>, srv1)
      | r \<Rightarrow> r)"

end
