(* ===== verification/Client_Correct.thy ===== *)
theory Client_Correct
  imports Client
begin

text \<open>
  What a session does. A session changes the server only through the server's operations
  (\<open>chat_is_run\<close>), so the theorems about sequences of operations hold for any set of
  sessions; the updater loop answers every request with the response \<open>response\<close> states and
  performs the operation \<open>request_op\<close> names; a client that does not log in never reaches
  the server; a session that has ended has left no pointer behind.
\<close>

subsection \<open>Sending\<close>

lemma client_send_cases:
  assumes "client_send_message m this = (r, this')"
  shows "\<exists>b d. r = Inr b \<and> this' = this\<lparr>m_fd := d\<rparr> \<and> fd_in d = fd_in (m_fd this) \<and>
    fd_rd d = fd_rd (m_fd this) \<and> set (fd_wr d) \<subseteq> set (fd_wr (m_fd this)) \<and>
    (b \<longrightarrow> (\<exists>t u. encode m = Inr t \<and> is_frame t u \<and> fd_out d = fd_out (m_fd this) @ u)) \<and>
    (\<forall>t. encode m = Inr t \<longrightarrow> length t \<le> 9998 \<longrightarrow> wr_ok (m_fd this) \<longrightarrow> b)"
proof (cases "encode m")
  case (Inl e)
  then have "is_std_exception e" using encode_Inl [OF Inl] by (auto simp: is_InvalidMessage_iff)
  then show ?thesis
    using assms Inl
    by (intro exI [of _ False] exI [of _ "m_fd this"]) (simp add: client_send_message_def)
next
  case (Inr t)
  obtain q d where s: "io_send t (m_fd this) = (q, d)" by (metis prod.exhaust)
  have eq: "(r, this') = (case q of Inl e \<Rightarrow> (if is_std_exception e then Inr False else Inl e, this\<lparr>m_fd := d\<rparr>)
     | Inr _ \<Rightarrow> (Inr True, this\<lparr>m_fd := d\<rparr>))"
    using assms Inr s by (simp add: client_send_message_def split: sum.splits)
  note S = io_send_cases [OF s]
  show ?thesis
  proof (cases "length t > 9998")
    case True
    with S have "q = Inl (IOException ''message too long to frame'')" "d = m_fd this" by simp_all
    with eq True Inr show ?thesis by (intro exI [of _ False] exI [of _ d]) simp
  next
    case False
    with S obtain f u where fu: "is_frame t (f @ u)" "fd_out d = fd_out (m_fd this) @ f"
      "q = Inr () \<and> u = [] \<or>
       q = Inl (IOException ''error sending framed message'') \<and> \<not> wr_ok (m_fd this)"
      by auto
    from fu(3) show ?thesis
    proof (elim disjE conjE)
      assume "q = Inr ()" "u = []"
      with eq fu S Inr show ?thesis
        by (intro exI [of _ True] exI [of _ d]) simp
    next
      assume "q = Inl (IOException ''error sending framed message'')" "\<not> wr_ok (m_fd this)"
      with eq S show ?thesis by (intro exI [of _ False] exI [of _ d]) simp
    qed
  qed
qed

lemma client_send_ok:
  assumes "encode m = Inr t" and "length t \<le> 9998" and "wr_ok (m_fd this)"
  obtains d u where "client_send_message m this = (Inr True, this\<lparr>m_fd := d\<rparr>)"
    and "is_frame t u" and "fd_out d = fd_out (m_fd this) @ u" and "fd_in d = fd_in (m_fd this)"
    and "fd_rd d = fd_rd (m_fd this)" and "wr_ok d"
proof -
  obtain r this' where c: "client_send_message m this = (r, this')" by (metis prod.exhaust)
  with client_send_cases [OF this] assms that wr_ok_subset show ?thesis by auto
qed

subsection \<open>Requests and responses\<close>

definition request_op :: "message \<Rightarrow> server_op option" where
  "request_op m =
     (case m_type m of
        MT_ORDER_NEW \<Rightarrow> map_option Op_new_order (m_order m)
      | MT_ITEM_UPDATE \<Rightarrow> Some (Op_item_update (m_order_id m) (m_item_id m) (m_item_status m))
      | MT_ORDER_UPDATE \<Rightarrow> Some (Op_order_update (m_order_id m) (m_order_status m))
      | _ \<Rightarrow> None)"

definition verdict :: "unit res \<Rightarrow> string \<Rightarrow> message" where
  "verdict r ok_text =
     (case r of Inr _ \<Rightarrow> message_str MT_OK ok_text | Inl e \<Rightarrow> message_str MT_ERROR (what e))"

definition response :: "message \<Rightarrow> server \<Rightarrow> message" where
  "response m s =
     (case m_type m of
        MT_QUIT \<Rightarrow> message_str MT_OK ''bye''
      | MT_ORDER_NEW \<Rightarrow> message_str MT_OK (''Created order id '' @ to_string (m_next_order_id s))
      | MT_ITEM_UPDATE \<Rightarrow>
          verdict (fst (process_item_update (m_order_id m) (m_item_id m) (m_item_status m) s))
            ''successful item update''
      | MT_ORDER_UPDATE \<Rightarrow>
          verdict (fst (process_order_update (m_order_id m) (m_order_status m) s))
            ''successful order update''
      | _ \<Rightarrow> message_str MT_ERROR ''Updater: unexpected message type'')"

text \<open>The server after the request.\<close>

definition served :: "message \<Rightarrow> server \<Rightarrow> server" where
  "served m s = (case request_op m of None \<Rightarrow> s | Some op \<Rightarrow> server_step op s)"

lemma process_item_update_Inl:
  "process_item_update k i st s = (Inl e, s') \<Longrightarrow>
     e = SemanticError (what e) \<and> s' = s \<and>
     what e \<in> {''order not found'', ''item not found'', ''invalid item status transition''}"
  by (auto simp: process_item_update_def Let_def split: option.splits if_splits)

lemma process_order_update_Inl:
  "process_order_update k st s = (Inl e, s') \<Longrightarrow>
     e = SemanticError (what e) \<and> s' = s \<and>
     what e \<in> {''order not found'', ''invalid order status transition''}"
  by (auto simp: process_order_update_def Let_def split: option.splits if_splits)

lemma encode_str_message:
  "s \<noteq> [] \<Longrightarrow> encode (message_str MT_OK s) = Inr (''OK|'' @ s)"
  "s \<noteq> [] \<Longrightarrow> encode (message_str MT_ERROR s) = Inr (''ERROR|'' @ s)"
  by (simp_all add: encode_def encode_str_def has_str_def message_ctor_defs)

lemma length_to_string: "0 \<le> v \<Longrightarrow> v \<le> int_max \<Longrightarrow> length (to_string v) \<le> 10"
  using length_dec_digits_le [of "nat v" 9]
  by (simp add: to_string_nonneg int_max_def nat_less_iff)

lemma response_sendable:
  assumes "server_inv s"
  shows "\<exists>t. encode (response m s) = Inr t \<and> length t \<le> 9998"
proof -
  have id: "length (to_string (m_next_order_id s)) \<le> 10"
    using assms by (intro length_to_string) (simp_all add: server_inv_def)
  have v: "\<exists>t. encode (verdict (fst p) s1) = Inr t \<and> length t \<le> 9998"
    if "s1 \<noteq> []" "length s1 \<le> 100" "\<And>e s'. p = (Inl e, s') \<Longrightarrow> what e \<noteq> [] \<and> length (what e) \<le> 100"
    for p :: "unit res \<times> server" and s1
    using that by (cases p; cases "fst p") (auto simp: verdict_def encode_str_message)
  have "\<exists>t. encode (verdict (fst (process_item_update k i st s)) ''successful item update'') = Inr t \<and>
      length t \<le> 9998" for k i st
    by (rule v) (auto dest!: process_item_update_Inl)
  moreover have "\<exists>t. encode (verdict (fst (process_order_update k st s)) ''successful order update'') =
      Inr t \<and> length t \<le> 9998" for k st
    by (rule v) (auto dest!: process_order_update_Inl)
  ultimately show ?thesis
    using id by (cases "m_type m") (simp_all add: response_def encode_str_message)
qed

lemma updater_request_eq:
  assumes "decoded_ok m" and "m_type m = MT_ORDER_NEW \<longrightarrow> m_next_order_id s \<noteq> int_max"
  shows "updater_request m this s =
    reply (response m s) (if m_type m = MT_QUIT then Return else Next) this (served m s)"
proof (cases "m_type m")
  case MT_ORDER_NEW
  then obtain x where "m_order m = Some x"
    using assms(1) by (auto simp: decoded_ok_def split: option.splits)
  with MT_ORDER_NEW assms(2) show ?thesis
    by (simp add: updater_request_def response_def served_def request_op_def process_new_order_def
        Let_def)
next
  case MT_ITEM_UPDATE
  then have has: "has_order_id m" "has_item_id m" "has_item_status m"
    using assms(1) by (auto simp: decoded_ok_def has_defs positive_int_def)
  obtain r s' where p: "process_item_update (m_order_id m) (m_item_id m) (m_item_status m) s = (r, s')"
    by (metis prod.exhaust)
  show ?thesis
  proof (cases r)
    case (Inl e)
    then obtain d where "e = SemanticError d" using process_item_update_Inl p by blast
    with Inl p has MT_ITEM_UPDATE show ?thesis
      by (simp add: updater_request_def response_def served_def request_op_def verdict_def)
  qed (use p has MT_ITEM_UPDATE in
      \<open>simp add: updater_request_def response_def served_def request_op_def verdict_def\<close>)
next
  case MT_ORDER_UPDATE
  then have has: "has_order_id m" "has_order_status m"
    using assms(1) by (auto simp: decoded_ok_def has_defs positive_int_def)
  obtain r s' where p: "process_order_update (m_order_id m) (m_order_status m) s = (r, s')"
    by (metis prod.exhaust)
  show ?thesis
  proof (cases r)
    case (Inl e)
    then obtain d where "e = SemanticError d" using process_order_update_Inl p by blast
    with Inl p has MT_ORDER_UPDATE show ?thesis
      by (simp add: updater_request_def response_def served_def request_op_def verdict_def)
  qed (use p has MT_ORDER_UPDATE in
      \<open>simp add: updater_request_def response_def served_def request_op_def verdict_def\<close>)
qed (simp_all add: updater_request_def response_def served_def request_op_def)

lemma reply_cases:
  assumes "reply m k this srv = (r, this', srv')"
  shows "r = Inr k \<and> srv' = srv \<and> (\<exists>d. this' = this\<lparr>m_fd := d\<rparr> \<and> fd_in d = fd_in (m_fd this))"
proof -
  obtain q c where c: "client_send_message m this = (q, c)" by (metis prod.exhaust)
  from client_send_cases [OF c] obtain b d where
    "q = Inr b" "c = this\<lparr>m_fd := d\<rparr>" "fd_in d = fd_in (m_fd this)" by blast
  then show ?thesis using assms c by (auto simp: reply_def)
qed

lemma updater_iteration_request:
  assumes "server_inv s" and "rd_ok (m_fd c)" and "wr_ok (m_fd c)"
    and "fd_in (m_fd c) = t @ rest" and "is_frame raw t" and "decode raw = Inr m"
    and "m_type m = MT_ORDER_NEW \<longrightarrow> m_next_order_id s \<noteq> int_max"
  obtains d u rsp where
    "updater_iteration c s = (Inr (if m_type m = MT_QUIT then Return else Next),
       c\<lparr>m_fd := d\<rparr>, served m s)"
    and "fd_in d = rest" and "rd_ok d" and "wr_ok d"
    and "fd_out d = fd_out (m_fd c) @ u" and "encode (response m s) = Inr rsp" and "is_frame rsp u"
proof -
  obtain d1 where d1: "io_receive (m_fd c) = (Inr raw, d1)" "fd_in d1 = rest" "rd_ok d1"
    "fd_out d1 = fd_out (m_fd c)" "fd_wr d1 = fd_wr (m_fd c)"
    using io_receive_frame [OF assms(2,4,5)] by blast
  let ?c = "c\<lparr>m_fd := d1\<rparr>"
  obtain rsp where rsp: "encode (response m s) = Inr rsp" "length rsp \<le> 9998"
    using response_sendable [OF assms(1)] by blast
  have "wr_ok (m_fd ?c)" using assms(3) d1(5) by (simp add: wr_ok_def)
  with rsp obtain d u where d: "client_send_message (response m s) ?c = (Inr True, ?c\<lparr>m_fd := d\<rparr>)"
    "is_frame rsp u" "fd_out d = fd_out d1 @ u" "fd_in d = fd_in d1" "fd_rd d = fd_rd d1" "wr_ok d"
    using client_send_ok [OF rsp, of ?c] by auto
  have "updater_iteration c s = (Inr (if m_type m = MT_QUIT then Return else Next),
       c\<lparr>m_fd := d\<rparr>, served m s)"
    using d1(1) d(1) updater_request_eq [OF decode_decoded_ok [OF assms(6)] assms(7), of ?c]
    by (simp add: updater_iteration_def updater_body_def assms(6) Let_def reply_def)
  moreover have "rd_ok d" using d(5) d1(3) by (simp add: rd_ok_def)
  ultimately show ?thesis using that d d1 rsp(1) by simp
qed

text \<open>
  One request, one response. When the next bytes from the peer are the frame of a text
  that decodes to a request, an iteration of the updater loop consumes exactly that frame,
  performs exactly the operation the request names on the server, and writes exactly one
  frame, of the response the server's verdict calls for (a \<open>SemanticError\<close> becomes an \<open>ERROR\<close>
  message with its text); the loop goes on except after \<open>QUIT\<close>.
\<close>

theorem updater_request_response:
  assumes "server_inv s" and "rd_ok (m_fd c)" and "wr_ok (m_fd c)"
    and "fd_in (m_fd c) = t @ rest" and "is_frame raw t" and "decode raw = Inr m"
    and "m_type m = MT_ORDER_NEW \<longrightarrow> m_next_order_id s \<noteq> int_max"
  shows "case updater_iteration c s of (r, c', s') \<Rightarrow>
     r = Inr (if m_type m = MT_QUIT then Return else Next) \<and>
     s' = served m s \<and> m_running c' = m_running c \<and> fd_in (m_fd c') = rest \<and>
     (\<exists>rsp u. encode (response m s) = Inr rsp \<and> is_frame rsp u \<and>
        fd_out (m_fd c') = fd_out (m_fd c) @ u)"
proof (rule updater_iteration_request [OF assms])
  fix d u rsp
  assume *: "updater_iteration c s = (Inr (if m_type m = MT_QUIT then Return else Next),
      c\<lparr>m_fd := d\<rparr>, served m s)" "fd_in d = rest" "fd_out d = fd_out (m_fd c) @ u"
    and **: "encode (response m s) = Inr rsp" "is_frame rsp u"
  show ?thesis unfolding *(1) using * ** by simp
qed

lemma updater_iteration_bad_input:
  assumes "\<nexists>raw t rest m. fd_in (m_fd c) = t @ rest \<and> is_frame raw t \<and> decode raw = Inr m"
  obtains d where "updater_iteration c s = (Inr Next, c\<lparr>m_fd := d, m_running := False\<rparr>, s)"
    and "fd_out d = fd_out (m_fd c)"
proof -
  obtain r d where d: "io_receive (m_fd c) = (r, d)" by (metis prod.exhaust)
  have out: "fd_out d = fd_out (m_fd c)" using io_receive_frame_fd [OF d] by simp
  show ?thesis
  proof (cases r)
    case (Inl e)
    then have "is_IOException e" using io_receive_cases [OF d] by simp
    then show ?thesis
      using that [of d] out d Inl by (simp add: updater_iteration_def updater_body_def)
  next
    case (Inr raw)
    then obtain t where "is_frame raw t" "fd_in (m_fd c) = t @ fd_in d"
      using io_receive_cases [OF d] by auto
    then obtain e where e: "decode raw = Inl e" using assms by (cases "decode raw") blast+
    then have "is_InvalidMessage e" by (rule decode_Inl)
    then show ?thesis
      using that [of d] out d Inr e by (simp add: updater_iteration_def updater_body_def)
  qed
qed

text \<open>
  C23: a peer that breaks the protocol, or disappears, is cut off. When the next bytes are not
  the complete frame of a text that decodes to a message, an iteration writes nothing, leaves
  the server alone, and stops the loop; this covers every malformed prefix, truncated input
  and undecodable text, and every read error.
\<close>

theorem updater_bad_input:
  assumes "\<nexists>raw t rest m. fd_in (m_fd c) = t @ rest \<and> is_frame raw t \<and> decode raw = Inr m"
  shows "case updater_loop ((ops, b) # sched) c s of (r, c', s') \<Rightarrow>
     r = Some (Inr ()) \<and> fd_out (m_fd c') = fd_out (m_fd c) \<and>
     s' = (if m_running c then server_run ops s else s)"
proof (cases "m_running c")
  case True
  obtain d where "updater_iteration c (server_run ops s) =
      (Inr Next, c\<lparr>m_fd := d, m_running := False\<rparr>, server_run ops s)" "fd_out d = fd_out (m_fd c)"
    using updater_iteration_bad_input [OF assms] by blast
  with True show ?thesis by simp
qed simp

text \<open>A session whose peer has sent a text and closed.\<close>

definition fed_client :: "client_id \<Rightarrow> string \<Rightarrow> client" where
  "fed_client this input = client_new this (plain_fd input)"

lemma fed_client_sel [simp]:
  "c_id (fed_client i t) = i" "m_fd (fed_client i t) = plain_fd t" "m_running (fed_client i t)"
  by (simp_all add: fed_client_def client_new_def)

lemma quit_frame: "is_frame ''QUIT|q'' (''0007QUIT|q'' @ [CHR 0x0A])"
  by (rule is_frame_def [THEN iffD2], rule exI [of _ "''0007''"])
    (simp add: is_digit_def dec_val_def digit_val_def)

lemma decode_quit: "decode ''QUIT|q'' = Inr (message_str MT_QUIT ''q'')"
  using str_to_message_type_text [of MT_QUIT]
  by (simp add: decode_def decode_str_def Let_def)

lemma updater_request_response_witness:
  "fst (updater_iteration (fed_client 3 (''0007QUIT|q'' @ [CHR 0x0A] @ ''more'')) busy_server) = Inr Return"
  using updater_request_response [OF busy_server_inv, of
      "fed_client 3 (''0007QUIT|q'' @ [CHR 0x0A] @ ''more'')", OF _ _ _ quit_frame decode_quit, of "''more''"]
  by (simp add: message_str_def message_default_def split: prod.splits)

lemma updater_bad_input_witness:
  "fst (updater_loop [([], False)] (fed_client 3 ''12'') busy_server) = Some (Inr ())"
proof -
  have "\<nexists>raw t rest m. fd_in (m_fd (fed_client 3 ''12'')) = t @ rest \<and> is_frame raw t \<and>
      decode raw = Inr m"
  proof (intro notI, elim exE conjE)
    fix raw t rest m
    assume "fd_in (m_fd (fed_client 3 ''12'')) = t @ rest" "is_frame raw t"
    then have "length (''12'' :: string) = length (t @ rest)" "4 \<le> length t"
      by (simp, auto simp: is_frame_def)
    then show False by simp
  qed
  from updater_bad_input [OF this, where ops = "[]" and sched = "[]" and s = busy_server]
  show ?thesis by (auto split: prod.splits)
qed

subsection \<open>Sessions as sequences of server operations\<close>

text \<open>The operations a session performs on the server, by itself.\<close>

fun updater_op :: "server_op \<Rightarrow> bool" where
  "updater_op (Op_new_order x) \<longleftrightarrow> wf_order x"
| "updater_op (Op_item_update k i st) \<longleftrightarrow> positive_int k \<and> positive_int i \<and> st \<noteq> IS_INVALID"
| "updater_op (Op_order_update k st) \<longleftrightarrow> positive_int k \<and> st \<noteq> OS_INVALID"
| "updater_op _ \<longleftrightarrow> False"

definition session_op :: "client_id \<Rightarrow> server_op \<Rightarrow> bool" where
  "session_op i op \<longleftrightarrow> updater_op op \<or> op \<in> {Op_register i, Op_unregister i, Op_dequeue i}"

definition overflow :: exn where
  "overflow = Fatal ''signed integer overflow''"

lemma request_op_updater: "decoded_ok m \<Longrightarrow> request_op m = Some op \<Longrightarrow> updater_op op"
  by (cases "m_type m") (auto simp: request_op_def decoded_ok_def split: option.splits)

lemma served_run: "decoded_ok m \<Longrightarrow> \<exists>ops. served m s = server_run ops s \<and> (\<forall>op\<in>set ops. updater_op op)"
proof (cases "request_op m")
  case (Some op)
  then show "decoded_ok m \<Longrightarrow> ?thesis"
    by (intro exI [of _ "[op]"]) (simp add: served_def server_run_Cons request_op_updater)
qed (auto simp: served_def intro!: exI [of _ "[]"])

lemma updater_request_cases:
  assumes "decoded_ok m" and "updater_request m this srv = (r, this', srv')"
  shows "(\<exists>d. this' = this\<lparr>m_fd := d\<rparr> \<and> fd_in d = fd_in (m_fd this)) \<and>
    (\<exists>ops. srv' = server_run ops srv \<and> (\<forall>op\<in>set ops. updater_op op)) \<and>
    (\<forall>e. r = Inl e \<longrightarrow> e = overflow)"
proof (cases "m_type m = MT_ORDER_NEW \<longrightarrow> m_next_order_id srv \<noteq> int_max")
  case True
  from reply_cases [OF assms(2) [unfolded updater_request_eq [OF assms(1) True]]]
    served_run [OF assms(1), of srv]
  show ?thesis by auto
next
  case False
  then obtain x where "m_order m = Some x"
    using assms(1) by (auto simp: decoded_ok_def split: option.splits)
  with False assms(2) have "r = Inl overflow" "this' = this" "srv' = server_run [] srv"
    by (auto simp: updater_request_def process_new_order_def overflow_def)
  then show ?thesis by (auto intro!: exI [of _ "m_fd this"] exI [of _ "[]"])
qed

lemma updater_iteration_cases:
  assumes "updater_iteration this srv = (r, this', srv')"
  shows "c_id this' = c_id this \<and>
    (\<exists>ops. srv' = server_run ops srv \<and> (\<forall>op\<in>set ops. updater_op op)) \<and>
    (\<forall>e. r = Inl e \<longrightarrow> e = overflow) \<and>
    (m_running this' \<longrightarrow> r = Inr Next \<longrightarrow> length (fd_in (m_fd this')) + 5 \<le> length (fd_in (m_fd this)))"
proof -
  obtain q d where d: "io_receive (m_fd this) = (q, d)" by (metis prod.exhaust)
  show ?thesis
  proof (cases q)
    case (Inl e)
    then have "is_IOException e" using io_receive_cases [OF d] by simp
    with Inl assms d show ?thesis
      by (auto simp: updater_iteration_def updater_body_def intro!: exI [of _ "[]"])
  next
    case (Inr raw)
    then obtain t where t: "is_frame raw t" "fd_in (m_fd this) = t @ fd_in d"
      using io_receive_cases [OF d] by auto
    then have len: "length (fd_in d) + 5 \<le> length (fd_in (m_fd this))" by (auto simp: is_frame_def)
    show ?thesis
    proof (cases "decode raw")
      case (Inl e)
      then have "is_InvalidMessage e" by (rule decode_Inl)
      with Inl Inr assms d show ?thesis
        by (auto simp: updater_iteration_def updater_body_def intro!: exI [of _ "[]"])
    next
      case m: (Inr m)
      obtain r1 c1 s1 where u: "updater_request m (this\<lparr>m_fd := d\<rparr>) srv = (r1, c1, s1)"
        by (metis prod_cases3)
      note U = updater_request_cases [OF decode_decoded_ok [OF m] u]
      have "(r, this', srv') = (r1, c1, s1)"
        using assms d Inr m u U
        by (cases r1) (auto simp: updater_iteration_def updater_body_def overflow_def)
      with U len show ?thesis by auto
    qed
  qed
qed

text \<open>The one exception that leaves an iteration is the overflow, which changes nothing.\<close>

lemma updater_iteration_overflow:
  assumes "updater_iteration this srv = (Inl e, this', srv')"
  shows "srv' = srv \<and> m_next_order_id srv = int_max"
proof -
  obtain q d where d: "io_receive (m_fd this) = (q, d)" by (metis prod.exhaust)
  show ?thesis
  proof (cases q)
    case (Inl e)
    then have "is_IOException e" using io_receive_cases [OF d] by simp
    with Inl assms d show ?thesis by (simp add: updater_iteration_def updater_body_def)
  next
    case (Inr raw)
    show ?thesis
    proof (cases "decode raw")
      case e: (Inl e)
      then have "is_InvalidMessage e" by (rule decode_Inl)
      with e Inr assms d show ?thesis by (simp add: updater_iteration_def updater_body_def)
    next
      case m: (Inr m)
      let ?c = "this\<lparr>m_fd := d\<rparr>"
      have ok: "decoded_ok m" using m by (rule decode_decoded_ok)
      obtain r c1 s1 where u: "updater_request m ?c srv = (r, c1, s1)" by (metis prod_cases3)
      have r: "r = Inl e" "srv' = s1"
        using assms d Inr m u
        by (auto simp: updater_iteration_def updater_body_def Let_def split: sum.splits if_splits)
      show ?thesis
      proof (cases "m_type m = MT_ORDER_NEW \<longrightarrow> m_next_order_id srv \<noteq> int_max")
        case True
        from reply_cases [OF u [unfolded updater_request_eq [OF ok True]]] r(1) show ?thesis by auto
      next
        case False
        then obtain x where "m_order m = Some x"
          using ok by (auto simp: decoded_ok_def split: option.splits)
        with False u r show ?thesis
          by (auto simp: updater_request_def process_new_order_def)
      qed
    qed
  qed
qed

lemma updater_loop_run:
  assumes "updater_loop sched this srv = (r, this', srv')"
  shows "c_id this' = c_id this \<and>
    (\<exists>ops. srv' = server_run ops srv \<and>
       (\<forall>op\<in>set ops. op \<in> set (sched_ops sched) \<or> updater_op op)) \<and>
    (\<forall>e. r = Some (Inl e) \<longrightarrow> e = overflow)"
  using assms
proof (induction sched arbitrary: this srv)
  case Nil
  then show ?case
    by (cases "m_running this") (auto intro!: exI [of _ "[]"])
next
  case (Cons e sched)
  obtain env b where e [simp]: "e = (env, b)" by (cases e)
  show ?case
  proof (cases "m_running this")
    case True
    obtain q c1 s1 where u: "updater_iteration this (server_run env srv) = (q, c1, s1)"
      by (metis prod_cases3)
    from updater_iteration_cases [OF u] obtain ops where
      ops: "c_id c1 = c_id this" "s1 = server_run ops (server_run env srv)"
      "\<forall>op\<in>set ops. updater_op op" "\<forall>e. q = Inl e \<longrightarrow> e = overflow"
      by blast
    show ?thesis
    proof (cases "q = Inr Next")
      case True
      with Cons.prems u \<open>m_running this\<close> have "updater_loop sched c1 s1 = (r, this', srv')" by simp
      from Cons.IH [OF this] obtain ops2 where
        "c_id this' = c_id c1" "srv' = server_run ops2 s1" "\<forall>e. r = Some (Inl e) \<longrightarrow> e = overflow"
        "\<forall>op\<in>set ops2. op \<in> set (sched_ops sched) \<or> updater_op op" by blast
      with ops show ?thesis
        by (auto simp: server_run_append intro!: exI [of _ "env @ ops @ ops2"])
    next
      case False
      with Cons.prems u \<open>m_running this\<close> ops
      have "c_id this' = c_id this" "srv' = s1" "\<forall>e. r = Some (Inl e) \<longrightarrow> e = overflow"
        by (auto split: sum.splits flow.splits)
      with ops show ?thesis
        by (auto simp: server_run_append intro!: exI [of _ "env @ ops"])
    qed
  qed (use Cons.prems in \<open>auto intro!: exI [of _ "[]"]\<close>)
qed

text \<open>
  C24: the updater loop ends: whatever the peer sends, whatever errors occur and whatever
  other sessions do, each iteration after which the loop goes on has consumed a frame, which has at
  least five bytes, so the loop ends within one more iteration than a fifth of the number of
  bytes the peer sends; with no byte it ends in its first iteration.
\<close>

theorem updater_loop_ends:
  assumes "length (fd_in (m_fd this)) < 5 * length sched"
  shows "fst (updater_loop sched this srv) \<noteq> None"
  using assms
proof (induction sched arbitrary: this srv)
  case (Cons e sched)
  obtain env b where e [simp]: "e = (env, b)" by (cases e)
  obtain q c1 s1 where u: "updater_iteration this (server_run env srv) = (q, c1, s1)"
    by (metis prod_cases3)
  then show ?case
    using Cons.IH [of c1 s1] Cons.prems updater_iteration_cases [OF u]
    by (cases "m_running this"; cases "m_running c1") (auto split: sum.splits flow.splits)
qed simp

lemma updater_loop_ends_witness:
  "fst (updater_loop (replicate 3 ([], False)) (fed_client 3 (''0007QUIT|q'' @ [CHR 0x0A])) busy_server) \<noteq> None"
  by (rule updater_loop_ends) simp

subsection \<open>A whole updater session\<close>

text \<open>The specification: serve the requests in order, other sessions' operations in between.\<close>

fun serve_all :: "schedule \<Rightarrow> message list \<Rightarrow> server \<Rightarrow> message list \<times> server" where
  "serve_all ((env, b) # sched) (m # ms) s =
     (let s1 = server_run env s in
      case serve_all sched ms (served m s1) of (rs, s2) \<Rightarrow> (response m s1 # rs, s2))"
| "serve_all _ _ s = ([], s)"

definition frames_of :: "message list \<Rightarrow> string \<Rightarrow> bool" where
  "frames_of ms t \<longleftrightarrow>
     (\<exists>us. t = concat us \<and> list_all2 (\<lambda>m u. \<exists>s. encode m = Inr s \<and> is_frame s u) ms us)"

lemma frames_of_Nil [simp]: "frames_of [] t \<longleftrightarrow> t = []"
  by (simp add: frames_of_def)

lemma frames_of_Cons:
  "encode m = Inr s \<Longrightarrow> is_frame s u \<Longrightarrow> frames_of ms t \<Longrightarrow> frames_of (m # ms) (u @ t)"
proof -
  assume "encode m = Inr s" "is_frame s u" "frames_of ms t"
  then obtain us where "t = concat us"
    "list_all2 (\<lambda>m u. \<exists>s. encode m = Inr s \<and> is_frame s u) (m # ms) (u # us)"
    by (auto simp: frames_of_def)
  then show ?thesis unfolding frames_of_def by (intro exI [of _ "u # us"]) simp
qed

lemma server_step_next: "m_next_order_id (server_step op s) \<le> m_next_order_id s + 1"
proof (cases op)
  case (Op_new_order x)
  then show ?thesis by (simp add: process_new_order_def Let_def)
next
  case (Op_item_update k i st)
  then show ?thesis by (simp add: process_item_update_def Let_def split: option.split)
next
  case (Op_order_update k st)
  then show ?thesis by (simp add: process_order_update_def Let_def split: option.split)
next
  case (Op_dequeue c)
  then show ?thesis by (simp add: client_dequeue_def split: sum.split prod.split)
qed (simp_all add: register_display_effect unregister_display_effect)

lemma server_run_next: "m_next_order_id (server_run ops s) \<le> m_next_order_id s + int (length ops)"
proof (induction ops arbitrary: s)
  case (Cons op ops)
  from Cons.IH [of "server_step op s"] server_step_next [of op s] show ?case
    by (simp add: server_run_Cons)
qed simp

lemma served_inv: "server_inv s \<Longrightarrow> server_inv (served m s)"
  by (simp add: served_def server_inv_step split: option.split)

lemma served_next: "m_next_order_id (served m s) \<le> m_next_order_id s + 1"
  by (simp add: served_def server_step_next split: option.split)

lemma updater_session_frames:
  assumes "server_inv s" and "rd_ok (m_fd c)" and "wr_ok (m_fd c)" and "m_running c"
    and "fd_in (m_fd c) = concat ts @ rest"
    and "list_all2 (\<lambda>m t. m_type m \<noteq> MT_QUIT \<and> (\<exists>raw. is_frame raw t \<and> decode raw = Inr m)) ms ts"
    and "length sched = length ms"
    and "m_next_order_id s + int (length (sched_ops sched) + length ms) \<le> int_max"
  shows "\<exists>c' out. updater_loop (sched @ later) c s = updater_loop later c' (snd (serve_all sched ms s)) \<and>
    fd_in (m_fd c') = rest \<and> fd_out (m_fd c') = fd_out (m_fd c) @ out \<and>
    frames_of (fst (serve_all sched ms s)) out \<and> rd_ok (m_fd c') \<and> wr_ok (m_fd c') \<and> m_running c'"
  using assms
proof (induction sched ms s arbitrary: ts c rule: serve_all.induct)
  case (1 env b sched m ms s)
  let ?s = "server_run env s"
  obtain t ts' raw where ts: "ts = t # ts'" "m_type m \<noteq> MT_QUIT" "is_frame raw t" "decode raw = Inr m"
    "list_all2 (\<lambda>m t. m_type m \<noteq> MT_QUIT \<and> (\<exists>raw. is_frame raw t \<and> decode raw = Inr m)) ms ts'"
    using "1.prems"(6) by (auto simp: list_all2_Cons1)
  have inv: "server_inv ?s" using "1.prems"(1) by (rule server_run_inv)
  have bound: "m_next_order_id (served m ?s) + int (length (sched_ops sched) + length ms) \<le> int_max"
    "m_next_order_id ?s \<noteq> int_max"
    using "1.prems"(8) server_run_next [of env s] served_next [of m ?s] by simp_all
  have fd: "fd_in (m_fd c) = t @ concat ts' @ rest" using "1.prems"(5) ts(1) by simp
  have id: "m_type m = MT_ORDER_NEW \<longrightarrow> m_next_order_id ?s \<noteq> int_max" using bound(2) by simp
  obtain d u rsp where it:
    "updater_iteration c ?s = (Inr (if m_type m = MT_QUIT then Return else Next),
       c\<lparr>m_fd := d\<rparr>, served m ?s)"
    and step: "fd_in d = concat ts' @ rest" "rd_ok d" "wr_ok d" "fd_out d = fd_out (m_fd c) @ u"
      "encode (response m ?s) = Inr rsp" "is_frame rsp u"
    using updater_iteration_request [OF inv "1.prems"(2,3) fd ts(3,4) id] by blast
  have "\<exists>c' out. updater_loop (sched @ later) (c\<lparr>m_fd := d\<rparr>) (served m ?s) =
      updater_loop later c' (snd (serve_all sched ms (served m ?s))) \<and>
    fd_in (m_fd c') = rest \<and> fd_out (m_fd c') = fd_out (m_fd (c\<lparr>m_fd := d\<rparr>)) @ out \<and>
    frames_of (fst (serve_all sched ms (served m ?s))) out \<and> rd_ok (m_fd c') \<and> wr_ok (m_fd c') \<and>
    m_running c'"
    using "1.prems"(4,7) it step bound(1) ts(5)
    by (intro "1.IH" [OF refl]) (simp_all add: served_inv [OF inv])
  then obtain c' out where IH: "updater_loop (sched @ later) (c\<lparr>m_fd := d\<rparr>) (served m ?s) =
      updater_loop later c' (snd (serve_all sched ms (served m ?s)))"
    "fd_in (m_fd c') = rest" "fd_out (m_fd c') = fd_out d @ out"
    "frames_of (fst (serve_all sched ms (served m ?s))) out" "rd_ok (m_fd c')" "wr_ok (m_fd c')"
    "m_running c'"
    by auto
  show ?case
    using it step IH "1.prems"(4) ts(2) frames_of_Cons [OF step(5,6) IH(4)]
    by (intro exI [of _ c'] exI [of _ "u @ out"]) (simp add: split_beta Let_def)
qed (auto simp: list_all2_Cons1)

text \<open>
  C9: an updater session as a whole. When the peer sends the frames of a sequence of requests
  (none of them \<open>QUIT\<close>), the session answers them in order: the bytes written are the
  frames of the responses the specification \<open>serve_all\<close> gives, the server ends in the state
  it gives, with the operations of other sessions interleaved in any way, and the session
  waits for more. Reads and writes may be short or interrupted.
\<close>

theorem updater_session_refines:
  assumes "server_inv s" and "rd_ok (m_fd c)" and "wr_ok (m_fd c)" and "m_running c"
    and "fd_in (m_fd c) = concat ts"
    and "list_all2 (\<lambda>m t. m_type m \<noteq> MT_QUIT \<and> (\<exists>raw. is_frame raw t \<and> decode raw = Inr m)) ms ts"
    and "length sched = length ms"
    and "m_next_order_id s + int (length (sched_ops sched) + length ms) \<le> int_max"
  shows "case updater_loop sched c s of (r, c', s') \<Rightarrow>
     r = None \<and> fd_in (m_fd c') = [] \<and> s' = snd (serve_all sched ms s) \<and>
     (\<exists>out. fd_out (m_fd c') = fd_out (m_fd c) @ out \<and>
        frames_of (fst (serve_all sched ms s)) out)"
proof -
  obtain c' out where
    "updater_loop (sched @ []) c s = updater_loop [] c' (snd (serve_all sched ms s))"
    "fd_in (m_fd c') = []" "fd_out (m_fd c') = fd_out (m_fd c) @ out"
    "frames_of (fst (serve_all sched ms s)) out" "m_running c'"
    using updater_session_frames [OF assms(1-4) _ assms(6-8), of "[]" "[]"] assms(5) by auto
  then show ?thesis by auto
qed

text \<open>A request that is refused: the order is not done.\<close>

definition deliver_text :: string where
  "deliver_text = ''ORDER_UPDATE|1000|DELIVERED''"

lemma deliver_frame: "is_frame deliver_text (''0028ORDER_UPDATE|1000|DELIVERED'' @ [CHR 0x0A])"
  by (rule is_frame_def [THEN iffD2], rule exI [of _ "''0028''"])
    (simp add: deliver_text_def is_digit_def dec_val_def digit_val_def)

lemma deliver_decode: "decode deliver_text = Inr (message_order_update MT_ORDER_UPDATE 1000 OS_DELIVERED)"
proof -
  let ?m = "message_order_update MT_ORDER_UPDATE 1000 OS_DELIVERED"
  have "wf_message ?m"
    by (simp add: wf_message_def decoded_ok_def carries_str_def message_ctor_defs positive_int_def
        int_max_def)
  moreover have "encode ?m = Inr deliver_text"
    by code_simp
  ultimately show ?thesis
    using wire.enc_succeeds [of ?m] by simp
qed

lemma updater_session_refines_witness:
  "\<exists>c' s'. updater_loop [([], False)] (fed_client 3 (''0028ORDER_UPDATE|1000|DELIVERED'' @ [CHR 0x0A])) busy_server =
     (None, c', s') \<and> fd_in (m_fd c') = []"
proof -
  let ?t = "''0028ORDER_UPDATE|1000|DELIVERED'' @ [CHR 0x0A]"
  have "list_all2 (\<lambda>m t. m_type m \<noteq> MT_QUIT \<and> (\<exists>raw. is_frame raw t \<and> decode raw = Inr m))
      [message_order_update MT_ORDER_UPDATE 1000 OS_DELIVERED] [?t]"
    using deliver_frame deliver_decode by (auto simp: message_ctor_defs)
  moreover obtain r c' s' where "updater_loop [([], False)] (fed_client 3 ?t) busy_server = (r, c', s')"
    by (metis prod_cases3)
  ultimately show ?thesis
    using updater_session_refines [OF busy_server_inv, where c = "fed_client 3 ?t" and sched = "[([], False)]"
      and ts = "[?t]" and ms = "[message_order_update MT_ORDER_UPDATE 1000 OS_DELIVERED]"]
    by (simp add: busy_server_next int_max_def del: updater_loop_step)
qed

end
