(* ===== verification/Session.thy ===== *)
theory Session
  imports Client_Correct
begin

text \<open>
  The display loop and the whole session (\<open>chat\<close>, \<open>client_thread_start\<close>): what a session can
  do to the server, when it can do it, and what it leaves behind.
\<close>

subsection \<open>The display loop\<close>

lemma display_iteration_cases:
  assumes "queues_ok srv" and "display_iteration b this srv = (r, this', srv')"
  shows "srv' = server_run (if b then [] else [Op_dequeue (c_id this)]) srv \<and> (\<exists>d. this' = this\<lparr>m_fd := d\<rparr>) \<and>
    (\<exists>k. r = Inr k)"
proof -
  obtain q s1 where q: "client_dequeue b (c_id this) srv = (Inr q, s1)"
    "s1 = server_run (if b then [] else [Op_dequeue (c_id this)]) srv"
  proof (cases b)
    case False
    obtain r s' where "client_dequeue False (c_id this) srv = (Inr r, s')"
      using client_dequeue_effect [OF assms(1)] by metis
    with False that show ?thesis by (simp add: server_run_Cons)
  qed (use that client_dequeue_expired in simp)
  let ?m = "case q of Some msg \<Rightarrow> msg | None \<Rightarrow> message_plain MT_DISP_HEARTBEAT"
  obtain k c1 where c: "client_send_message ?m this = (k, c1)" by (metis prod.exhaust)
  from client_send_cases [OF c] obtain sent d where "k = Inr sent" "c1 = this\<lparr>m_fd := d\<rparr>" by blast
  then show ?thesis
    using assms(2) q c by (auto simp: display_iteration_def)
qed

lemma display_while_run:
  assumes "server_inv srv" and "display_while sched this srv = (r, this', srv')"
  shows "c_id this' = c_id this \<and>
    (\<exists>ops. srv' = server_run ops srv \<and>
       (\<forall>op\<in>set ops. op \<in> set (sched_ops sched) \<or> op = Op_dequeue (c_id this))) \<and>
    (r = None \<or> r = Some (Inr ()))"
  using assms
proof (induction sched arbitrary: this srv)
  case Nil
  then show ?case
    by (cases "m_running this") (auto intro!: exI [of _ "[]"])
next
  case (Cons e sched)
  obtain env b where e [simp]: "e = (env, b)" by (cases e)
  let ?dq = "if b then [] else [Op_dequeue (c_id this)]"
  show ?case
  proof (cases "m_running this")
    case True
    obtain q c1 s1 where u: "display_iteration b this (server_run env srv) = (q, c1, s1)"
      by (metis prod_cases3)
    have inv: "server_inv (server_run env srv)" using Cons.prems(1) by (rule server_run_inv)
    from display_iteration_cases [OF server_invD(3) [OF inv] u] obtain k d where
      it: "s1 = server_run (env @ ?dq) srv" "c1 = this\<lparr>m_fd := d\<rparr>" "q = Inr k"
      by (auto simp: server_run_append)
    show ?thesis
    proof (cases k)
      case Next
      with Cons.prems(2) u it(3) \<open>m_running this\<close> have "display_while sched c1 s1 = (r, this', srv')"
        by simp
      moreover have "server_inv s1" unfolding it(1) using Cons.prems(1) by (rule server_run_inv)
      ultimately obtain ops2 where
        "c_id this' = c_id c1" "srv' = server_run ops2 s1" "r = None \<or> r = Some (Inr ())"
        "\<forall>op\<in>set ops2. op \<in> set (sched_ops sched) \<or> op = Op_dequeue (c_id c1)"
        using Cons.IH by blast
      with it(1,2) show ?thesis
        by (auto simp: server_run_append server_run_Cons
            intro!: exI [of _ "env @ ?dq @ ops2"])
    next
      case Return
      with Cons.prems(2) u it \<open>m_running this\<close> show ?thesis
        by (auto split: if_splits intro!: exI [of _ "env @ ?dq"])
    qed
  qed (use Cons.prems in \<open>auto intro!: exI [of _ "[]"]\<close>)
qed

lemma display_loop_run:
  assumes "server_inv srv" and "display_loop sched this srv = (r, this', srv')"
  shows "c_id this' = c_id this \<and>
    (\<exists>ops. srv' = server_run ops srv \<and>
       (\<forall>op\<in>set ops. op \<in> set (sched_ops sched) \<or>
          op \<in> {Op_register (c_id this), Op_unregister (c_id this), Op_dequeue (c_id this)})) \<and>
    (r = None \<or> r = Some (Inr ()) \<and> c_id this \<notin> set (m_display_clients srv'))"
proof -
  let ?i = "c_id this"
  obtain q c1 s1 where w: "display_while sched this (register_display ?i srv) = (q, c1, s1)"
    by (metis prod_cases3)
  have "server_inv (register_display ?i srv)"
    using server_inv_step [OF assms(1), of "Op_register ?i"] by simp
  from display_while_run [OF this w] obtain ops where
    ops: "c_id c1 = ?i" "s1 = server_run ops (register_display ?i srv)" "q = None \<or> q = Some (Inr ())"
    "\<forall>op\<in>set ops. op \<in> set (sched_ops sched) \<or> op = Op_dequeue ?i"
    by blast
  from ops(3) show ?thesis
  proof
    assume "q = None"
    with assms(2) w ops show ?thesis
      by (auto simp: display_loop_def server_run_Cons intro!: exI [of _ "Op_register ?i # ops"])
  next
    assume "q = Some (Inr ())"
    with assms(2) w ops show ?thesis
      by (auto simp: display_loop_def server_run_append server_run_Cons unregister_display_effect
          intro!: exI [of _ "Op_register ?i # ops @ [Op_unregister ?i]"])
  qed
qed

subsection \<open>The session\<close>

definition session_ops :: "client_id \<Rightarrow> schedule \<Rightarrow> server \<Rightarrow> server \<Rightarrow> bool" where
  "session_ops i sched srv srv' \<longleftrightarrow>
     (\<exists>ops. srv' = server_run ops srv \<and>
        (\<forall>op\<in>set ops. op \<in> set (sched_ops sched) \<or> session_op i op))"

text \<open>The session's client is not registered, and nobody else registers it.\<close>

definition unregistered :: "client_id \<Rightarrow> schedule \<Rightarrow> server \<Rightarrow> bool" where
  "unregistered i sched srv \<longleftrightarrow>
     Op_register i \<notin> set (sched_ops sched) \<and> i \<notin> set (m_display_clients srv)"

lemma server_step_displays:
  "m_display_clients (server_step op s) =
     (case op of
        Op_register c \<Rightarrow> List.insert c (m_display_clients s)
      | Op_unregister c \<Rightarrow> removeAll c (m_display_clients s)
      | _ \<Rightarrow> m_display_clients s)"
  by (cases op)
    (simp_all add: process_new_order_def process_item_update_def process_order_update_def Let_def
      client_dequeue_def register_display_effect unregister_display_effect
      split: option.split sum.split prod.split)

interpretation unreg: step_invariant server_step "\<lambda>op. op \<noteq> Op_register i"
  "\<lambda>s. i \<notin> set (m_display_clients s)" for i
  by unfold_locales (auto simp: server_step_displays split: server_op.splits)

lemma unregistered_run:
  "i \<notin> set (m_display_clients s) \<Longrightarrow> Op_register i \<notin> set ops \<Longrightarrow>
     i \<notin> set (m_display_clients (server_run ops s))"
  unfolding server_run_def by (rule unreg.inv_run) auto

lemma session_ops_refl: "session_ops i sched srv srv"
  by (auto simp: session_ops_def intro!: exI [of _ "[]"])

lemma chat_mode_run:
  assumes "server_inv srv" and "chat_mode sched mode this srv = (r, this', srv')"
  shows "c_id this' = c_id this \<and> session_ops (c_id this) sched srv srv' \<and>
    (\<forall>e. r = Some (Inl e) \<longrightarrow> is_std_exception e \<or> e = overflow) \<and>
    (unregistered (c_id this) sched srv \<longrightarrow> r \<noteq> None \<longrightarrow> c_id this \<notin> set (m_display_clients srv'))"
proof -
  obtain b c1 where c: "client_send_message (message_str MT_OK ''Login successful'') this = (b, c1)"
    by (metis prod.exhaust)
  from client_send_cases [OF c] obtain sent d where b: "b = Inr sent" "c1 = this\<lparr>m_fd := d\<rparr>" by blast
  let ?c = "c1\<lparr>m_mode := mode\<rparr>"
  have id: "c_id ?c = c_id this" using b by simp
  show ?thesis
  proof (cases mode)
    case CM_DISPLAY
    then have "display_loop sched ?c srv = (r, this', srv')"
      using assms(2) c b by (simp add: chat_mode_def Let_def)
    from display_loop_run [OF assms(1) this] id show ?thesis
      by (auto simp: session_ops_def session_op_def)
  next
    case CM_UPDATER
    then have "updater_loop sched ?c srv = (r, this', srv')"
      using assms(2) c b by (simp add: chat_mode_def Let_def)
    from updater_loop_run [OF this] obtain ops where
      ops: "c_id this' = c_id ?c" "srv' = server_run ops srv"
      "\<forall>op\<in>set ops. op \<in> set (sched_ops sched) \<or> updater_op op"
      "\<forall>e. r = Some (Inl e) \<longrightarrow> e = overflow" by blast
    then have "unregistered (c_id this) sched srv \<longrightarrow> Op_register (c_id this) \<notin> set ops"
      unfolding unregistered_def by (metis updater_op.simps(4))
    with ops id unregistered_run show ?thesis
      by (auto simp: session_ops_def session_op_def unregistered_def)
  next
    case CM_INVALID
    then show ?thesis
      using assms(2) c b session_ops_refl by (auto simp: chat_mode_def Let_def unregistered_def)
  qed
qed

lemma chat_body_run:
  assumes "server_inv srv" and "chat_body sched this srv = (r, this', srv')"
  shows "c_id this' = c_id this \<and> session_ops (c_id this) sched srv srv' \<and>
    (\<forall>e. r = Some (Inl e) \<longrightarrow> is_std_exception e \<or> e = overflow) \<and>
    (unregistered (c_id this) sched srv \<longrightarrow> r \<noteq> None \<longrightarrow> c_id this \<notin> set (m_display_clients srv'))"
proof -
  obtain q d where d: "io_receive (m_fd this) = (q, d)" by (metis prod.exhaust)
  show ?thesis
  proof (cases q)
    case (Inl e)
    then have "is_IOException e" using io_receive_cases [OF d] by simp
    with Inl assms(2) d session_ops_refl show ?thesis
      by (auto simp: chat_body_def is_IOException_iff unregistered_def)
  next
    case (Inr raw)
    let ?c = "this\<lparr>m_fd := d\<rparr>"
    show ?thesis
    proof (cases "decode raw")
      case (Inl e)
      then have "is_InvalidMessage e" by (rule decode_Inl)
      with Inl Inr assms(2) d session_ops_refl show ?thesis
        by (auto simp: chat_body_def is_InvalidMessage_iff unregistered_def)
    next
      case m: (Inr m)
      show ?thesis
      proof (cases "m_type m = MT_LOGIN \<and> has_client_mode m \<and> has_str m \<and> authenticate (m_str m)")
        case True
        then have "chat_mode sched (m_client_mode m) ?c srv = (r, this', srv')"
          using assms(2) d Inr m by (simp add: chat_body_def Let_def)
        from chat_mode_run [OF assms(1) this] show ?thesis by simp
      next
        case False
        obtain b c1 where c: "client_send_message (message_str MT_ERROR ''Invalid credentials'') ?c = (b, c1)"
          by (metis prod.exhaust)
        from client_send_cases [OF c] obtain sent d1 where "b = Inr sent" "c1 = ?c\<lparr>m_fd := d1\<rparr>" by blast
        then show ?thesis
          using False assms(2) d Inr m c session_ops_refl
          by (auto simp: chat_body_def Let_def unregistered_def split: if_splits)
      qed
    qed
  qed
qed

text \<open>
  Whatever the peer sends and whatever errors occur, a session's thread affects the server
  only as a sequence of the server's operations: those of other sessions, new orders that
  are well formed, updates, and the registration, deregistration and dequeuing of its own
  client. No exception leaves the thread; the one thing that can stop it otherwise is the
  overflow of the order id counter.
\<close>

theorem session_is_operations:
  assumes "server_inv srv"
  shows "case client_thread_start sched this srv of (r, this', srv') \<Rightarrow>
     (r = None \<or> r = Some (Inr ()) \<and> m_closed this' \<or> r = Some (Inl overflow)) \<and>
     (\<exists>ops. srv' = server_run ops srv \<and>
        (\<forall>op\<in>set ops. op \<in> set (sched_ops sched) \<or> session_op (c_id this) op))"
proof -
  obtain q c1 s1 where b: "chat_body sched this srv = (q, c1, s1)" by (metis prod_cases3)
  note B = chat_body_run [OF assms b]
  show ?thesis
  proof (cases q)
    case None
    with b B show ?thesis by (simp add: client_thread_start_def chat_def session_ops_def)
  next
    case (Some r)
    with b B show ?thesis
      by (cases r) (auto simp: client_thread_start_def chat_def session_ops_def overflow_def)
  qed
qed

lemma session_is_operations_witness:
  "fst (client_thread_start [] (fed_client 3 ''oops'') busy_server) \<noteq> Some (Inl (IOException ''x''))"
  using session_is_operations [OF busy_server_inv, of "[]" "fed_client 3 ''oops''"]
  by (auto simp: overflow_def split: prod.splits)

text \<open>
  C19: a display client that is gone is not written to. When a session's thread has ended, which
  destroys its \<open>Client\<close> object, the server holds no pointer to the object: it is not among
  the registered displays. (The object is registered by its own session only.)
\<close>

theorem ended_session_unregistered:
  assumes "server_inv srv" and "c_id this \<notin> set (m_display_clients srv)"
    and "Op_register (c_id this) \<notin> set (sched_ops sched)"
    and "client_thread_start sched this srv = (Some r, this', srv')"
  shows "c_id this \<notin> set (m_display_clients srv')"
proof -
  obtain q c1 s1 where b: "chat_body sched this srv = (q, c1, s1)" by (metis prod_cases3)
  then have "q \<noteq> None" "srv' = s1"
    using assms(4)
    by (auto simp: client_thread_start_def chat_def split: option.splits sum.splits if_splits)
  then show ?thesis
    using chat_body_run [OF assms(1) b] assms(2,3) by (simp add: unregistered_def)
qed

subsection \<open>Logging in\<close>

text \<open>The input starts with a login under a known user name and password.\<close>

definition logs_in :: "string \<Rightarrow> bool" where
  "logs_in input \<longleftrightarrow>
     (\<exists>raw t rest m. input = t @ rest \<and> is_frame raw t \<and> decode raw = Inr m \<and>
        m_type m = MT_LOGIN \<and> authenticate (m_str m))"

text \<open>
  C15: nothing happens without a login. A peer whose first message is not a complete \<open>LOGIN\<close>
  with one of the accepted credentials causes no operation on the server at all, whatever
  else it sends; the session ends and the descriptor is closed.
\<close>

theorem login_required:
  assumes "\<not> logs_in (fd_in (m_fd this))"
  shows "case client_thread_start sched this srv of (r, this', srv') \<Rightarrow>
     r = Some (Inr ()) \<and> srv' = srv \<and> m_closed this' \<and> m_mode this' = m_mode this"
proof -
  obtain q d where d: "io_receive (m_fd this) = (q, d)" by (metis prod.exhaust)
  have "\<exists>u c1. chat_body sched this srv = (Some u, c1, srv) \<and> m_mode c1 = m_mode this \<and>
      (\<forall>e. u = Inl e \<longrightarrow> is_std_exception e)"
  proof (cases q)
    case (Inl e)
    then have "is_IOException e" using io_receive_cases [OF d] by simp
    with Inl d show ?thesis by (auto simp: chat_body_def is_IOException_iff)
  next
    case (Inr raw)
    then obtain t where t: "is_frame raw t" "fd_in (m_fd this) = t @ fd_in d"
      using io_receive_cases [OF d] by auto
    show ?thesis
    proof (cases "decode raw")
      case (Inl e)
      then have "is_InvalidMessage e" by (rule decode_Inl)
      with Inl Inr d show ?thesis by (auto simp: chat_body_def is_InvalidMessage_iff)
    next
      case m: (Inr m)
      with t assms have no: "m_type m = MT_LOGIN \<longrightarrow> \<not> authenticate (m_str m)"
        by (auto simp: logs_in_def)
      let ?c = "this\<lparr>m_fd := d\<rparr>"
      obtain b c1 where c: "client_send_message (message_str MT_ERROR ''Invalid credentials'') ?c = (b, c1)"
        by (metis prod.exhaust)
      from client_send_cases [OF c] obtain sent d1 where "b = Inr sent" "c1 = ?c\<lparr>m_fd := d1\<rparr>" by blast
      then show ?thesis
        using no d Inr m c by (auto simp: chat_body_def Let_def)
    qed
  qed
  then show ?thesis
    by (auto simp: client_thread_start_def chat_def split: sum.splits)
qed

lemma login_required_witness:
  "snd (snd (client_thread_start [] (fed_client 3 (''0028ORDER_UPDATE|1000|DELIVERED'' @ [CHR 0x0A]))
     busy_server)) = busy_server"
proof -
  have "\<not> logs_in (''0028ORDER_UPDATE|1000|DELIVERED'' @ [CHR 0x0A])"
  proof
    assume "logs_in (''0028ORDER_UPDATE|1000|DELIVERED'' @ [CHR 0x0A])"
    then obtain raw t rest m where *: "''0028ORDER_UPDATE|1000|DELIVERED'' @ [CHR 0x0A] = t @ rest"
      "is_frame raw t" "decode raw = Inr m" "m_type m = MT_LOGIN"
      by (auto simp: logs_in_def)
    have "raw = deliver_text"
      using frame_prefix_unique [OF *(2) deliver_frame, of rest "[]"] *(1) by simp
    with *(3,4) show False by (auto simp: deliver_decode message_order_update_def message_default_def)
  qed
  with login_required [where this = "fed_client 3 (''0028ORDER_UPDATE|1000|DELIVERED'' @ [CHR 0x0A])"
      and sched = "[]" and srv = busy_server]
  show ?thesis by (auto split: prod.splits)
qed

text \<open>A display that logs in and is gone when the server writes to it the second time.\<close>

definition lost_display :: client where
  "lost_display = client_new 3
     ((plain_fd (''0027LOGIN|DISPLAY|alice/foobar'' @ [CHR 0x0A]))
        \<lparr>fd_wr := [Wr_Some 99, Wr_Fail E_IO]\<rparr>)"

lemma lost_display_run:
  "case client_thread_start [([], False)] lost_display server_init of
     (r, this', srv') \<Rightarrow> r = Some (Inr ()) \<and> m_mode this' = CM_DISPLAY"
  by code_simp

lemma ended_session_unregistered_witness:
  "3 \<notin> set (m_display_clients (snd (snd (client_thread_start [([], False)] lost_display server_init))))"
proof -
  obtain this' srv' where "client_thread_start [([], False)] lost_display server_init = (Some (Inr ()), this', srv')"
    using lost_display_run by (auto split: prod.splits)
  moreover have "c_id lost_display = 3" by (simp add: lost_display_def client_new_def)
  ultimately show ?thesis
    using ended_session_unregistered [OF server_inv_init, where this = lost_display and sched = "[([], False)]"]
    by (simp add: server_init_def)
qed

end
