(* ===== verification/Network.thy ===== *)
theory Network
  imports Except
begin

text \<open>
  Descriptors and connections: \<open>open_clientfd\<close> and \<open>open_listenfd\<close> of \<open>src/csapp.cpp\<close> with their
  error-exiting wrappers, and \<open>include/fd_guard.h\<close>. The part of the operating system they use
  is the record \<open>os\<close>: the open descriptors, the address lists \<open>getaddrinfo\<close> has allocated and
  that were not freed, what \<open>getaddrinfo\<close> answers, and whether each of the coming calls succeeds
  (all do when the list is used up). A theorem about all lists of outcomes covers every
  behaviour of the system.
\<close>

datatype call = Call_Ok | Call_Fails int    \<comment> \<open>with the value of \<open>errno\<close>\<close>

record os =
  os_fds :: "nat list"
  os_lists :: nat
  os_gai :: "int + string list"
  os_calls :: "call list"
  os_errno :: int
  os_err :: string                          \<comment> \<open>written to standard error\<close>
  os_strerror :: "int \<Rightarrow> string"
  os_gai_strerror :: "int \<Rightarrow> string"
  os_sigpipe_ignored :: bool

definition eintr :: int where
  "eintr = 4"

definition newline :: string where
  "newline = [CHR 0x0A]"

definition put_stderr :: "string \<Rightarrow> os \<Rightarrow> os" where
  "put_stderr s os = os\<lparr>os_err := os_err os @ s\<rparr>"

subsection \<open>System calls\<close>

text \<open>A call without an effect on the descriptors: \<open>connect\<close>, \<open>bind\<close>, \<open>listen\<close>, \<open>setsockopt\<close>.\<close>

definition sys_call :: "os \<Rightarrow> int \<times> os" where
  "sys_call os =
     (case os_calls os of
        [] \<Rightarrow> (0, os)
      | Call_Ok # cs \<Rightarrow> (0, os\<lparr>os_calls := cs\<rparr>)
      | Call_Fails e # cs \<Rightarrow> (-1, os\<lparr>os_calls := cs, os_errno := e\<rparr>))"

text \<open>The lowest descriptor that is not open.\<close>

definition free_fd :: "nat list \<Rightarrow> nat" where
  "free_fd fds = hd (filter (\<lambda>n. n \<notin> set fds) [0..<Suc (length fds)])"

definition sys_socket :: "os \<Rightarrow> int \<times> os" where
  "sys_socket os =
     (case sys_call os of (r, os1) \<Rightarrow>
        if r < 0 then (r, os1)
        else (int (free_fd (os_fds os1)), os1\<lparr>os_fds := free_fd (os_fds os1) # os_fds os1\<rparr>))"

text \<open>\<open>close\<close> releases the descriptor even when it reports an error.\<close>

definition sys_close :: "int \<Rightarrow> os \<Rightarrow> int \<times> os" where
  "sys_close fd os =
     (case sys_call os of (r, os1) \<Rightarrow> (r, os1\<lparr>os_fds := removeAll (nat fd) (os_fds os1)\<rparr>))"

definition sys_getaddrinfo :: "os \<Rightarrow> (int + string list) \<times> os" where
  "sys_getaddrinfo os =
     (os_gai os, case os_gai os of Inl _ \<Rightarrow> os | Inr _ \<Rightarrow> os\<lparr>os_lists := os_lists os + 1\<rparr>)"

definition sys_freeaddrinfo :: "os \<Rightarrow> os" where
  "sys_freeaddrinfo os = os\<lparr>os_lists := os_lists os - 1\<rparr>"

subsection \<open>open\_clientfd and open\_listenfd\<close>

text \<open>How the walk over the addresses is left: with a descriptor, at the end of the list, or by
  the \<open>return\<close> inside it.\<close>

datatype walk = Found int | Not_found | Left int

fun clientfd_walk :: "string list \<Rightarrow> os \<Rightarrow> walk \<times> os" where
  "clientfd_walk [] os = (Not_found, os)"
| "clientfd_walk (p # ps) os =
     (case sys_socket os of (clientfd, os1) \<Rightarrow>
        if clientfd < 0 then clientfd_walk ps os1
        else
          (case sys_call os1 of (connected, os2) \<Rightarrow>
             if connected \<noteq> -1 then (Found clientfd, os2)
             else
               (case sys_close clientfd os2 of (closed, os3) \<Rightarrow>
                  if closed < 0
                  then (Left (-1), put_stderr (''open_clientfd: close failed: '' @
                    os_strerror os3 (os_errno os3) @ newline) os3)
                  else clientfd_walk ps os3)))"

definition open_clientfd :: "string \<Rightarrow> string \<Rightarrow> os \<Rightarrow> int \<times> os" where
  "open_clientfd hostname port os =
     (case sys_getaddrinfo os of
        (Inl rc, os1) \<Rightarrow>
          (-2, put_stderr (''getaddrinfo failed ('' @ hostname @ '':'' @ port @ ''): '' @
             os_gai_strerror os1 rc @ newline) os1)
      | (Inr listp, os1) \<Rightarrow>
          (case clientfd_walk listp os1 of
             (Left r, os2) \<Rightarrow> (r, os2)
           | (Not_found, os2) \<Rightarrow> (-1, sys_freeaddrinfo os2)
           | (Found clientfd, os2) \<Rightarrow> (clientfd, sys_freeaddrinfo os2)))"

fun listenfd_walk :: "string list \<Rightarrow> os \<Rightarrow> walk \<times> os" where
  "listenfd_walk [] os = (Not_found, os)"
| "listenfd_walk (p # ps) os =
     (case sys_socket os of (listenfd, os1) \<Rightarrow>
        if listenfd < 0 then listenfd_walk ps os1
        else
          (case sys_call (snd (sys_call os1)) of (bound, os2) \<Rightarrow>
             if bound = 0 then (Found listenfd, os2)
             else
               (case sys_close listenfd os2 of (closed, os3) \<Rightarrow>
                  if closed < 0
                  then (Left (-1), put_stderr (''open_listenfd close failed: '' @
                    os_strerror os3 (os_errno os3) @ newline) os3)
                  else listenfd_walk ps os3)))"

definition open_listenfd :: "string \<Rightarrow> os \<Rightarrow> int \<times> os" where
  "open_listenfd port os =
     (case sys_getaddrinfo os of
        (Inl rc, os1) \<Rightarrow>
          (-2, put_stderr (''getaddrinfo failed (port '' @ port @ ''): '' @
             os_gai_strerror os1 rc @ newline) os1)
      | (Inr listp, os1) \<Rightarrow>
          (case listenfd_walk listp os1 of
             (Left r, os2) \<Rightarrow> (r, os2)
           | (Not_found, os2) \<Rightarrow> (-1, sys_freeaddrinfo os2)
           | (Found listenfd, os2) \<Rightarrow>
               (case sys_call (sys_freeaddrinfo os2) of (r, os3) \<Rightarrow>
                  if r < 0 then (-1, snd (sys_close listenfd os3)) else (listenfd, os3))))"

subsection \<open>Error-exiting wrappers\<close>

text \<open>They leave the process with exit status 0 (\<open>Inl 0\<close>) after printing.\<close>

definition unix_error :: "string \<Rightarrow> os \<Rightarrow> (int + 'a) \<times> os" where
  "unix_error msg os = (Inl 0, put_stderr (msg @ '': '' @ os_strerror os (os_errno os) @ newline) os)"

definition posix_error :: "int \<Rightarrow> string \<Rightarrow> os \<Rightarrow> (int + 'a) \<times> os" where
  "posix_error code msg os = (Inl 0, put_stderr (msg @ '': '' @ os_strerror os code @ newline) os)"

definition gai_error :: "int \<Rightarrow> string \<Rightarrow> os \<Rightarrow> (int + 'a) \<times> os" where
  "gai_error code msg os = (Inl 0, put_stderr (msg @ '': '' @ os_gai_strerror os code @ newline) os)"

text \<open>\<open>dns_error\<close> has the same text.\<close>

definition app_error :: "string \<Rightarrow> os \<Rightarrow> (int + 'a) \<times> os" where
  "app_error msg os = (Inl 0, put_stderr (msg @ newline) os)"

definition Open_clientfd :: "string \<Rightarrow> string \<Rightarrow> os \<Rightarrow> (int + int) \<times> os" where
  "Open_clientfd hostname port os =
     (case open_clientfd hostname port os of (rc, os1) \<Rightarrow>
        if rc < 0 then unix_error ''Open_clientfd error'' os1 else (Inr rc, os1))"

definition Open_listenfd :: "string \<Rightarrow> os \<Rightarrow> (int + int) \<times> os" where
  "Open_listenfd port os =
     (case open_listenfd port os of (rc, os1) \<Rightarrow>
        if rc < 0 then unix_error ''Open_listenfd error'' os1 else (Inr rc, os1))"

subsection \<open>FdGuard\<close>

text \<open>The destructor, however the block is left.\<close>

definition fd_guard_destroy :: "int \<Rightarrow> os \<Rightarrow> os" where
  "fd_guard_destroy m_fd os = (if m_fd \<ge> 0 then snd (sys_close m_fd os) else os)"

subsection \<open>Descriptors and address lists\<close>

lemma free_fd_fresh [simp]: "free_fd fds \<notin> set fds"
proof -
  have "\<not> {0..<Suc (length fds)} \<subseteq> set fds"
  proof
    assume "{0..<Suc (length fds)} \<subseteq> set fds"
    then have "card {0..<Suc (length fds)} \<le> card (set fds)"
      by (intro card_mono) simp_all
    then show False
      using card_length [of fds] by simp
  qed
  then have "filter (\<lambda>n. n \<notin> set fds) [0..<Suc (length fds)] \<noteq> []"
    by (auto simp: filter_empty_conv simp del: upt_Suc)
  from hd_in_set [OF this] show ?thesis
    by (simp add: free_fd_def del: upt_Suc)
qed

lemma put_stderr_sel [simp]:
  "os_fds (put_stderr t os) = os_fds os" "os_lists (put_stderr t os) = os_lists os"
  "os_calls (put_stderr t os) = os_calls os" "os_errno (put_stderr t os) = os_errno os"
  by (simp_all add: put_stderr_def)

lemma sys_freeaddrinfo_sel [simp]:
  "os_fds (sys_freeaddrinfo os) = os_fds os" "os_lists (sys_freeaddrinfo os) = os_lists os - 1"
  "os_calls (sys_freeaddrinfo os) = os_calls os"
  by (simp_all add: sys_freeaddrinfo_def)

text \<open>Steps that print nothing and keep the address lists.\<close>

definition same_report :: "os \<Rightarrow> os \<Rightarrow> bool" where
  "same_report os os' \<longleftrightarrow>
     os_lists os' = os_lists os \<and> os_err os' = os_err os \<and> os_strerror os' = os_strerror os \<and>
     os_sigpipe_ignored os' = os_sigpipe_ignored os \<and> set (os_calls os') \<subseteq> set (os_calls os)"

lemma same_report_trans: "same_report a b \<Longrightarrow> same_report b c \<Longrightarrow> same_report a c"
  by (auto simp: same_report_def)

lemma same_report_calls: "same_report a b \<Longrightarrow> x \<in> set (os_calls b) \<Longrightarrow> x \<in> set (os_calls a)"
  by (auto simp: same_report_def)

lemma sys_call_cases:
  assumes "sys_call os = (r, os')"
  shows "os_fds os' = os_fds os \<and> same_report os os' \<and>
    (r = 0 \<or> r = -1 \<and> Call_Fails (os_errno os') \<in> set (os_calls os))"
  using assms by (auto simp: sys_call_def same_report_def split: list.splits call.splits)

lemma sys_socket_cases:
  assumes "sys_socket os = (r, os')"
  shows "same_report os os' \<and>
    (r = -1 \<and> os_fds os' = os_fds os \<and> Call_Fails (os_errno os') \<in> set (os_calls os) \<or>
     (\<exists>n. r = int n \<and> n \<notin> set (os_fds os) \<and> os_fds os' = n # os_fds os))"
proof -
  obtain q os1 where c: "sys_call os = (q, os1)" by (metis prod.exhaust)
  with assms sys_call_cases [OF c] show ?thesis
    by (auto simp: sys_socket_def same_report_def split: if_splits)
qed

lemma sys_close_cases:
  assumes "sys_close (int n) os = (r, os')"
  shows "os_fds os' = removeAll n (os_fds os) \<and> same_report os os' \<and>
    (r = 0 \<or> r = -1 \<and> Call_Fails (os_errno os') \<in> set (os_calls os))"
proof -
  obtain q os1 where c: "sys_call os = (q, os1)" by (metis prod.exhaust)
  with assms sys_call_cases [OF c] show ?thesis
    by (auto simp: sys_close_def same_report_def)
qed

text \<open>
  What either walk leaves behind: its message is printed exactly when it is left because a
  \<open>close\<close> failed, and it finds nothing only if there is no address or a call failed.
\<close>

definition a_call_fails :: "os \<Rightarrow> bool" where
  "a_call_fails os = (\<exists>e. Call_Fails e \<in> set (os_calls os))"

definition walk_ok :: "string \<Rightarrow> string list \<Rightarrow> walk \<Rightarrow> os \<Rightarrow> os \<Rightarrow> bool" where
  "walk_ok note ps w os os' \<longleftrightarrow>
     os_lists os' = os_lists os \<and> set (os_calls os') \<subseteq> set (os_calls os) \<and>
     os_strerror os' = os_strerror os \<and> os_sigpipe_ignored os' = os_sigpipe_ignored os \<and>
     (case w of
        Found r \<Rightarrow> os_err os' = os_err os \<and>
          (\<exists>n. r = int n \<and> n \<notin> set (os_fds os) \<and> os_fds os' = n # os_fds os)
      | Not_found \<Rightarrow> os_err os' = os_err os \<and> os_fds os' = os_fds os \<and> (ps = [] \<or> a_call_fails os)
      | Left r \<Rightarrow> r = -1 \<and> os_fds os' = os_fds os \<and> a_call_fails os \<and>
          os_err os' = os_err os @ note @ os_strerror os (os_errno os') @ newline)"

lemma walk_ok_trans:
  assumes "walk_ok note ps w os1 os2" and "same_report os os1" and "os_fds os1 = os_fds os"
    and "a_call_fails os"
  shows "walk_ok note ps' w os os2"
  using assms by (auto simp: walk_ok_def same_report_def split: walk.splits)

text \<open>Both walks try one address the same way: a socket, then a call, then \<open>close\<close> if it failed.\<close>

lemma tried_address:
  assumes so: "sys_socket os = (r, os1)" and st: "os_fds os1' = os_fds os1" "same_report os1 os1'"
    and co: "sys_call os1' = (c, os2)" and cl: "sys_close r os2 = (k, os3)"
  obtains (no_socket) "r = -1" "same_report os os1" "os_fds os1 = os_fds os" "a_call_fails os"
  | (success) n where "r = int n" "c = 0" "n \<notin> set (os_fds os)" "os_fds os2 = n # os_fds os" "same_report os os2"
  | (close_fails) n where "r = int n" "c = -1" "k = -1" "same_report os os3" "os_fds os3 = os_fds os" "a_call_fails os"
  | (next_one) n where "r = int n" "c = -1" "k = 0" "same_report os os3" "os_fds os3 = os_fds os" "a_call_fails os"
proof -
  note S = sys_socket_cases [OF so] and C = sys_call_cases [OF co]
  show ?thesis
  proof (cases "\<exists>n. r = int n \<and> n \<notin> set (os_fds os) \<and> os_fds os1 = n # os_fds os")
    case False
    then have "r = -1" "os_fds os1 = os_fds os" "Call_Fails (os_errno os1) \<in> set (os_calls os)" "same_report os os1"
      using S by auto
    then show ?thesis by (intro no_socket) (auto simp: a_call_fails_def)
  next
    case True
    then obtain n where n: "r = int n" "n \<notin> set (os_fds os)" "os_fds os1 = n # os_fds os" by blast
    have r1: "same_report os os1'" using S st(2) same_report_trans by blast
    have r2: "same_report os os2" using r1 C same_report_trans by blast
    note K = sys_close_cases [OF cl [unfolded n(1)]]
    have r3: "same_report os os3" using r2 K same_report_trans by blast
    have f2: "os_fds os2 = n # os_fds os" and f3: "os_fds os3 = os_fds os"
      using C K st(1) n(2,3) by auto
    show ?thesis
    proof (cases "c = 0")
      case True
      with n f2 r2 show ?thesis by (intro success)
    next
      case False
      then have "c = -1" "a_call_fails os"
        using C same_report_calls [OF r1] by (auto simp: a_call_fails_def)
      with n K r3 f3 show ?thesis
        using close_fails next_one by blast
    qed
  qed
qed

lemma clientfd_walk_ok:
  "clientfd_walk ps os = (w, os') \<Longrightarrow> walk_ok ''open_clientfd: close failed: '' ps w os os'"
proof (induction ps os arbitrary: w os' rule: clientfd_walk.induct)
  case (2 p ps os)
  obtain r os1 where so: "sys_socket os = (r, os1)" by (metis prod.exhaust)
  obtain c os2 where co: "sys_call os1 = (c, os2)" by (metis prod.exhaust)
  obtain k os3 where cl: "sys_close r os2 = (k, os3)" by (metis prod.exhaust)
  have st: "os_fds os1 = os_fds os1" "same_report os1 os1" by (simp_all add: same_report_def)
  from so st co cl show ?case
  proof (cases rule: tried_address)
    case no_socket
    then have "walk_ok ''open_clientfd: close failed: '' ps w os1 os'"
      using "2.prems" so by (intro "2.IH"(1) [OF so [symmetric]]) simp_all
    then show ?thesis by (rule walk_ok_trans) fact+
  next
    case (success n)
    then show ?thesis
      using "2.prems" so co by (auto simp: walk_ok_def same_report_def)
  next
    case (close_fails n)
    then show ?thesis
      using "2.prems" so co cl by (auto simp: walk_ok_def same_report_def put_stderr_def)
  next
    case (next_one n)
    then have "clientfd_walk ps os3 = (w, os')"
      using "2.prems" so co cl by simp
    then have "walk_ok ''open_clientfd: close failed: '' ps w os3 os'"
      using next_one by (intro "2.IH"(2) [OF so [symmetric] _ co [symmetric] _ cl [symmetric]]) simp_all
    then show ?thesis by (rule walk_ok_trans) fact+
  qed
qed (simp add: walk_ok_def)

lemma listenfd_walk_ok:
  "listenfd_walk ps os = (w, os') \<Longrightarrow> walk_ok ''open_listenfd close failed: '' ps w os os'"
proof (induction ps os arbitrary: w os' rule: listenfd_walk.induct)
  case (2 p ps os)
  obtain r os1 where so: "sys_socket os = (r, os1)" by (metis prod.exhaust)
  obtain q os2' where opt: "sys_call os1 = (q, os2')" by (metis prod.exhaust)
  obtain c os2 where co: "sys_call os2' = (c, os2)" by (metis prod.exhaust)
  obtain k os3 where cl: "sys_close r os2 = (k, os3)" by (metis prod.exhaust)
  have st: "os_fds os2' = os_fds os1" "same_report os1 os2'" using sys_call_cases [OF opt] by simp_all
  have co': "sys_call (snd (sys_call os1)) = (c, os2)" using opt co by simp
  from so st co cl show ?case
  proof (cases rule: tried_address)
    case no_socket
    then have "walk_ok ''open_listenfd close failed: '' ps w os1 os'"
      using "2.prems" so by (intro "2.IH"(1) [OF so [symmetric]]) simp_all
    then show ?thesis by (rule walk_ok_trans) fact+
  next
    case (success n)
    then show ?thesis
      using "2.prems" so opt co by (auto simp: walk_ok_def same_report_def)
  next
    case (close_fails n)
    then show ?thesis
      using "2.prems" so opt co cl by (auto simp: walk_ok_def same_report_def put_stderr_def)
  next
    case (next_one n)
    then have "listenfd_walk ps os3 = (w, os')"
      using "2.prems" so opt co cl by simp
    then have "walk_ok ''open_listenfd close failed: '' ps w os3 os'"
      using next_one by (intro "2.IH"(2) [OF so [symmetric] _ co' [symmetric] _ cl [symmetric]]) simp_all
    then show ?thesis by (rule walk_ok_trans) fact+
  qed
qed (simp add: walk_ok_def)

text \<open>The contract of both functions: the descriptors, and what they report and free.\<close>

definition opens_fd :: "int \<Rightarrow> os \<Rightarrow> os \<Rightarrow> bool" where
  "opens_fd r os os' \<longleftrightarrow>
     (if 0 \<le> r then nat r \<notin> set (os_fds os) \<and> os_fds os' = nat r # os_fds os
      else r \<in> {-1, -2} \<and> os_fds os' = os_fds os) \<and>
     os_sigpipe_ignored os' = os_sigpipe_ignored os"

definition reports :: "string \<Rightarrow> string \<Rightarrow> int \<Rightarrow> os \<Rightarrow> os \<Rightarrow> bool" where
  "reports unresolved close_failed r os os' \<longleftrightarrow>
     (case os_gai os of
        Inl rc \<Rightarrow> r = -2 \<and> os_lists os' = os_lists os \<and>
          os_err os' = os_err os @ unresolved @ os_gai_strerror os rc @ newline
      | Inr ps \<Rightarrow> r \<noteq> -2 \<and> (0 \<le> r \<or> ps = [] \<or> a_call_fails os) \<and>
          (os_lists os' = os_lists os \<and> os_err os' = os_err os \<or>
           os_lists os' = os_lists os + 1 \<and> r = -1 \<and>
           os_err os' = os_err os @ close_failed @ os_strerror os (os_errno os') @ newline))"

lemma sys_freeaddrinfo_err [simp]:
  "os_err (sys_freeaddrinfo os) = os_err os" "os_strerror (sys_freeaddrinfo os) = os_strerror os"
  "os_sigpipe_ignored (sys_freeaddrinfo os) = os_sigpipe_ignored os"
  by (simp_all add: sys_freeaddrinfo_def)

lemma open_clientfd_result:
  assumes "open_clientfd hostname port os = (r, os')"
  shows "opens_fd r os os' \<and>
    reports (''getaddrinfo failed ('' @ hostname @ '':'' @ port @ ''): '') ''open_clientfd: close failed: '' r os os'"
proof (cases "os_gai os")
  case (Inl rc)
  with assms show ?thesis
    by (auto simp: open_clientfd_def sys_getaddrinfo_def opens_fd_def reports_def put_stderr_def)
next
  case (Inr ps)
  let ?os1 = "os\<lparr>os_lists := os_lists os + 1\<rparr>"
  obtain w os2 where w: "clientfd_walk ps ?os1 = (w, os2)" by (metis prod.exhaust)
  with assms Inr have "(r, os') = (case w of Left r \<Rightarrow> (r, os2) | Not_found \<Rightarrow> (-1, sys_freeaddrinfo os2)
      | Found fd \<Rightarrow> (fd, sys_freeaddrinfo os2))"
    by (simp add: open_clientfd_def sys_getaddrinfo_def)
  with clientfd_walk_ok [OF w] Inr show ?thesis
    by (cases w) (auto simp: opens_fd_def walk_ok_def reports_def a_call_fails_def)
qed

lemma open_listenfd_result:
  assumes "open_listenfd port os = (r, os')"
  shows "opens_fd r os os' \<and>
    reports (''getaddrinfo failed (port '' @ port @ ''): '') ''open_listenfd close failed: '' r os os'"
proof (cases "os_gai os")
  case (Inl rc)
  with assms show ?thesis
    by (auto simp: open_listenfd_def sys_getaddrinfo_def opens_fd_def reports_def put_stderr_def)
next
  case (Inr ps)
  let ?os1 = "os\<lparr>os_lists := os_lists os + 1\<rparr>"
  obtain w os2 where w: "listenfd_walk ps ?os1 = (w, os2)" by (metis prod.exhaust)
  obtain l os3 where l: "sys_call (sys_freeaddrinfo os2) = (l, os3)" by (metis prod.exhaust)
  note W = listenfd_walk_ok [OF w]
  show ?thesis
  proof (cases w)
    case (Found fd)
    then obtain n where n: "fd = int n" "n \<notin> set (os_fds os)" "os_fds os2 = n # os_fds os"
      "os_lists os2 = os_lists os + 1" "os_err os2 = os_err os"
      "os_sigpipe_ignored os2 = os_sigpipe_ignored os" "set (os_calls os2) \<subseteq> set (os_calls os)"
      using W by (auto simp: walk_ok_def)
    obtain k os4 where cl: "sys_close (int n) os3 = (k, os4)" by (metis prod.exhaust)
    note L = sys_call_cases [OF l] and K = sys_close_cases [OF cl]
    have "(r, os') = (if l < 0 then (-1, os4) else (int n, os3))"
      using assms Inr w l cl Found n(1) by (simp add: open_listenfd_def sys_getaddrinfo_def split: if_splits)
    moreover have "a_call_fails os" if "l < 0"
      using L that n(7) by (auto simp: a_call_fails_def)
    ultimately show ?thesis
      using n L K Inr by (auto simp: opens_fd_def reports_def same_report_def split: if_splits)
  qed (use assms Inr w W in
      \<open>auto simp: open_listenfd_def sys_getaddrinfo_def opens_fd_def walk_ok_def reports_def a_call_fails_def\<close>)
qed

lemma open_clientfd_opens: "open_clientfd hostname port os = (r, os') \<Longrightarrow> opens_fd r os os'"
  using open_clientfd_result by blast

lemma open_listenfd_opens: "open_listenfd port os = (r, os') \<Longrightarrow> opens_fd r os os'"
  using open_listenfd_result by blast

text \<open>
  C28: opening a connection or a listening socket neither leaks nor steals a descriptor. Whatever
  the system calls answer, a non-negative result is one new descriptor and nothing else is
  opened or closed; a negative result leaves the open descriptors as they were, including those
  of the addresses tried before. The result is -2, with the reason printed, exactly when the
  name cannot be resolved; otherwise it is -1 only if there is no address or a call failed, and
  the address list is freed unless the message about a failed \<open>close\<close> was printed: so not
  when \<open>listen\<close>, or any other call, failed.
\<close>

theorem sockets_exact:
  "(case open_clientfd hostname port os of (r, os') \<Rightarrow>
      opens_fd r os os' \<and>
      reports (''getaddrinfo failed ('' @ hostname @ '':'' @ port @ ''): '')
        ''open_clientfd: close failed: '' r os os') \<and>
   (case open_listenfd port os of (r, os') \<Rightarrow>
      opens_fd r os os' \<and>
      reports (''getaddrinfo failed (port '' @ port @ ''): '') ''open_listenfd close failed: '' r os os')"
  using open_clientfd_result open_listenfd_result by (auto split: prod.split)

text \<open>The exception is real: a failed \<open>close\<close> returns without freeing the list.\<close>

lemma address_list_not_freed:
  assumes "os_gai os = Inr (p # ps)" and "os_calls os = Call_Ok # Call_Fails e # Call_Fails e' # cs"
  shows "case open_clientfd hostname port os of (r, os') \<Rightarrow> r = -1 \<and> os_lists os' = os_lists os + 1"
  using assms
  by (simp add: open_clientfd_def sys_getaddrinfo_def sys_socket_def sys_call_def sys_close_def)

text \<open>Closing what was opened restores the table; a guard over a failed open does nothing.\<close>

lemma fd_guard_closes:
  assumes "opens_fd r os os'" and "os_fds os'' = os_fds os'"
  shows "os_fds (fd_guard_destroy r os'') = os_fds os"
proof (cases "0 \<le> r")
  case True
  obtain k os3 where cl: "sys_close r os'' = (k, os3)" by (metis prod.exhaust)
  have "os_fds os3 = removeAll (nat r) (os_fds os'')"
    using sys_close_cases [of "nat r" os'' k os3] cl True by simp
  with assms cl True show ?thesis
    by (simp add: fd_guard_destroy_def opens_fd_def)
next
  case False
  with assms show ?thesis by (simp add: fd_guard_destroy_def opens_fd_def)
qed

end
