(* ===== verification/Client_Util.thy ===== *)
theory Client_Util
  imports Wire_Correct Framing Network
begin

text \<open>
  \<open>src/client_util.cpp\<close>, shared by the two client programs, and the console they use: the
  lines still to be read from standard input, and what was written to standard output and
  standard error. A descriptor is its number in the table \<open>os\<close>; the bytes that travel over a
  connection, once it is open, are a separate value of type \<open>fd\<close>.
\<close>

record console =
  con_in :: "string list"
  con_out :: string
  con_err :: string

definition put_out :: "string \<Rightarrow> console \<Rightarrow> console" where
  "put_out s con = con\<lparr>con_out := con_out con @ s\<rparr>"

definition put_err :: "string \<Rightarrow> console \<Rightarrow> console" where
  "put_err s con = con\<lparr>con_err := con_err con @ s\<rparr>"

definition endl :: string where
  "endl = [CHR 0x0A]"

text \<open>\<open>std::getline\<close> into an empty string: at the end of the input it stays empty.\<close>

definition getline :: "console \<Rightarrow> bool \<times> string \<times> console" where
  "getline con =
     (case con_in con of
        [] \<Rightarrow> (False, [], con)
      | line # rest \<Rightarrow> (True, line, con\<lparr>con_in := rest\<rparr>))"

definition connect_to_server :: "string \<Rightarrow> string \<Rightarrow> os \<Rightarrow> int res \<times> os" where
  "connect_to_server hostname port os =
     (case open_clientfd hostname port os of (fd, os1) \<Rightarrow>
        if fd < 0 then (Inl (IOException ''could not connect to server''), os1)
        else (Inr fd, os1))"

text \<open>
  How a client program ends: with an exit code, by an exception that no handler catches, or by a signal.
  Neither program changes the disposition of \<open>SIGPIPE\<close>. A write that fails with \<open>EPIPE\<close>, because the
  server has closed the connection, raises it; unless the process was started with the signal
  ignored, it ends there, before the exception is thrown, and the system closes its descriptors.
  The writes a session made are the outcomes that its connection \<open>d'\<close> no longer has to come.
\<close>

datatype program_end = Exit int | Terminate exn | Signalled int

definition sigpipe :: int where
  "sigpipe = 13"

definition broken_pipe :: "fd \<Rightarrow> fd \<Rightarrow> bool" where
  "broken_pipe d d' \<longleftrightarrow> Wr_Fail E_PIPE \<in> set (take (length (fd_wr d) - length (fd_wr d')) (fd_wr d))"

text \<open>The handlers of both programs' \<open>main\<close>.\<close>

definition client_handlers :: "int + exn \<Rightarrow> console \<Rightarrow> os \<Rightarrow> program_end \<times> console \<times> os" where
  "client_handlers r con os =
     (case r of
        Inl code \<Rightarrow> (Exit code, con, os)
      | Inr e \<Rightarrow>
          if is_Exception e then (Exit 1, put_err (''Error: '' @ what e @ endl) con, os)
          else if is_std_exception e then (Exit 1, put_err (''Error: '' @ what e @ endl) con, os)
          else (Terminate e, con, os))"

text \<open>
  The end of a session over the descriptor \<open>filedescriptor\<close>: the destructor of the \<open>FdGuard\<close> closes it
  when the \<open>try\<close> block is left, before a handler runs.
\<close>

definition client_session_end ::
  "int \<Rightarrow> fd \<Rightarrow> (int + exn) \<times> fd \<times> console \<Rightarrow> os \<Rightarrow> program_end \<times> console \<times> os" where
  "client_session_end filedescriptor conn ended os =
     (case ended of (r, d, con) \<Rightarrow>
        if broken_pipe conn d \<and> \<not> os_sigpipe_ignored os
        then (Signalled sigpipe, con, os\<lparr>os_fds := []\<rparr>)
        else client_handlers r con (fd_guard_destroy filedescriptor os))"

definition prompt_for_credentials :: "console \<Rightarrow> string \<times> console" where
  "prompt_for_credentials con =
     (case getline (put_out ''username: '' con) of (_, username, con1) \<Rightarrow>
      case getline (put_out ''password: '' con1) of (_, password, con2) \<Rightarrow>
        (username @ ''/'' @ password, con2))"

definition send_message :: "fd \<Rightarrow> message \<Rightarrow> unit res \<times> fd" where
  "send_message fd msg =
     (case encode msg of
        Inl e \<Rightarrow> (Inl e, fd)
      | Inr encoded \<Rightarrow> io_send encoded fd)"

definition receive_message :: "fd \<Rightarrow> message res \<times> fd" where
  "receive_message fd =
     (case io_receive fd of
        (Inl e, fd1) \<Rightarrow> (Inl e, fd1)
      | (Inr encoded, fd1) \<Rightarrow> (decode encoded, fd1))"

text \<open>The helper both programs define.\<close>

definition send_request_receive_response :: "fd \<Rightarrow> message \<Rightarrow> message res \<times> fd" where
  "send_request_receive_response fd request =
     (case send_message fd request of
        (Inl e, fd1) \<Rightarrow> (Inl e, fd1)
      | (Inr _, fd1) \<Rightarrow> receive_message fd1)"

lemma receive_message_consumes:
  assumes "receive_message d = (Inr m, d')"
  shows "length (fd_in d') < length (fd_in d)" and "decoded_ok m"
proof -
  obtain r d1 where r: "io_receive d = (r, d1)" by (metis prod.exhaust)
  with assms obtain raw where raw: "r = Inr raw" "decode raw = Inr m" "d' = d1"
    by (cases r) (auto simp: receive_message_def)
  then obtain t where "is_frame raw t" "fd_in d = t @ fd_in d'"
    using io_receive_cases [OF r] by auto
  then show "length (fd_in d') < length (fd_in d)" by (auto simp: is_frame_def)
  show "decoded_ok m" using raw(2) by (rule decode_decoded_ok)
qed

text \<open>
  A message on the wire: its text, framed. The two layers together are a codec, so what one
  side sends the other receives.
\<close>

definition on_wire :: "message \<Rightarrow> string \<Rightarrow> bool" where
  "on_wire m t \<longleftrightarrow> (\<exists>s. encode m = Inr s \<and> is_frame s t)"

text \<open>A message whose text fits a frame.\<close>

definition frame_fits :: "message \<Rightarrow> bool" where
  "frame_fits m \<longleftrightarrow> (case encode m of Inr t \<Rightarrow> length t \<le> 9998 | Inl _ \<Rightarrow> False)"

lemma receive_on_wire:
  assumes "rd_ok d" and "fd_in d = t @ rest" and "on_wire m t" and "wf_message m"
  shows "\<exists>d'. receive_message d = (Inr m, d') \<and> fd_in d' = rest \<and> rd_ok d' \<and> fd_out d' = fd_out d \<and>
    fd_wr d' = fd_wr d"
proof -
  obtain s where s: "encode m = Inr s" "is_frame s t" using assms(3) by (auto simp: on_wire_def)
  then have "decode s = Inr m" using wire.enc_succeeds [OF assms(4)] by auto
  with io_receive_frame [OF assms(1,2) s(2)] show ?thesis by (auto simp: receive_message_def)
qed

lemma receive_message_empty:
  assumes "fd_in d = []"
  shows "\<exists>e d'. receive_message d = (Inl e, d') \<and> is_IOException e \<and> fd_in d' = []"
proof -
  obtain r d1 where r: "io_receive d = (r, d1)" by (metis prod.exhaust)
  have "fd_in d1 = []"
    using r assms by (auto simp: io_receive_def split: prod.splits sum.splits if_splits
        dest!: rio_readn_result)
  moreover have "\<exists>e. r = Inl e \<and> is_IOException e"
    using io_receive_cases [OF r] assms by (cases r) (auto simp: is_frame_def)
  ultimately show ?thesis using r by (auto simp: receive_message_def)
qed

interpretation message_stack:
  codec_stack encode decode wf_message frame unframe "\<lambda>s. length s \<le> 9998"
  by unfold_locales

end
