(* ===== verification/Display.thy ===== *)
theory Display
  imports Client_Util Ord_Map
begin

text \<open>
  \<open>src/display_main.cpp\<close>: the display client. Its state is the map of orders, ordered by id;
  each message from the server updates the map, and the whole map is printed again. The main
  loop ends with the exception that leaves it; it consumes a frame per iteration.
\<close>

type_synonym orders = "(int \<times> order) list"

definition clear_screen :: string where
  "clear_screen = [CHR 0x1B] @ ''[2J'' @ [CHR 0x1B] @ ''[H''"

subsection \<open>Printing\<close>

fun print_items :: "order \<Rightarrow> nat list \<Rightarrow> string res" where
  "print_items order [] = Inr []"
| "print_items order (i # is) =
     bindR (order_at order (int i)) (\<lambda>item.
     bindR (print_items order is) (\<lambda>rest.
       Inr (''  Item '' @ to_string (i_id item) @ '': '' @ item_status_to_str (i_status item) @ endl @
            ''    '' @ i_desc item @ '', Quantity '' @ to_string (i_qty item) @ endl @ rest)))"

definition print_order :: "order \<Rightarrow> string res" where
  "print_order order =
     bindR (print_items order [0..<nat (get_num_items order)]) (\<lambda>items.
       Inr (''Order '' @ to_string (o_id order) @ '': '' @ order_status_to_str (o_status order) @
            endl @ items))"

fun print_all_orders :: "orders \<Rightarrow> string res" where
  "print_all_orders [] = Inr []"
| "print_all_orders (i # rest) =
     bindR (print_order (snd i)) (\<lambda>s. bindR (print_all_orders rest) (\<lambda>t. Inr (s @ t)))"

definition refresh_display :: "orders \<Rightarrow> console \<Rightarrow> unit res \<times> console" where
  "refresh_display orders con =
     (case print_all_orders orders of
        Inl e \<Rightarrow> (Inl e, put_out clear_screen con)
      | Inr s \<Rightarrow> (Inr (), put_out (clear_screen @ s) con))"

text \<open>What is printed, as a function; printing never throws.\<close>

definition render_item :: "item \<Rightarrow> string" where
  "render_item item =
     ''  Item '' @ to_string (i_id item) @ '': '' @ item_status_to_str (i_status item) @ endl @
     ''    '' @ i_desc item @ '', Quantity '' @ to_string (i_qty item) @ endl"

definition render_order :: "order \<Rightarrow> string" where
  "render_order x =
     ''Order '' @ to_string (o_id x) @ '': '' @ order_status_to_str (o_status x) @ endl @
     concat (map render_item (o_items x))"

definition render :: "orders \<Rightarrow> string" where
  "render os = concat (map (\<lambda>p. render_order (snd p)) os)"

lemma print_items_eq:
  "\<forall>i\<in>set is. i < length (o_items x) \<Longrightarrow>
     print_items x is = Inr (concat (map (\<lambda>i. render_item (o_items x ! i)) is))"
  by (induction "is") (simp_all add: render_item_def)

lemma print_order_eq: "print_order x = Inr (render_order x)"
proof -
  have "print_items x [0..<length (o_items x)] = Inr (concat (map render_item (o_items x)))"
    by (simp add: print_items_eq map_nth flip: map_map [unfolded comp_def, of render_item "\<lambda>i. o_items x ! i"])
  then show ?thesis by (simp add: print_order_def get_num_items_def render_order_def)
qed

lemma print_all_orders_eq: "print_all_orders os = Inr (render os)"
  by (induction os) (simp_all add: print_order_eq render_def)

lemma refresh_display_eq [simp]:
  "refresh_display os con = (Inr (), put_out (clear_screen @ render os) con)"
  by (simp add: refresh_display_def print_all_orders_eq)

subsection \<open>Message handlers\<close>

definition handle_disp_order :: "message \<Rightarrow> orders \<Rightarrow> orders res" where
  "handle_disp_order msg orders =
     (case m_order msg of
        None \<Rightarrow> Inl (ProtocolError ''missing order in DISP_ORDER'')
      | Some order \<Rightarrow> Inr (om_assign orders (o_id order) (order_duplicate order)))"

definition handle_disp_item_update :: "message \<Rightarrow> orders \<Rightarrow> orders res" where
  "handle_disp_item_update msg orders =
     (if \<not> has_order_id msg \<or> \<not> has_item_id msg \<or> \<not> has_item_status msg
      then Inl (ProtocolError ''missing fields in DISP_ITEM_UPDATE'')
      else case om_find orders (m_order_id msg) of
        None \<Rightarrow> Inl (ProtocolError ''unknown order id in DISP_ITEM_UPDATE'')
      | Some order \<Rightarrow>
          (case find_item order (m_item_id msg) of
             None \<Rightarrow> Inl (ProtocolError ''unknown item id in DISP_ITEM_UPDATE'')
           | Some item \<Rightarrow>
               Inr (om_assign orders (m_order_id msg)
                 (item_set_status order item (m_item_status msg)))))"

definition handle_disp_order_update :: "message \<Rightarrow> orders \<Rightarrow> orders res" where
  "handle_disp_order_update msg orders =
     (if \<not> has_order_id msg \<or> \<not> has_order_status msg
      then Inl (ProtocolError ''missing fields in DISP_ORDER_UPDATE'')
      else
        let order_id = m_order_id msg; order_status = m_order_status msg in
        case om_find orders order_id of
          None \<Rightarrow> Inl (ProtocolError ''unknown order id in DISP_ORDER_UPDATE'')
        | Some order \<Rightarrow>
            if order_status = OS_DELIVERED then Inr (om_erase orders order_id)
            else Inr (om_assign orders order_id (order_set_status order_status order)))"

text \<open>The dispatch of the main loop: the new map, and whether to refresh.\<close>

definition display_handle :: "message \<Rightarrow> orders \<Rightarrow> (orders \<times> bool) res" where
  "display_handle msg orders =
     (if m_type msg = MT_DISP_ORDER then
        bindR (handle_disp_order msg orders) (\<lambda>os. Inr (os, True))
      else if m_type msg = MT_DISP_ITEM_UPDATE then
        bindR (handle_disp_item_update msg orders) (\<lambda>os. Inr (os, True))
      else if m_type msg = MT_DISP_ORDER_UPDATE then
        bindR (handle_disp_order_update msg orders) (\<lambda>os. Inr (os, True))
      else if m_type msg = MT_DISP_HEARTBEAT then Inr (orders, False)
      else Inl (ProtocolError ''unexpected message type in display loop''))"

subsection \<open>The main loop and the program\<close>

function display_main_loop :: "fd \<Rightarrow> orders \<Rightarrow> console \<Rightarrow> exn \<times> fd \<times> orders \<times> console" where
  "display_main_loop fd orders con =
     (case receive_message fd of
        (Inl e, fd1) \<Rightarrow> (e, fd1, orders, con)
      | (Inr msg, fd1) \<Rightarrow>
          (case display_handle msg orders of
             Inl e \<Rightarrow> (e, fd1, orders, con)
           | Inr (orders1, should_refresh) \<Rightarrow>
               if should_refresh then
                 (case refresh_display orders1 con of
                    (Inl e, con1) \<Rightarrow> (e, fd1, orders1, con1)
                  | (Inr _, con1) \<Rightarrow> display_main_loop fd1 orders1 con1)
               else display_main_loop fd1 orders1 con))"
  by pat_completeness auto
termination
  by (relation "measure (\<lambda>(fd, orders, con). length (fd_in fd))")
    (auto dest: receive_message_consumes [OF sym])

declare display_main_loop.simps [simp del]

definition display_session :: "fd \<Rightarrow> console \<Rightarrow> (int + exn) \<times> fd \<times> orders \<times> console" where
  "display_session fd con =
     (case prompt_for_credentials con of (credentials, con1) \<Rightarrow>
      case send_request_receive_response fd (message_login MT_LOGIN CM_DISPLAY credentials) of
        (Inl e, fd1) \<Rightarrow> (Inr e, fd1, [], con1)
      | (Inr login_response, fd1) \<Rightarrow>
          if m_type login_response = MT_ERROR then
            (Inl 1, fd1, [], put_err (''Error: '' @ m_str login_response @ endl) con1)
          else if m_type login_response \<noteq> MT_OK then
            (Inr (ProtocolError ''Unexpected response type''), fd1, [], con1)
          else
            (case refresh_display [] con1 of
               (Inl e, con2) \<Rightarrow> (Inr e, fd1, [], con2)
             | (Inr _, con2) \<Rightarrow>
                 (case display_main_loop fd1 [] con2 of
                    (e, fd2, orders, con3) \<Rightarrow> (Inr e, fd2, orders, con3))))"

text \<open>\<open>main\<close>, which ends as the updater's does.\<close>

definition display_main ::
  "fd \<Rightarrow> string list \<Rightarrow> console \<Rightarrow> os \<Rightarrow> program_end \<times> console \<times> os" where
  "display_main conn argv con os =
     (case argv of
        [_, hostname, port] \<Rightarrow>
          (case connect_to_server hostname port os of
             (Inl e, os1) \<Rightarrow> client_handlers (Inr e) con os1
           | (Inr fd, os1) \<Rightarrow>
               client_session_end fd conn
                 (case display_session conn con of (r, d, _, con1) \<Rightarrow> (r, d, con1)) os1)
      | _ \<Rightarrow>
          (Exit 1, put_err
             (''Usage: '' @ (case argv of [] \<Rightarrow> [] | a # _ \<Rightarrow> a) @ '' <hostname> <port>'' @ endl) con, os))"

end
