(* ===== verification/Mirror.thy ===== *)
theory Mirror
  imports Session Display
begin

text \<open>
  The display client mirrors the server. Applying the messages queued for a display, in order,
  turns the display's map into the server's map: first for the two maps side by side, then
  for the display program reading the bytes the session wrote.
\<close>

subsection \<open>Messages as changes of the map\<close>

fun display_apply :: "message list \<Rightarrow> orders \<Rightarrow> orders res" where
  "display_apply [] orders = Inr orders"
| "display_apply (m # ms) orders =
     bindR (display_handle m orders) (\<lambda>(orders1, _). display_apply ms orders1)"

lemma display_apply_append:
  "display_apply (ms @ ns) orders = bindR (display_apply ms orders) (display_apply ns)"
  by (induction ms orders rule: display_apply.induct) (auto simp: bindR_def split: sum.splits prod.splits)

lemma handle_order:
  "display_handle (message_order MT_DISP_ORDER (Some x)) os = Inr (om_assign os (o_id x) x, True)"
  by (simp add: display_handle_def handle_disp_order_def message_ctor_defs)

lemma handle_item_update:
  assumes "0 \<le> k" and "0 \<le> i" and "st \<noteq> IS_INVALID" and "om_find os k = Some x"
    and "find_item x i = Some p"
  shows "display_handle (message_item_update MT_DISP_ITEM_UPDATE k i st) os =
    Inr (om_assign os k (item_set_status x p st), True)"
  using assms
  by (simp add: display_handle_def handle_disp_item_update_def message_ctor_defs has_defs)

lemma handle_order_update:
  assumes "0 \<le> k" and "st \<noteq> OS_INVALID" and "om_find os k = Some x"
  shows "display_handle (message_order_update MT_DISP_ORDER_UPDATE k st) os =
    Inr (if st = OS_DELIVERED then om_erase os k else om_assign os k (x\<lparr>o_status := st\<rparr>), True)"
  using assms
  by (simp add: display_handle_def handle_disp_order_update_def message_ctor_defs has_defs Let_def)

lemma apply_item_update:
  assumes "om_ok os" and "0 \<le> k" and "0 \<le> i" and "om_find os k = Some x"
    and "find_item x i = Some p" and "valid_advance (i_status (o_items x ! p)) st"
  shows "display_apply (item_update_messages k i x p st) os = Inr (om_assign os k (advance_order x p st))"
proof -
  have st: "st \<noteq> IS_INVALID" using assms(6) by (auto simp: valid_advance_def)
  show ?thesis
  proof (cases "next_order_status (item_set_status x p st) st")
    case None
    with assms st show ?thesis
      by (simp add: item_update_messages_def advance_order_def handle_item_update)
  next
    case (Some os')
    then have "os' \<noteq> OS_INVALID" "os' \<noteq> OS_DELIVERED"
      by (auto simp: next_order_status_def split: if_splits)
    with assms st Some show ?thesis
      by (simp add: item_update_messages_def advance_order_def handle_item_update
          handle_order_update om.find_assign om.assign_assign)
  qed
qed

lemma apply_snapshot_foldl:
  "(\<And>k x. (k, x) \<in> set ps \<Longrightarrow> o_id x = k) \<Longrightarrow>
     display_apply (snapshot_messages ps) os = Inr (foldl (\<lambda>m (k, v). om_assign m k v) os ps)"
proof (induction ps arbitrary: os)
  case (Cons p ps)
  obtain k x where p: "p = (k, x)" by (cases p)
  have id: "o_id x = k" by (rule Cons.prems) (simp add: p)
  have "display_apply (snapshot_messages ps) q = Inr (foldl (\<lambda>m (k, v). om_assign m k v) q ps)" for q
    by (rule Cons.IH) (rule Cons.prems, simp)
  then show ?case by (simp add: snapshot_messages_def handle_order p id)
qed (simp add: snapshot_messages_def)

lemma apply_snapshot:
  assumes "server_inv s"
  shows "display_apply (snapshot_messages (m_orders s)) [] = Inr (m_orders s)"
proof -
  have ok: "om_ok (m_orders s)" using assms by (rule server_invD)
  have "o_id x = k" if "(k, x) \<in> set (m_orders s)" for k x
  proof -
    have "om_find (m_orders s) k = Some x"
      using that ok by (simp add: om_find_map_of om_ok_def strict_sorted_iff)
    then show ?thesis using server_invD(4) [OF assms] by (simp add: live_order_def)
  qed
  then show ?thesis
    using om.replay_entries [OF ok] by (simp add: apply_snapshot_foldl)
qed

subsection \<open>The mirror invariant\<close>

text \<open>
  The display of client \<open>c\<close>, holding the map \<open>os\<close>, is behind the server by exactly the messages
  in the queue of \<open>c\<close>.
\<close>

definition mirrors :: "client_id \<Rightarrow> orders \<Rightarrow> server \<Rightarrow> bool" where
  "mirrors c os s \<longleftrightarrow>
     server_inv s \<and> c \<in> set (m_display_clients s) \<and>
     display_apply (queue_of s c) os = Inr (m_orders s)"

text \<open>What the sessions of other clients can do (\<open>session_is_operations\<close>).\<close>

definition others_op :: "client_id \<Rightarrow> server_op \<Rightarrow> bool" where
  "others_op c op \<longleftrightarrow> (\<exists>d. d \<noteq> c \<and> session_op d op)"

lemma appends_mirrors:
  assumes "mirrors c os s" and "appends s ms s'" and "server_inv s'"
    and "display_apply ms (m_orders s) = Inr (m_orders s')"
  shows "mirrors c os s'"
  using assms by (simp add: mirrors_def appends_def display_apply_append)

lemma mirrors_step:
  assumes "mirrors c os s" and "others_op c op"
  shows "mirrors c os (server_step op s)"
proof -
  have inv: "server_inv s" and c: "c \<in> set (m_display_clients s)"
    and ap: "display_apply (queue_of s c) os = Inr (m_orders s)"
    using assms(1) by (auto simp: mirrors_def)
  have inv': "server_inv (server_step op s)" using inv by (rule server_inv_step)
  note ok = server_invD(1) [OF inv]
  show ?thesis
  proof (cases op)
    case (Op_new_order x)
    show ?thesis
    proof (cases "m_next_order_id s = int_max")
      case True
      then show ?thesis using assms(1) by (simp add: Op_new_order process_new_order_def)
    next
      case False
      obtain s' where s': "process_new_order x s = (Inr (m_next_order_id s), s')"
        "m_orders s' = om_assign (m_orders s) (m_next_order_id s) (created_order (m_next_order_id s) x)"
        "appends s [message_order MT_DISP_ORDER (Some (created_order (m_next_order_id s) x))] s'"
        using process_new_order_effect [OF server_invD(2) [OF inv] False] by blast
      have "mirrors c os s'"
        by (rule appends_mirrors [OF assms(1) s'(3)])
          (use inv' s' in \<open>simp_all add: Op_new_order handle_order created_order_def\<close>)
      then show ?thesis by (simp add: Op_new_order s'(1))
    qed
  next
    case (Op_item_update k i st)
    from inv show ?thesis
    proof (cases rule: process_item_update_cases [where k = k and i = i and st = st])
      case (succeeds x p s')
      have "0 \<le> k" using server_invD(4) [OF inv succeeds(1)] by (simp add: live_order_def)
      moreover have "0 \<le> i" using assms(2) by (auto simp: others_op_def session_op_def positive_int_def Op_item_update)
      ultimately have "mirrors c os s'"
        using inv' succeeds(4,5) apply_item_update [OF ok _ _ succeeds(1-3)]
        by (intro appends_mirrors [OF assms(1) succeeds(7)]) (simp_all add: Op_item_update)
      then show ?thesis by (simp add: Op_item_update succeeds(4))
    qed (use assms(1) in \<open>simp add: Op_item_update\<close>)
  next
    case (Op_order_update k st)
    from inv show ?thesis
    proof (cases rule: process_order_update_cases [where k = k and st = st])
      case (succeeds x s')
      have "0 \<le> k" using server_invD(4) [OF inv succeeds(1)] by (simp add: live_order_def)
      then have "mirrors c os s'"
        using inv' succeeds(1,3-5)
        by (intro appends_mirrors [OF assms(1) succeeds(7)])
          (simp_all add: Op_order_update handle_order_update)
      then show ?thesis by (simp add: Op_order_update succeeds(4))
    qed (use assms(1) in \<open>simp add: Op_order_update\<close>)
  next
    case (Op_register d)
    with assms(2) have "d \<noteq> c" by (auto simp: others_op_def session_op_def)
    with inv' c ap show ?thesis by (auto simp: Op_register mirrors_def register_display_effect)
  next
    case (Op_unregister d)
    with assms(2) have "d \<noteq> c" by (auto simp: others_op_def session_op_def)
    with inv' c ap show ?thesis by (auto simp: Op_unregister mirrors_def unregister_display_effect)
  next
    case (Op_dequeue d)
    with assms(2) have "d \<noteq> c" by (auto simp: others_op_def session_op_def)
    obtain r s' where "client_dequeue False d s = (Inr r, s')" "m_orders s' = m_orders s"
      "m_display_clients s' = m_display_clients s" "\<And>e. e \<noteq> d \<Longrightarrow> queue_of s' e = queue_of s e"
      using client_dequeue_effect [OF server_invD(3) [OF inv]] by metis
    with inv' c ap \<open>d \<noteq> c\<close> show ?thesis by (simp add: Op_dequeue mirrors_def)
  qed
qed

interpretation mirror: step_invariant server_step "others_op c" "mirrors c os" for c os
  by unfold_locales (rule mirrors_step)

lemma mirrors_run:
  "mirrors c os s \<Longrightarrow> \<forall>op\<in>set ops. others_op c op \<Longrightarrow> mirrors c os (server_run ops s)"
  unfolding server_run_def by (rule mirror.inv_run)

lemma mirrors_register:
  assumes "server_inv s" and "queue_of s c = []"
  shows "mirrors c [] (register_display c s)"
  using assms server_inv_step [OF assms(1), of "Op_register c"] apply_snapshot [OF assms(1)]
  by (simp add: mirrors_def register_display_effect)

text \<open>Delivering the head of the queue: the display accepts it and still mirrors the server.\<close>

lemma mirrors_deliver:
  assumes "mirrors c os s"
  obtains r s' where "client_dequeue b c s = (Inr r, s')"
    and "case r of None \<Rightarrow> mirrors c os s'
         | Some m \<Rightarrow> (\<exists>os' b. display_handle m os = Inr (os', b) \<and> mirrors c os' s')"
proof (cases b)
  case False
  have inv: "server_inv s" and c: "c \<in> set (m_display_clients s)"
    and ap: "display_apply (queue_of s c) os = Inr (m_orders s)"
    using assms by (auto simp: mirrors_def)
  obtain r s' where d: "client_dequeue False c s = (Inr r, s')" "m_orders s' = m_orders s"
    "m_display_clients s' = m_display_clients s"
    "case r of None \<Rightarrow> queue_of s c = [] \<and> queue_of s' c = []
         | Some msg \<Rightarrow> queue_of s c = msg # queue_of s' c"
    using client_dequeue_effect [OF server_invD(3) [OF inv]] by metis
  have "server_inv s'" using server_inv_step [OF inv, of "Op_dequeue c"] d(1) by simp
  with d c ap False show ?thesis
    by (intro that [of r s']) (auto simp: mirrors_def res_simps split: option.splits)
qed (use assms that client_dequeue_expired in auto)

end
