(* ===== verification/Mirror_Wire.thy ===== *)
theory Mirror_Wire
  imports Mirror "HOL-Library.Sublist"
begin

text \<open>
  The mirror end to end: the server with well-formed orders, the display session sending over
  the descriptor, the bytes, the display program receiving them and its screen.
\<close>

subsection \<open>Well-formed server states\<close>

text \<open>Every order was decoded from a message, so every queued message can be encoded.\<close>

definition wf_server :: "server \<Rightarrow> bool" where
  "wf_server s \<longleftrightarrow>
     server_inv s \<and> (\<forall>k x. om_find (m_orders s) k = Some x \<longrightarrow> wf_order x) \<and>
     (\<forall>c. \<forall>m\<in>set (queue_of s c). wf_message m)"

lemma wf_message_order [simp]: "wf_message (message_order MT_DISP_ORDER (Some x)) \<longleftrightarrow> wf_order x"
  by (simp add: wf_message_def decoded_ok_def carries_str_def message_ctor_defs)

lemma wf_message_order_update [simp]:
  "wf_message (message_order_update MT_DISP_ORDER_UPDATE k st) \<longleftrightarrow> positive_int k \<and> st \<noteq> OS_INVALID"
  by (simp add: wf_message_def decoded_ok_def carries_str_def message_ctor_defs)

lemma wf_message_item_update [simp]:
  "wf_message (message_item_update MT_DISP_ITEM_UPDATE k i st) \<longleftrightarrow>
     positive_int k \<and> positive_int i \<and> st \<noteq> IS_INVALID"
  by (simp add: wf_message_def decoded_ok_def carries_str_def message_ctor_defs)

lemma wf_message_heartbeat [simp]: "wf_message (message_plain MT_DISP_HEARTBEAT)"
  by (simp add: wf_message_def decoded_ok_def carries_str_def message_ctor_defs)

lemma wf_order_created:
  "wf_order x \<Longrightarrow> positive_int k \<Longrightarrow> wf_order (created_order k x)"
  by (auto simp: wf_order_def created_order_def wf_item_def)

lemma wf_order_advance:
  assumes "wf_order x" and "find_item x i = Some p" and "st \<noteq> IS_INVALID"
  shows "wf_order (advance_order x p st)"
proof -
  have p: "p < length (o_items x)" using assms(2) by (simp add: find_item_Some)
  have "o_status (advance_order x p st) \<noteq> OS_INVALID"
    using assms(1) by (auto simp: advance_order_def next_order_status_def Let_def wf_order_def)
  moreover have "o_items (item_set_status x p st) \<noteq> []"
    using p by (metis item_set_status_sel(3) length_0_conv not_less_zero)
  moreover have "wf_item y" if "y \<in> set (o_items (item_set_status x p st))" for y
  proof -
    have "wf_item (o_items x ! p)" using assms(1) p by (simp add: wf_order_def)
    then have "wf_item ((o_items x ! p)\<lparr>i_status := st\<rparr>)" using assms(3) by (simp add: wf_item_def)
    then show ?thesis using set_item_set_status [OF that] assms(1) by (auto simp: wf_order_def)
  qed
  ultimately show ?thesis using assms(1) by (simp add: wf_order_def)
qed

lemma item_update_messages_wf:
  assumes "positive_int k" and "positive_int i" and "st \<noteq> IS_INVALID"
    and "m \<in> set (item_update_messages k i x p st)"
  shows "wf_message m"
  using assms by (auto simp: item_update_messages_def next_order_status_def split: if_splits)

lemma wf_appends:
  assumes "wf_server s" and "appends s ms s'" and "server_inv s'" and "\<forall>m\<in>set ms. wf_message m"
    and "\<And>k x. om_find (m_orders s') k = Some x \<Longrightarrow> wf_order x"
  shows "wf_server s'"
  using assms by (auto simp: wf_server_def appends_def)

lemma wf_server_step:
  assumes "wf_server s" and "session_op d op"
  shows "wf_server (server_step op s)"
proof -
  have inv: "server_inv s" and wfo: "\<And>k x. om_find (m_orders s) k = Some x \<Longrightarrow> wf_order x"
    and wfq: "\<And>c m. m \<in> set (queue_of s c) \<Longrightarrow> wf_message m"
    using assms(1) by (auto simp: wf_server_def)
  have inv': "server_inv (server_step op s)" using inv by (rule server_inv_step)
  note ok = server_invD(1) [OF inv]
  show ?thesis
  proof (cases op)
    case (Op_new_order x)
    show ?thesis
    proof (cases "m_next_order_id s = int_max")
      case True
      then show ?thesis using assms(1) by (simp add: Op_new_order process_new_order_def)
    next
      case False
      obtain s' where s': "process_new_order x s = (Inr (m_next_order_id s), s')"
        "m_orders s' = om_assign (m_orders s) (m_next_order_id s) (created_order (m_next_order_id s) x)"
        "appends s [message_order MT_DISP_ORDER (Some (created_order (m_next_order_id s) x))] s'"
        using process_new_order_effect [OF server_invD(2) [OF inv] False] by blast
      have "positive_int (m_next_order_id s)"
        using inv by (simp add: server_inv_def positive_int_def)
      then have x: "wf_order (created_order (m_next_order_id s) x)"
        using assms(2) by (intro wf_order_created) (auto simp: session_op_def Op_new_order)
      have "wf_server s'"
        by (rule wf_appends [OF assms(1) s'(3)])
          (use inv' s' x wfo in \<open>auto simp: Op_new_order om.find_assign [OF ok] split: if_splits\<close>)
      then show ?thesis by (simp add: Op_new_order s'(1))
    qed
  next
    case (Op_item_update k i st)
    from inv show ?thesis
    proof (cases rule: process_item_update_cases [where k = k and i = i and st = st])
      case (succeeds x p s')
      have op: "positive_int k" "positive_int i" "st \<noteq> IS_INVALID"
        using assms(2) by (auto simp: session_op_def Op_item_update)
      have "wf_server s'"
        by (rule wf_appends [OF assms(1) succeeds(7)])
          (use inv' succeeds op wfo wf_order_advance [OF wfo [OF succeeds(1)] succeeds(2)]
             item_update_messages_wf [OF op]
           in \<open>auto simp: Op_item_update om.find_assign [OF ok] split: if_splits\<close>)
      then show ?thesis by (simp add: Op_item_update succeeds(4))
    qed (use assms(1) in \<open>simp add: Op_item_update\<close>)
  next
    case (Op_order_update k st)
    from inv show ?thesis
    proof (cases rule: process_order_update_cases [where k = k and st = st])
      case (succeeds x s')
      have "positive_int k" using assms(2) by (auto simp: session_op_def Op_order_update)
      then have "wf_server s'"
        by (intro wf_appends [OF assms(1) succeeds(7)])
          (use inv' succeeds wfo
           in \<open>auto simp: Op_order_update om.find_erase [OF ok] split: if_splits\<close>)
      then show ?thesis by (simp add: Op_order_update succeeds(4))
    qed (use assms(1) in \<open>simp add: Op_order_update\<close>)
  next
    case (Op_register c)
    have "wf_order (snd p)" if "p \<in> set (m_orders s)" for p
    proof -
      have "om_find (m_orders s) (fst p) = Some (snd p)"
        using that ok by (simp add: om_find_map_of om_ok_def strict_sorted_iff)
      then show ?thesis by (rule wfo)
    qed
    then show ?thesis
      using inv' wfo wfq
      by (auto simp: Op_register wf_server_def register_display_effect snapshot_messages_def)
  next
    case (Op_unregister c)
    then show ?thesis
      using inv' wfo wfq by (auto simp: wf_server_def unregister_display_effect)
  next
    case (Op_dequeue c)
    obtain r s' where d: "client_dequeue False c s = (Inr r, s')" "m_orders s' = m_orders s"
      "\<And>e. e \<noteq> c \<Longrightarrow> queue_of s' e = queue_of s e"
      "case r of None \<Rightarrow> queue_of s c = [] \<and> queue_of s' c = []
         | Some msg \<Rightarrow> queue_of s c = msg # queue_of s' c"
      using client_dequeue_effect [OF server_invD(3) [OF inv]] by metis
    have "wf_message m" if "m \<in> set (queue_of s' e)" for m e
      using d(3,4) that wfq [of m e] by (cases "e = c") (auto split: option.splits)
    with d inv' wfo show ?thesis by (simp add: Op_dequeue wf_server_def)
  qed
qed

interpretation wf: step_invariant server_step "\<lambda>op. \<exists>d. session_op d op" wf_server
  by unfold_locales (auto intro: wf_server_step)

lemma wf_server_run:
  "wf_server s \<Longrightarrow> \<forall>op\<in>set ops. \<exists>d. session_op d op \<Longrightarrow> wf_server (server_run ops s)"
  unfolding server_run_def by (rule wf.inv_run)

lemma wf_server_init: "wf_server server_init"
  using server_inv_init by (simp add: wf_server_def server_init_def queue_of_def mq_init_def)

subsection \<open>The display program on a stream of messages\<close>

text \<open>The screen shows a map: it is what was printed last, after clearing the screen.\<close>

definition shows_orders :: "console \<Rightarrow> orders \<Rightarrow> bool" where
  "shows_orders con os \<longleftrightarrow> suffix (clear_screen @ render os) (con_out con)"

lemma shows_orders_refresh [simp]: "shows_orders (put_out (clear_screen @ render os) con) os"
  by (simp add: shows_orders_def put_out_def suffix_def)

lemma display_handle_no_refresh: "display_handle m os = Inr (os', False) \<Longrightarrow> os' = os"
  by (auto simp: display_handle_def res_simps split: if_splits)

lemma frames_of_ConsE:
  assumes "frames_of (m # ms) t"
  obtains u t' where "on_wire m u" and "frames_of ms t'" and "t = u @ t'"
proof -
  obtain us where us: "t = concat us"
    "list_all2 (\<lambda>m u. \<exists>s. encode m = Inr s \<and> is_frame s u) (m # ms) us"
    using assms unfolding frames_of_def by blast
  then obtain u us' where "us = u # us'" "\<exists>s. encode m = Inr s \<and> is_frame s u"
    "list_all2 (\<lambda>m u. \<exists>s. encode m = Inr s \<and> is_frame s u) ms us'"
    by (auto simp: list_all2_Cons1)
  with us(1) show ?thesis
    by (intro that [of u "concat us'"]) (auto simp: on_wire_def frames_of_def)
qed

lemma display_main_loop_messages:
  assumes "rd_ok d" and "frames_of ms (fd_in d)" and "\<forall>m\<in>set ms. wf_message m"
    and "display_apply ms os = Inr os'" and "shows_orders con os"
  shows "\<exists>e d' con'. display_main_loop d os con = (e, d', os', con') \<and> is_IOException e \<and>
    shows_orders con' os'"
  using assms
proof (induction ms arbitrary: d os con)
  case Nil
  then obtain e d' where "receive_message d = (Inl e, d')" "is_IOException e"
    using receive_message_empty [of d] by auto
  with Nil show ?case by (simp add: display_main_loop.simps)
next
  case (Cons m ms)
  obtain u t where u: "on_wire m u" "frames_of ms t" "fd_in d = u @ t"
    using Cons.prems(2) by (rule frames_of_ConsE)
  obtain d1 where d1: "receive_message d = (Inr m, d1)" "fd_in d1 = t" "rd_ok d1"
    using receive_on_wire [OF Cons.prems(1) u(3,1)] Cons.prems(3) by auto
  obtain os1 b where h: "display_handle m os = Inr (os1, b)" "display_apply ms os1 = Inr os'"
    using Cons.prems(4) by (auto simp: res_simps)
  let ?con = "if b then put_out (clear_screen @ render os1) con else con"
  have "shows_orders ?con os1"
    using Cons.prems(5) display_handle_no_refresh h(1) by (cases b) auto
  then have "\<exists>e d' con'. display_main_loop d1 os1 ?con = (e, d', os', con') \<and> is_IOException e \<and>
      shows_orders con' os'"
    using Cons.prems(3) u(2) d1(2) by (intro Cons.IH [OF d1(3) _ _ h(2)]) simp_all
  then obtain e d' con' where "display_main_loop d1 os1 ?con = (e, d', os', con')" "is_IOException e"
    "shows_orders con' os'" by blast
  with d1(1) h(1) show ?case
    by (intro exI [of _ e] exI [of _ d'] exI [of _ con'])
      (simp add: display_main_loop.simps [of d] split: if_splits)
qed

subsection \<open>End to end\<close>

text \<open>What the session has sent so far, and where that leaves the display.\<close>

definition delivered :: "client_id \<Rightarrow> orders \<Rightarrow> string \<Rightarrow> server \<Rightarrow> bool" where
  "delivered c os t s \<longleftrightarrow>
     wf_server s \<and>
     (\<exists>ms os'. frames_of ms t \<and> (\<forall>m\<in>set ms. wf_message m) \<and> display_apply ms os = Inr os' \<and>
        mirrors c os' s)"

lemma display_iteration_delivers:
  assumes "mirrors c os s" and "wf_server s" and "c = c_id this"
    and "display_iteration expired this s = (Inr Next, this', s')"
  shows "\<exists>d m t u os' b. this' = this\<lparr>m_fd := d\<rparr> \<and> fd_out d = fd_out (m_fd this) @ u \<and>
    encode m = Inr t \<and> is_frame t u \<and> wf_message m \<and>
    display_handle m os = Inr (os', b) \<and> mirrors c os' s' \<and> wf_server s'"
proof -
  obtain r s1 where dq: "client_dequeue expired c s = (Inr r, s1)"
    and del: "case r of None \<Rightarrow> mirrors c os s1
         | Some m \<Rightarrow> (\<exists>os' b. display_handle m os = Inr (os', b) \<and> mirrors c os' s1)"
    using mirrors_deliver [OF assms(1)] by blast
  let ?m = "case r of Some msg \<Rightarrow> msg | None \<Rightarrow> message_plain MT_DISP_HEARTBEAT"
  obtain q c1 where c1: "client_send_message ?m this = (q, c1)" by (metis prod.exhaust)
  have s': "q = Inr True" "this' = c1" "s' = s1"
    using assms(3,4) dq c1 by (auto simp: display_iteration_def split: sum.splits if_splits)
  from client_send_cases [OF c1] s'(1) obtain d t u where
    sent: "c1 = this\<lparr>m_fd := d\<rparr>" "encode ?m = Inr t" "is_frame t u" "fd_out d = fd_out (m_fd this) @ u"
    by auto
  have wf1: "wf_server s1"
    using wf_server_step [OF assms(2), of c "Op_dequeue c"] assms(2) dq client_dequeue_expired [of c s]
    by (cases expired) (simp_all add: session_op_def)
  have "wf_message ?m \<and> (\<exists>os' b. display_handle ?m os = Inr (os', b) \<and> mirrors c os' s1)"
  proof (cases r)
    case None
    have "display_handle (message_plain MT_DISP_HEARTBEAT) os = Inr (os, False)"
      by (simp add: display_handle_def message_ctor_defs)
    with None del show ?thesis by auto
  next
    case (Some m)
    have "queues_ok s" using assms(1) by (auto simp: mirrors_def dest: server_invD)
    then obtain r2 s2 where "client_dequeue False c s = (Inr r2, s2)"
      "case r2 of None \<Rightarrow> queue_of s c = [] \<and> queue_of s2 c = []
         | Some msg \<Rightarrow> queue_of s c = msg # queue_of s2 c"
      using client_dequeue_effect by metis
    with dq Some client_dequeue_expired [of c s] have "queue_of s c = m # queue_of s1 c"
      by (cases expired) simp_all
    then have "m \<in> set (queue_of s c)" by simp
    then have "wf_message m" using assms(2) unfolding wf_server_def by blast
    with Some del show ?thesis by simp
  qed
  with sent s' wf1 show ?thesis by blast
qed

lemma others_session_op: "others_op c op \<Longrightarrow> \<exists>d. session_op d op"
  by (auto simp: others_op_def)

lemma display_while_delivers:
  assumes "mirrors (c_id this) os s" and "wf_server s"
    and "\<forall>op\<in>set (sched_ops sched). others_op (c_id this) op"
    and "display_while sched this s = (None, this', s')"
  shows "\<exists>t. fd_out (m_fd this') = fd_out (m_fd this) @ t \<and> delivered (c_id this) os t s'"
  using assms
proof (induction sched arbitrary: this os s)
  case Nil
  then have "this' = this" "s' = s" by (cases "m_running this"; simp)+
  with Nil show ?case
    unfolding delivered_def
    by (intro exI [of _ "[]"] conjI exI [of _ "[] :: message list"] exI [of _ os]) simp_all
next
  case (Cons e sched)
  obtain env b where e [simp]: "e = (env, b)" by (cases e)
  let ?c = "c_id this" and ?s = "server_run env s"
  have m: "mirrors ?c os ?s"
    using Cons.prems(1,3) by (intro mirrors_run) simp_all
  have w: "wf_server ?s"
    using Cons.prems(2,3) by (intro wf_server_run) (auto intro: others_session_op)
  have run: "m_running this" using Cons.prems(4) by (cases "m_running this") simp_all
  obtain q c1 s1 where it: "display_iteration b this ?s = (q, c1, s1)" by (metis prod_cases3)
  have q: "q = Inr Next" and rest: "display_while sched c1 s1 = (None, this', s')"
    using Cons.prems(4) run it by (auto split: sum.splits flow.splits exn.splits)
  from display_iteration_delivers [OF m w refl it [unfolded q]] obtain d msg t u os1 b where
    step: "c1 = this\<lparr>m_fd := d\<rparr>" "fd_out d = fd_out (m_fd this) @ u" "encode msg = Inr t" "is_frame t u"
      "wf_message msg" "display_handle msg os = Inr (os1, b)" "mirrors ?c os1 s1" "wf_server s1"
    by blast
  have "mirrors (c_id c1) os1 s1" "\<forall>op\<in>set (sched_ops sched). others_op (c_id c1) op"
    using step(1,7) Cons.prems(3) by simp_all
  from Cons.IH [OF this(1) step(8) this(2) rest] obtain t' where
    t': "fd_out (m_fd this') = fd_out d @ t'" "delivered ?c os1 t' s'"
    unfolding step(1) by (elim exE conjE) simp
  then obtain ms os' where ms: "wf_server s'" "frames_of ms t'" "\<forall>m\<in>set ms. wf_message m"
    "display_apply ms os1 = Inr os'" "mirrors ?c os' s'"
    unfolding delivered_def by blast
  have "delivered ?c os (u @ t') s'"
    unfolding delivered_def
    using ms step frames_of_Cons [OF step(3,4) ms(2)]
    by (intro conjI exI [of _ "msg # ms"] exI [of _ os']) simp_all
  with t'(1) step(2) show ?case by (intro exI [of _ "u @ t'"]) simp
qed

text \<open>
  What a display client shows is the server's data. While a display session runs, with any
  other sessions working on the server in between, run the display program on the bytes the
  session has written, read in any pieces: it accepts every message and waits for more; its
  map, brought up to date with the messages still in the client's queue, is the server's map
  of orders; so when the queue is empty it is that map; and its screen shows its map.
\<close>

theorem display_mirrors_server:
  assumes "wf_server s" and "queue_of s (c_id this) = []"
    and "\<forall>op\<in>set (sched_ops sched). others_op (c_id this) op"
    and "display_loop sched this s = (None, this', s')"
    and "fd_out (m_fd this') = fd_out (m_fd this) @ fd_in d" and "rd_ok d"
    and "shows_orders con []"
  shows "case display_main_loop d [] con of (e, d', os, con') \<Rightarrow>
     is_IOException e \<and>
     display_apply (queue_of s' (c_id this)) os = Inr (m_orders s') \<and>
     (queue_of s' (c_id this) = [] \<longrightarrow> os = m_orders s') \<and>
     shows_orders con' os"
proof -
  let ?c = "c_id this"
  have "server_inv s" using assms(1) by (simp add: wf_server_def)
  then have m: "mirrors ?c [] (register_display ?c s)"
    using assms(2) by (rule mirrors_register)
  have w: "wf_server (register_display ?c s)"
    using wf_server_step [OF assms(1), of ?c "Op_register ?c"] by (simp add: session_op_def)
  have "display_while sched this (register_display ?c s) = (None, this', s')"
    using assms(4) by (auto simp: display_loop_def split: prod.splits option.splits sum.splits)
  from display_while_delivers [OF m w assms(3) this] assms(5)
  have "delivered ?c [] (fd_in d) s'" by simp
  then obtain ms os where ms: "frames_of ms (fd_in d)" "\<forall>m\<in>set ms. wf_message m"
    "display_apply ms [] = Inr os" "mirrors ?c os s'"
    unfolding delivered_def by blast
  from display_main_loop_messages [OF assms(6) ms(1-3) assms(7)] ms(4) show ?thesis
    by (auto simp: mirrors_def)
qed

text \<open>A run: the snapshot, an item started by an updater, and the messages about it.\<close>

definition example_sched :: schedule where
  "example_sched = [([], False), ([Op_item_update 1000 1 IS_IN_PROGRESS], False), ([], True), ([], False)]"

lemma example_run:
  "case display_loop example_sched (client_new 3 (plain_fd [])) busy_server of
     (r, this', s') \<Rightarrow> r = None \<and> queue_of s' 3 = []"
  by code_simp

lemma busy_server_queue: "queue_of busy_server 3 = []"
  by code_simp

lemma wf_busy_server: "wf_server busy_server"
  unfolding busy_server_def
proof (rule wf_server_run [OF wf_server_init], intro ballI)
  have "wf_order two_item_order"
    by (simp add: wf_order_def wf_item_def two_item_order_def positive_int_def int_max_def
        wire_seps_def)
  then have "session_op 7 op" if "op \<in> set [Op_register 7, Op_new_order two_item_order]" for op
    using that by (auto simp: session_op_def)
  then show "\<exists>d. session_op d op" if "op \<in> set [Op_register 7, Op_new_order two_item_order]" for op
    using that by blast
qed

lemma display_mirrors_server_witness:
  "\<exists>this' s'. display_loop example_sched (client_new 3 (plain_fd [])) busy_server = (None, this', s') \<and>
     (case display_main_loop (plain_fd (fd_out (m_fd this'))) []
        \<lparr>con_in = [], con_out = clear_screen, con_err = []\<rparr> of
        (_, _, os, con') \<Rightarrow> os = m_orders s' \<and> shows_orders con' os)"
proof -
  let ?c = "client_new 3 (plain_fd [])" and ?con = "\<lparr>con_in = [], con_out = clear_screen, con_err = []\<rparr>"
  obtain this' s' where run: "display_loop example_sched ?c busy_server = (None, this', s')"
    "queue_of s' 3 = []"
    using example_run by (auto split: prod.splits)
  have ops: "\<forall>op\<in>set (sched_ops example_sched). others_op (c_id ?c) op"
    by (auto simp: example_sched_def others_op_def session_op_def positive_int_def int_max_def
        client_new_def intro!: exI [of _ 4])
  have "shows_orders ?con []" by (simp add: shows_orders_def render_def)
  from display_mirrors_server [OF wf_busy_server _ ops run(1), of "plain_fd (fd_out (m_fd this'))", OF _ _ _ this]
  show ?thesis
    using run by (auto simp: client_new_def busy_server_queue split: prod.splits)
qed

end
