(* ===== verification/Updater.thy ===== *)
theory Updater
  imports Client_Util
begin

text \<open>
  \<open>src/updater_main.cpp\<close>: the updater client. It reads commands and their arguments as lines
  from standard input; each command sends one request and prints the response. The command
  loop consumes a line per iteration. An iteration's outcome is \<open>Inl\<close> of an exception, or an
  exit code, or to go on.
\<close>

definition print_result_response :: "message \<Rightarrow> console \<Rightarrow> unit res \<times> console" where
  "print_result_response response con =
     (if m_type response = MT_OK then
        (Inr (), put_out (''Success: '' @ m_str response @ endl) con)
      else if m_type response = MT_ERROR then
        (Inr (), put_out (''Failure: '' @ m_str response @ endl) con)
      else (Inl (ProtocolError ''Unexpected response type''), con))"

text \<open>The last two statements of every command.\<close>

definition send_and_print :: "fd \<Rightarrow> message \<Rightarrow> console \<Rightarrow> unit res \<times> fd \<times> console" where
  "send_and_print fd request con =
     (case send_request_receive_response fd request of
        (Inl e, fd1) \<Rightarrow> (Inl e, fd1, con)
      | (Inr response, fd1) \<Rightarrow>
          (case print_result_response response con of (r, con1) \<Rightarrow> (r, fd1, con1)))"

subsection \<open>Commands\<close>

fun read_items :: "nat \<Rightarrow> order \<Rightarrow> console \<Rightarrow> order res \<times> console" where
  "read_items 0 order con = (Inr order, con)"
| "read_items (Suc n) order con =
     (case getline con of (_, item_id_s, con1) \<Rightarrow>
      case getline con1 of (_, item_desc, con2) \<Rightarrow>
      case getline con2 of (_, item_qty_s, con3) \<Rightarrow>
      case client_parse_positive_int item_id_s ''item id'' of
        Inl e \<Rightarrow> (Inl e, con3)
      | Inr item_id \<Rightarrow>
          (case client_parse_positive_int item_qty_s ''item quantity'' of
             Inl e \<Rightarrow> (Inl e, con3)
           | Inr item_qty \<Rightarrow>
               read_items n (add_item order (mk_item 1 item_id IS_NEW item_desc item_qty)) con3))"

definition handle_order_new :: "fd \<Rightarrow> console \<Rightarrow> unit res \<times> fd \<times> console" where
  "handle_order_new fd con =
     (case getline con of (_, line, con1) \<Rightarrow>
      case client_parse_positive_int line ''number of items'' of
        Inl e \<Rightarrow> (Inl e, fd, con1)
      | Inr num_items \<Rightarrow>
          (case read_items (nat num_items) (mk_order 1 OS_NEW) con1 of
             (Inl e, con2) \<Rightarrow> (Inl e, fd, con2)
           | (Inr order, con2) \<Rightarrow>
               send_and_print fd (message_order MT_ORDER_NEW (Some order)) con2))"

definition handle_item_update :: "fd \<Rightarrow> console \<Rightarrow> unit res \<times> fd \<times> console" where
  "handle_item_update fd con =
     (case getline con of (_, order_id_s, con1) \<Rightarrow>
      case getline con1 of (_, item_id_s, con2) \<Rightarrow>
      case getline con2 of (_, item_status_s, con3) \<Rightarrow>
      case client_parse_positive_int order_id_s ''order id'' of
        Inl e \<Rightarrow> (Inl e, fd, con3)
      | Inr order_id \<Rightarrow>
          (case client_parse_positive_int item_id_s ''item id'' of
             Inl e \<Rightarrow> (Inl e, fd, con3)
           | Inr item_id \<Rightarrow>
               let item_status = str_to_item_status item_status_s in
               if item_status = IS_INVALID
               then (Inl (ProtocolError ''invalid item status''), fd, con3)
               else send_and_print fd
                 (message_item_update MT_ITEM_UPDATE order_id item_id item_status) con3))"

definition handle_order_update :: "fd \<Rightarrow> console \<Rightarrow> unit res \<times> fd \<times> console" where
  "handle_order_update fd con =
     (case getline con of (_, order_id_s, con1) \<Rightarrow>
      case getline con1 of (_, order_status_s, con2) \<Rightarrow>
      case client_parse_positive_int order_id_s ''order id'' of
        Inl e \<Rightarrow> (Inl e, fd, con2)
      | Inr order_id \<Rightarrow>
          let order_status = str_to_order_status order_status_s in
          if order_status = OS_INVALID
          then (Inl (ProtocolError ''invalid order status''), fd, con2)
          else send_and_print fd
            (message_order_update MT_ORDER_UPDATE order_id order_status) con2)"

definition run_command :: "string \<Rightarrow> fd \<Rightarrow> console \<Rightarrow> unit res \<times> fd \<times> console" where
  "run_command command fd con =
     (if command = ''order_new'' then handle_order_new fd con
      else if command = ''item_update'' then handle_item_update fd con
      else if command = ''order_update'' then handle_order_update fd con
      else (Inr (), fd, con))"

definition quit_command :: "fd \<Rightarrow> console \<Rightarrow> (int + exn) \<times> fd \<times> console" where
  "quit_command fd con =
     (case send_request_receive_response fd (message_str MT_QUIT ''quit'') of
        (Inl e, fd1) \<Rightarrow> (Inr e, fd1, con)
      | (Inr response, fd1) \<Rightarrow>
          if m_type response \<noteq> MT_OK
          then (Inr (ProtocolError ''Unexpected response type''), fd1, con)
          else (Inl 0, fd1, con))"

subsection \<open>The command loop and the program\<close>

lemma getline_shrinks:
  "getline con = (b, s, con') \<Longrightarrow>
     length (con_in con') \<le> length (con_in con) \<and> (b \<longrightarrow> length (con_in con') < length (con_in con))"
  by (auto simp: getline_def split: list.splits)

lemma send_and_print_con_in: "send_and_print fd m con = (r, fd', con') \<Longrightarrow> con_in con' = con_in con"
  by (auto simp: send_and_print_def print_result_response_def put_out_def
      split: prod.splits sum.splits if_splits)

lemma read_items_shrinks:
  "read_items n x con = (r, con') \<Longrightarrow> length (con_in con') \<le> length (con_in con)"
proof (induction n x con rule: read_items.induct)
  case (2 n x con)
  then show ?case
    by (force split: prod.splits sum.splits dest!: getline_shrinks)
qed simp

lemma run_command_shrinks:
  assumes "run_command c fd con = (r, fd', con')"
  shows "length (con_in con') \<le> length (con_in con)"
  using assms
  by (auto simp: run_command_def handle_order_new_def handle_item_update_def handle_order_update_def
      Let_def split: prod.splits sum.splits if_splits
      dest!: getline_shrinks send_and_print_con_in read_items_shrinks)

function updater_main_loop :: "fd \<Rightarrow> console \<Rightarrow> (int + exn) \<times> fd \<times> console" where
  "updater_main_loop fd con =
     (case getline (put_out ''> '' con) of (ok, command, con1) \<Rightarrow>
        if \<not> ok then (Inl 0, fd, con1)
        else if command = ''quit'' then quit_command fd con1
        else (case run_command command fd con1 of
                (Inl e, fd1, con2) \<Rightarrow> (Inr e, fd1, con2)
              | (Inr _, fd1, con2) \<Rightarrow> updater_main_loop fd1 con2))"
  by pat_completeness auto
termination
  by (relation "measure (\<lambda>(fd, con). length (con_in con))")
    (auto simp: put_out_def dest!: getline_shrinks [OF sym] run_command_shrinks [OF sym])

declare updater_main_loop.simps [simp del]

definition updater_session :: "fd \<Rightarrow> console \<Rightarrow> (int + exn) \<times> fd \<times> console" where
  "updater_session fd con =
     (case prompt_for_credentials con of (credentials, con1) \<Rightarrow>
      case send_request_receive_response fd (message_login MT_LOGIN CM_UPDATER credentials) of
        (Inl e, fd1) \<Rightarrow> (Inr e, fd1, con1)
      | (Inr login_response, fd1) \<Rightarrow>
          if m_type login_response = MT_ERROR then
            (Inl 1, fd1, put_err (''Error: '' @ m_str login_response @ endl) con1)
          else if m_type login_response \<noteq> MT_OK then
            (Inr (ProtocolError ''Unexpected response type''), fd1, con1)
          else updater_main_loop fd1 con1)"

text \<open>\<open>conn\<close> is the connection to the server, if there is one.\<close>

definition updater_main ::
  "fd \<Rightarrow> string list \<Rightarrow> console \<Rightarrow> os \<Rightarrow> program_end \<times> console \<times> os" where
  "updater_main conn argv con os =
     (case argv of
        [_, hostname, port] \<Rightarrow>
          (case connect_to_server hostname port os of
             (Inl e, os1) \<Rightarrow> client_handlers (Inr e) con os1
           | (Inr filedescriptor, os1) \<Rightarrow>
               client_session_end filedescriptor conn (updater_session conn con) os1)
      | _ \<Rightarrow>
          (Exit 1, put_err
             (''Usage: '' @ (case argv of [] \<Rightarrow> [] | a # _ \<Rightarrow> a) @ '' <hostname> <port>'' @ endl) con, os))"

end
