(* ===== verification/Programs_Correct.thy ===== *)
theory Programs_Correct
  imports Mirror_Wire Updater
begin

text \<open>
  The two client programs against the server: a request's round trip through both ends, the
  ways the programs end, and what goes wrong with texts the protocol cannot carry.
\<close>

subsection \<open>Exit codes\<close>





















text \<open>
  The signal really ends the updater: here the server accepts the login and closes the connection;
  at the next command the program dies, and its handler does not report the error. If the
  signal is ignored, it reports the error and exits with 1.
\<close>

definition client_os :: "bool \<Rightarrow> os" where
  "client_os ignored =
     \<lparr>os_fds = [2, 1, 0], os_lists = 0, os_gai = Inr [''127.0.0.1''], os_calls = [], os_errno = 0,
      os_err = [], os_strerror = (\<lambda>_. ''error''), os_gai_strerror = (\<lambda>_. ''error''),
      os_sigpipe_ignored = ignored\<rparr>"

lemma updater_dies_of_sigpipe:
  "case updater_main ((plain_fd (''0020OK|Login successful'' @ [CHR 0x0A]))\<lparr>fd_wr := [Wr_Some 100, Wr_Fail E_PIPE]\<rparr>)
     [''updater'', ''localhost'', ''5000'']
     \<lparr>con_in = [''alice'', ''foobar'', ''order_update'', ''1000'', ''DELIVERED''], con_out = [], con_err = []\<rparr>
     (client_os ignored) of (r, con', os') \<Rightarrow>
     r = (if ignored then Exit 1 else Signalled 13) \<and>
     con_err con' = (if ignored then ''Error: error sending framed message'' @ endl else [])"
  by (cases ignored; simp only: if_True if_False; code_simp)

subsection \<open>A request there and back\<close>

lemma send_message_ok:
  assumes "encode m = Inr t" and "length t \<le> 9998" and "wr_ok d"
  shows "\<exists>d' u. send_message d m = (Inr (), d') \<and> on_wire m u \<and> fd_out d' = fd_out d @ u \<and>
    fd_in d' = fd_in d \<and> fd_rd d' = fd_rd d \<and> wr_ok d'"
  using io_send_ok [OF assms(2,3)] assms(1) by (auto simp: send_message_def on_wire_def)

lemma send_message_wire:
  assumes "send_message d m = (Inr (), d')"
  shows "\<exists>u. on_wire m u \<and> fd_out d' = fd_out d @ u"
proof -
  obtain t where t: "encode m = Inr t" "io_send t d = (Inr (), d')"
    using assms by (cases "encode m") (auto simp: send_message_def)
  from io_send_cases [OF t(2)] t(1) show ?thesis
    by (auto simp: on_wire_def split: if_splits)
qed

lemma wf_str_message:
  "s \<noteq> [] \<Longrightarrow> CHR ''|'' \<notin> set s \<Longrightarrow> wf_message (message_str MT_OK s)"
  "s \<noteq> [] \<Longrightarrow> CHR ''|'' \<notin> set s \<Longrightarrow> wf_message (message_str MT_ERROR s)"
  by (simp_all add: wf_message_def decoded_ok_def carries_str_def message_ctor_defs)

lemma wf_verdict:
  assumes "\<And>e. r = Inl e \<Longrightarrow> what e \<noteq> [] \<and> CHR ''|'' \<notin> set (what e)"
    and "s \<noteq> []" and "CHR ''|'' \<notin> set s"
  shows "wf_message (verdict r s)"
  using assms by (cases r) (simp_all add: verdict_def wf_str_message)

lemma wf_response: "wf_message (response m s)"
proof -
  have i: "wf_message (verdict (fst (process_item_update k i st s)) ''successful item update'')" for k i st
    by (rule wf_verdict) (cases "process_item_update k i st s"; auto dest!: process_item_update_Inl)+
  have o: "wf_message (verdict (fst (process_order_update k st s)) ''successful order update'')" for k st
    by (rule wf_verdict) (cases "process_order_update k st s"; auto dest!: process_order_update_Inl)+
  have "CHR ''|'' \<notin> set (to_string v)" for v
    using to_string_sep_free [of v] seps_in(1) by blast
  then show ?thesis
    using i o by (cases "m_type m") (simp_all add: response_def wf_str_message)
qed

text \<open>
  C8: a request's round trip. An updater program sends a well-formed request; its session, with
  these bytes as its input, performs the operation on the server and writes a response;
  the program reading those bytes (in any pieces) receives exactly the server's verdict on
  its request, and would print it.
\<close>

theorem request_round_trip:
  assumes "server_inv s" and "m_type m = MT_ORDER_NEW \<longrightarrow> m_next_order_id s \<noteq> int_max"
    and "wf_message m"
    and "send_message d m = (Inr (), d1)" and "fd_out d1 = fd_out d @ fd_in (m_fd c)"
    and "rd_ok (m_fd c)" and "wr_ok (m_fd c)"
  shows "case updater_iteration c s of (r, c', s') \<Rightarrow>
     s' = served m s \<and> fd_in (m_fd c') = [] \<and>
     (\<exists>u. fd_out (m_fd c') = fd_out (m_fd c) @ u \<and>
        (\<forall>d2. rd_ok d2 \<longrightarrow> fd_in d2 = u \<longrightarrow> fst (receive_message d2) = Inr (response m s)))"
proof -
  obtain t where t: "encode m = Inr t" "is_frame t (fd_in (m_fd c))"
    using send_message_wire [OF assms(4)] assms(5) by (auto simp: on_wire_def)
  have dec: "decode t = Inr m" using wire.enc_succeeds [OF assms(3)] t(1) by auto
  from updater_iteration_request [OF assms(1,6,7) _ t(2) dec assms(2), of "[]"]
  obtain d' u rsp where it: "updater_iteration c s =
      (Inr (if m_type m = MT_QUIT then Return else Next), c\<lparr>m_fd := d'\<rparr>, served m s)"
    "fd_in d' = []" "fd_out d' = fd_out (m_fd c) @ u" "encode (response m s) = Inr rsp" "is_frame rsp u"
    by (metis append_Nil2)
  have "fst (receive_message d2) = Inr (response m s)" if "rd_ok d2" "fd_in d2 = u" for d2
    using receive_on_wire [OF that(1), of u "[]" "response m s"] that(2) it(4,5) wf_response
    by (auto simp: on_wire_def)
  with it show ?thesis by auto
qed

text \<open>An updater asks to deliver the order of \<open>busy_server\<close>, which is not done.\<close>

definition deliver_request :: message where
  "deliver_request = message_order_update MT_ORDER_UPDATE 1000 OS_DELIVERED"

lemma deliver_sent:
  "case send_message (plain_fd []) deliver_request of (r, d) \<Rightarrow>
     r = Inr () \<and> fd_out d = ''0028ORDER_UPDATE|1000|DELIVERED'' @ [CHR 0x0A]"
  by code_simp

lemma deliver_response:
  "response deliver_request busy_server = message_str MT_ERROR ''invalid order status transition''"
  by code_simp

lemma request_round_trip_witness:
  "fst (receive_message (plain_fd (fd_out (m_fd (fst (snd (updater_iteration
      (fed_client 3 (''0028ORDER_UPDATE|1000|DELIVERED'' @ [CHR 0x0A])) busy_server))))))) =
   Inr (message_str MT_ERROR ''invalid order status transition'')"
proof -
  let ?c = "fed_client 3 (''0028ORDER_UPDATE|1000|DELIVERED'' @ [CHR 0x0A])"
  obtain d where d: "send_message (plain_fd []) deliver_request = (Inr (), d)"
    "fd_out d = ''0028ORDER_UPDATE|1000|DELIVERED'' @ [CHR 0x0A]"
    using deliver_sent by (auto split: prod.splits)
  have "wf_message deliver_request" "m_type deliver_request \<noteq> MT_ORDER_NEW"
    by (simp_all add: deliver_request_def wf_message_def decoded_ok_def carries_str_def
        message_ctor_defs positive_int_def int_max_def)
  then show ?thesis
    using request_round_trip [OF busy_server_inv _ _ d(1), of ?c] d(2) deliver_response
    by (auto split: prod.splits)
qed

subsection \<open>Texts the protocol cannot carry\<close>

lemma parse_typed [simp]: "positive_int v \<Longrightarrow> client_parse_positive_int (to_string v) f = Inr v"
  using positive_numeral_to_string [of v] unfolding positive_numeral_iff
  by (auto simp: client_parse_positive_int_def positive_int_def)








text \<open>A description with a colon, and no other separator, makes the order one that is refused.\<close>

lemma colon_in_description_refused:
  assumes "positive_int i" and "positive_int q" and "CHR '':'' \<in> set d"
    and "CHR '';'' \<notin> set d" and "CHR '','' \<notin> set d" and "CHR ''|'' \<notin> set d"
  shows "decode_item (item_to_str (mk_item 1 i IS_NEW d q)) = Inl (InvalidMessage ''invalid item field count'')"
proof -
  have "0 < count_list d CHR '':''" using assms(3) by (simp add: count_list_0_iff neq0_conv [symmetric] del: neq0_conv)
  then have "5 < length (splitc CHR '':'' (item_to_str (mk_item 1 i IS_NEW d q)))"
    by (simp add: length_splitc item_to_str_def mk_item_def)
  then show ?thesis
    by (auto simp: decode_item_def split: list.split)
qed

subsection \<open>Orders too large to announce\<close>




lemma to_string_1 [simp]: "to_string 1 = ''1''" "to_string 1000 = ''1000''"
  by code_simp+









text \<open>The iterations of a schedule in which the wait for a message does not expire.\<close>

definition waits :: "schedule \<Rightarrow> nat" where
  "waits sched = length (filter (\<lambda>e. \<not> snd e) sched)"

lemma waits_simps [simp]: "waits [] = 0" "waits (e # sched) = (if snd e then 0 else 1) + waits sched"
  by (simp_all add: waits_def)




end
