(* ===== verification/Dialogue.thy ===== *)
theory Dialogue
  imports Programs_Correct
begin

text \<open>
  The two sides of a conversation: what the updater program writes and prints when it reads given
  answers, and what its session answers when it reads given requests. \<open>Conversation\<close> connects
  them.
\<close>

subsection \<open>What the user types\<close>

text \<open>The lines of a request: the command and its arguments.\<close>

definition item_lines :: "item \<Rightarrow> string list" where
  "item_lines x = [to_string (i_id x), i_desc x, to_string (i_qty x)]"

definition command_lines :: "message \<Rightarrow> string list" where
  "command_lines m =
     (case m_type m of
        MT_ORDER_NEW \<Rightarrow>
          (case m_order m of
             Some x \<Rightarrow> ''order_new'' # to_string (int (length (o_items x))) # concat (map item_lines (o_items x))
           | None \<Rightarrow> [])
      | MT_ITEM_UPDATE \<Rightarrow>
          [''item_update'', to_string (m_order_id m), to_string (m_item_id m),
           item_status_to_str (m_item_status m)]
      | MT_ORDER_UPDATE \<Rightarrow>
          [''order_update'', to_string (m_order_id m), order_status_to_str (m_order_status m)]
      | _ \<Rightarrow> [])"

text \<open>The requests a user can type: an order's and its items' other fields are the program's.\<close>

definition typed_item :: "item \<Rightarrow> bool" where
  "typed_item x \<longleftrightarrow> wf_item x \<and> i_order_id x = 1 \<and> i_status x = IS_NEW"

definition typed_order :: "order \<Rightarrow> bool" where
  "typed_order x \<longleftrightarrow> o_id x = 1 \<and> o_status x = OS_NEW \<and> o_items x \<noteq> [] \<and>
     int (length (o_items x)) \<le> int_max \<and> list_all typed_item (o_items x)"

definition typed_request :: "message \<Rightarrow> bool" where
  "typed_request m \<longleftrightarrow> frame_fits m \<and>
     (case m_type m of
        MT_ORDER_NEW \<Rightarrow>
          (case m_order m of Some x \<Rightarrow> typed_order x \<and> m = message_order MT_ORDER_NEW (Some x) | None \<Rightarrow> False)
      | MT_ITEM_UPDATE \<Rightarrow>
          positive_int (m_order_id m) \<and> positive_int (m_item_id m) \<and> m_item_status m \<noteq> IS_INVALID \<and>
          m = message_item_update MT_ITEM_UPDATE (m_order_id m) (m_item_id m) (m_item_status m)
      | MT_ORDER_UPDATE \<Rightarrow>
          positive_int (m_order_id m) \<and> m_order_status m \<noteq> OS_INVALID \<and>
          m = message_order_update MT_ORDER_UPDATE (m_order_id m) (m_order_status m)
      | _ \<Rightarrow> False)"

lemma typed_request_cases:
  assumes "typed_request m"
  obtains (order_new) x where "m = message_order MT_ORDER_NEW (Some x)" and "typed_order x"
    | (item_update) k i st where "m = message_item_update MT_ITEM_UPDATE k i st"
        and "positive_int k" and "positive_int i" and "st \<noteq> IS_INVALID"
    | (order_update) k st where "m = message_order_update MT_ORDER_UPDATE k st"
        and "positive_int k" and "st \<noteq> OS_INVALID"
  using assms by (cases "m_type m") (auto simp: typed_request_def split: option.splits)

lemma typed_request_wf: "typed_request m \<Longrightarrow> wf_message m \<and> m_type m \<noteq> MT_QUIT"
proof (erule typed_request_cases)
  fix x assume "m = message_order MT_ORDER_NEW (Some x)" and "typed_order x"
  then show "wf_message m \<and> m_type m \<noteq> MT_QUIT"
    by (auto simp: wf_message_def decoded_ok_def carries_str_def message_ctor_defs typed_order_def
        wf_order_def typed_item_def positive_int_def int_max_def list_all_iff)
qed (simp_all add: wf_message_def decoded_ok_def carries_str_def message_ctor_defs)

subsection \<open>What the program makes of it\<close>

lemma getline_Cons: "con_in con = l # ls \<Longrightarrow> getline con = (True, l, con\<lparr>con_in := ls\<rparr>)"
  by (simp add: getline_def)

lemma read_typed_items:
  assumes "con_in con = concat (map item_lines its) @ rest" and "list_all typed_item its"
  shows "read_items (length its) x con =
    (Inr (x\<lparr>o_items := o_items x @ its\<rparr>), con\<lparr>con_in := rest\<rparr>)"
  using assms
proof (induction its arbitrary: x con)
  case (Cons i its)
  then have i: "positive_int (i_id i)" "positive_int (i_qty i)" "mk_item 1 (i_id i) IS_NEW (i_desc i) (i_qty i) = i"
    by (simp_all add: typed_item_def wf_item_def mk_item_def)
  have con: "con_in con = to_string (i_id i) # i_desc i # to_string (i_qty i) #
      (concat (map item_lines its) @ rest)"
    using Cons.prems(1) by (simp add: item_lines_def [of i])
  have "read_items (length its) (add_item x i) (con\<lparr>con_in := concat (map item_lines its) @ rest\<rparr>) =
      (Inr ((add_item x i)\<lparr>o_items := o_items (add_item x i) @ its\<rparr>), con\<lparr>con_in := rest\<rparr>)"
    using Cons.IH [of "con\<lparr>con_in := concat (map item_lines its) @ rest\<rparr>"] Cons.prems(2) by simp
  then show ?case
    using i by (simp add: getline_def con add_item_def)
qed simp

lemma run_typed_command:
  assumes "typed_request m" and "command_lines m = cmd # args" and "con_in con = args @ rest"
  shows "cmd \<noteq> ''quit'' \<and> run_command cmd d con = send_and_print d m (con\<lparr>con_in := rest\<rparr>)"
  using assms(1)
proof (cases rule: typed_request_cases)
  case (order_new x)
  have n: "positive_int (int (length (o_items x)))"
    using order_new(2) by (simp add: typed_order_def positive_int_def)
  have "read_items (length (o_items x)) (mk_order 1 OS_NEW)
      (con\<lparr>con_in := concat (map item_lines (o_items x)) @ rest\<rparr>) =
    (Inr ((mk_order 1 OS_NEW)\<lparr>o_items := [] @ o_items x\<rparr>), con\<lparr>con_in := rest\<rparr>)"
    using read_typed_items [of "con\<lparr>con_in := concat (map item_lines (o_items x)) @ rest\<rparr>"
        "o_items x" rest "mk_order 1 OS_NEW"] order_new(2)
    by (simp add: typed_order_def)
  moreover have "(mk_order 1 OS_NEW)\<lparr>o_items := [] @ o_items x\<rparr> = x"
    using order_new(2) by (simp add: typed_order_def mk_order_def)
  ultimately show ?thesis
    using assms(2,3) n
    by (auto simp: order_new(1) command_lines_def message_ctor_defs run_command_def
        handle_order_new_def getline_def)
next
  case (item_update k i st)
  with assms(2,3) show ?thesis
    by (auto simp: command_lines_def message_ctor_defs run_command_def handle_item_update_def
        getline_def Let_def)
next
  case (order_update k st)
  with assms(2,3) show ?thesis
    by (auto simp: command_lines_def message_ctor_defs run_command_def handle_order_update_def
        getline_def Let_def)
qed

lemma command_lines_Cons: "typed_request m \<Longrightarrow> \<exists>cmd args. command_lines m = cmd # args"
  by (erule typed_request_cases) (simp_all add: command_lines_def message_ctor_defs)

subsection \<open>The program's side\<close>

text \<open>What the user sees of a response.\<close>

definition shown_response :: "message \<Rightarrow> string" where
  "shown_response r = (if m_type r = MT_OK then ''Success: '' else ''Failure: '') @ m_str r @ endl"

definition dialogue_text :: "message list \<Rightarrow> string" where
  "dialogue_text rs = concat (List.map (\<lambda>r. ''> '' @ shown_response r) rs)"

definition is_verdict :: "message \<Rightarrow> bool" where
  "is_verdict r \<longleftrightarrow> wf_message r \<and> m_type r \<in> {MT_OK, MT_ERROR}"

lemma request_answered:
  assumes "frame_fits m" and "on_wire r u" and "wf_message r"
    and "rd_ok d" and "wr_ok d" and "fd_in d = u @ rest"
  obtains d' t where "send_request_receive_response d m = (Inr r, d')" and "on_wire m t"
    and "fd_out d' = fd_out d @ t" and "fd_in d' = rest" and "rd_ok d'" and "wr_ok d'"
proof -
  obtain x where "encode m = Inr x" "length x \<le> 9998"
    using assms(1) by (auto simp: frame_fits_def split: sum.splits)
  from send_message_ok [OF this assms(5)] obtain d1 t where
    d1: "send_message d m = (Inr (), d1)" "on_wire m t" "fd_out d1 = fd_out d @ t" "fd_in d1 = fd_in d"
      "fd_rd d1 = fd_rd d" "wr_ok d1" by blast
  have "rd_ok d1" using assms(4) d1(5) by (simp add: rd_ok_def)
  moreover have "fd_in d1 = u @ rest" using assms(6) d1(4) by simp
  ultimately obtain d2 where "receive_message d1 = (Inr r, d2)" "fd_in d2 = rest" "rd_ok d2"
      "fd_out d2 = fd_out d1" "fd_wr d2 = fd_wr d1"
    using receive_on_wire [OF _ _ assms(2,3)] by blast
  with d1 that [of d2 t] show ?thesis
    by (simp add: send_request_receive_response_def wr_ok_def)
qed

lemma updater_loop_command:
  assumes "typed_request m" and "con_in con = command_lines m @ rest_in"
    and "on_wire r u" and "is_verdict r" and "rd_ok d" and "wr_ok d" and "fd_in d = u @ rest"
  obtains d' t where
    "updater_main_loop d con =
       updater_main_loop d' (con\<lparr>con_in := rest_in, con_out := con_out con @ ''> '' @ shown_response r\<rparr>)"
    and "on_wire m t" and "fd_out d' = fd_out d @ t" and "fd_in d' = rest" and "rd_ok d'" and "wr_ok d'"
proof -
  obtain cmd args where c: "command_lines m = cmd # args"
    using command_lines_Cons [OF assms(1)] by blast
  let ?con = "(put_out ''> '' con)\<lparr>con_in := args @ rest_in\<rparr>"
  have run: "cmd \<noteq> ''quit''" "run_command cmd d ?con = send_and_print d m (?con\<lparr>con_in := rest_in\<rparr>)"
    using run_typed_command [OF assms(1) c, of ?con rest_in] by simp_all
  have "frame_fits m" "wf_message r"
    using assms(1,4) by (simp_all add: typed_request_def is_verdict_def)
  then obtain d' t where q: "send_request_receive_response d m = (Inr r, d')" "on_wire m t"
      "fd_out d' = fd_out d @ t" "fd_in d' = rest" "rd_ok d'" "wr_ok d'"
    using request_answered [OF _ assms(3) _ assms(5-7)] by blast
  have "getline (put_out ''> '' con) = (True, cmd, ?con)"
    using assms(2) c by (simp add: getline_def put_out_def)
  then have "updater_main_loop d con =
      updater_main_loop d' (con\<lparr>con_in := rest_in, con_out := con_out con @ ''> '' @ shown_response r\<rparr>)"
    using run q(1) assms(4)
    by (subst updater_main_loop.simps)
      (auto simp: send_and_print_def print_result_response_def is_verdict_def put_out_def
        shown_response_def)
  with q that show ?thesis by blast
qed

lemma updater_loop_commands:
  assumes "list_all typed_request ms" and "con_in con = concat (List.map command_lines ms) @ rest_in"
    and "list_all2 on_wire rs us" and "list_all is_verdict rs" and "length rs = length ms"
    and "rd_ok d" and "wr_ok d" and "fd_in d = concat us @ rest"
  obtains d' ts where
    "updater_main_loop d con =
       updater_main_loop d' (con\<lparr>con_in := rest_in, con_out := con_out con @ dialogue_text rs\<rparr>)"
    and "list_all2 on_wire ms ts" and "fd_out d' = fd_out d @ concat ts" and "fd_in d' = rest"
    and "rd_ok d'" and "wr_ok d'"
  using assms
proof (induction ms arbitrary: con rs us d thesis)
  case Nil
  have e: "rs = []" "us = []" using Nil.prems(4,6) by auto
  have "con\<lparr>con_in := rest_in, con_out := con_out con @ dialogue_text []\<rparr> = con"
    using Nil.prems(3) by (simp add: dialogue_text_def)
  then show ?case
    by (intro Nil.prems(1) [of d "[]"]) (use Nil.prems(7-9) e in \<open>simp_all only: e, simp_all\<close>)
next
  case (Cons m ms)
  obtain r rs' u us' where rs: "rs = r # rs'" "us = u # us'" "on_wire r u" "list_all2 on_wire rs' us'"
    using Cons.prems(4,6) by (cases rs) (auto simp: list_all2_Cons1)
  obtain d1 t where d1: "updater_main_loop d con = updater_main_loop d1
        (con\<lparr>con_in := concat (List.map command_lines ms) @ rest_in,
             con_out := con_out con @ ''> '' @ shown_response r\<rparr>)" (is "_ = updater_main_loop d1 ?con")
      "on_wire m t" "fd_out d1 = fd_out d @ t" "fd_in d1 = concat us' @ rest" "rd_ok d1" "wr_ok d1"
    using updater_loop_command [of m con "concat (List.map command_lines ms) @ rest_in" r u d "concat us' @ rest"]
      Cons.prems rs by auto
  obtain d' ts where "updater_main_loop d1 ?con =
       updater_main_loop d' (?con\<lparr>con_in := rest_in, con_out := con_out ?con @ dialogue_text rs'\<rparr>)"
    "list_all2 on_wire ms ts" "fd_out d' = fd_out d1 @ concat ts" "fd_in d' = rest" "rd_ok d'" "wr_ok d'"
    using Cons.IH [where con = ?con and rs = rs' and us = us' and d = d1] Cons.prems rs d1 by auto
  with d1 rs show ?case
    by (intro Cons.prems(1) [of d' "t # ts"]) (simp_all add: dialogue_text_def)
qed

lemma updater_loop_quit:
  assumes "con_in con = [''quit'']" and "on_wire (message_str MT_OK s) u" and "s \<noteq> []"
    and "CHR ''|'' \<notin> set s" and "rd_ok d" and "wr_ok d" and "fd_in d = u @ rest"
  obtains d' t where
    "updater_main_loop d con = (Inl 0, d', con\<lparr>con_in := [], con_out := con_out con @ ''> ''\<rparr>)"
    and "on_wire (message_str MT_QUIT ''quit'') t" and "fd_out d' = fd_out d @ t" and "fd_in d' = rest"
proof -
  have "frame_fits (message_str MT_QUIT ''quit'')" by code_simp
  then obtain d' t where q: "send_request_receive_response d (message_str MT_QUIT ''quit'') = (Inr (message_str MT_OK s), d')"
      "on_wire (message_str MT_QUIT ''quit'') t" "fd_out d' = fd_out d @ t" "fd_in d' = rest"
    by (rule request_answered [OF _ assms(2) wf_str_message(1) [OF assms(3,4)] assms(5-7)])
      simp_all
  then have "updater_main_loop d con = (Inl 0, d', con\<lparr>con_in := [], con_out := con_out con @ ''> ''\<rparr>)"
    using assms(1)
    by (subst updater_main_loop.simps)
      (simp add: getline_def put_out_def quit_command_def message_ctor_defs)
  with q that show ?thesis by blast
qed

subsection \<open>The session's side\<close>

lemma response_verdict:
  "typed_request m \<Longrightarrow> is_verdict (response m s)"
  by (erule typed_request_cases)
    (auto simp: is_verdict_def wf_response, auto simp: response_def message_ctor_defs verdict_def split: sum.splits)

lemma serve_all_verdicts:
  "list_all typed_request ms \<Longrightarrow> length sched = length ms \<Longrightarrow>
     list_all is_verdict (fst (serve_all sched ms s)) \<and> length (fst (serve_all sched ms s)) = length ms"
  by (induction sched ms s rule: serve_all.induct) (auto simp: response_verdict Let_def split: prod.splits)

lemma requests_decode:
  "list_all2 on_wire ms ts \<Longrightarrow> list_all typed_request ms \<Longrightarrow>
     list_all2 (\<lambda>m t. m_type m \<noteq> MT_QUIT \<and> (\<exists>raw. is_frame raw t \<and> decode raw = Inr m)) ms ts"
proof (induction rule: list_all2_induct)
  case (Cons m ms t ts)
  from typed_request_wf [of m] Cons.prems have m: "wf_message m" "m_type m \<noteq> MT_QUIT" by simp_all
  obtain raw where "encode m = Inr raw" "is_frame raw t"
    using Cons.hyps(1) by (auto simp: on_wire_def)
  with wire.enc_succeeds [OF m(1)] have "\<exists>raw. is_frame raw t \<and> decode raw = Inr m" by auto
  with m(2) Cons show ?case by simp
qed simp

lemma quit_decode:
  assumes "on_wire (message_str MT_QUIT ''quit'') t"
  obtains raw where "is_frame raw t" and "decode raw = Inr (message_str MT_QUIT ''quit'')"
proof -
  have "wf_message (message_str MT_QUIT ''quit'')"
    by (simp add: wf_message_def decoded_ok_def carries_str_def message_ctor_defs)
  from wire.enc_succeeds [OF this] assms that show ?thesis
    by (auto simp: on_wire_def)
qed

lemma frames_on_wire: "frames_of ms t \<longleftrightarrow> (\<exists>us. t = concat us \<and> list_all2 on_wire ms us)"
proof -
  have "on_wire = (\<lambda>m u. \<exists>s. encode m = Inr s \<and> is_frame s u)"
    by (simp add: fun_eq_iff on_wire_def)
  then show ?thesis by (simp add: frames_of_def)
qed

lemma serve_all_inv: "server_inv s \<Longrightarrow> server_inv (snd (serve_all sched ms s))"
  by (induction sched ms s rule: serve_all.induct)
    (auto simp: Let_def served_inv server_run_inv split: prod.splits)

lemma session_requests:
  assumes "server_inv s" and "rd_ok (m_fd c)" and "wr_ok (m_fd c)" and "m_running c"
    and "fd_in (m_fd c) = concat ts @ tq @ rest"
    and "list_all2 on_wire ms ts" and "list_all typed_request ms"
    and "on_wire (message_str MT_QUIT ''quit'') tq"
    and "length sched = length ms"
    and "m_next_order_id s + int (length (sched_ops sched) + length ops + length ms) \<le> int_max"
  obtains c' us uq where
    "updater_loop (sched @ [(ops, b)]) c s =
       (Some (Inr ()), c', server_run ops (snd (serve_all sched ms s)))"
    and "list_all2 on_wire (fst (serve_all sched ms s)) us" and "on_wire (message_str MT_OK ''bye'') uq"
    and "fd_out (m_fd c') = fd_out (m_fd c) @ concat us @ uq"
proof -
  have bound: "m_next_order_id s + int (length (sched_ops sched) + length ms) \<le> int_max"
    using assms(10) by simp
  obtain c1 out where c1: "updater_loop (sched @ [(ops, b)]) c s = updater_loop [(ops, b)] c1 (snd (serve_all sched ms s))"
      "fd_in (m_fd c1) = tq @ rest" "fd_out (m_fd c1) = fd_out (m_fd c) @ out"
      "frames_of (fst (serve_all sched ms s)) out" "rd_ok (m_fd c1)" "wr_ok (m_fd c1)" "m_running c1"
    using updater_session_frames [OF assms(1-5) requests_decode [OF assms(6,7)] assms(9) bound] by blast
  let ?s = "server_run ops (snd (serve_all sched ms s))"
  have inv: "server_inv ?s"
    by (rule server_run_inv [OF serve_all_inv [OF assms(1)]])
  obtain raw where raw: "is_frame raw tq" "decode raw = Inr (message_str MT_QUIT ''quit'')"
    using quit_decode [OF assms(8)] by blast
  have q: "m_type (message_str MT_QUIT ''quit'') = MT_QUIT" "served (message_str MT_QUIT ''quit'') ?s = ?s"
    "response (message_str MT_QUIT ''quit'') ?s = message_str MT_OK ''bye''"
    by (simp_all add: message_ctor_defs served_def request_op_def response_def)
  obtain d u rsp where
    it: "updater_iteration c1 ?s = (Inr Return, c1\<lparr>m_fd := d\<rparr>, ?s)"
    and u: "fd_out d = fd_out (m_fd c1) @ u" "encode (message_str MT_OK ''bye'') = Inr rsp" "is_frame rsp u"
    by (rule updater_iteration_request [OF inv c1(5,6,2) raw]) (simp_all add: q)
  have "updater_loop (sched @ [(ops, b)]) c s = (Some (Inr ()), c1\<lparr>m_fd := d\<rparr>, ?s)"
    using c1(1,7) it by simp
  moreover obtain us where "out = concat us" "list_all2 on_wire (fst (serve_all sched ms s)) us"
    using c1(4) unfolding frames_on_wire by blast
  moreover have "on_wire (message_str MT_OK ''bye'') u" using u by (auto simp: on_wire_def)
  ultimately show ?thesis using u(1) c1(3) that by simp
qed

subsection \<open>Logging in\<close>

lemma credentials_sendable:
  assumes "authenticate cred"
  shows "wf_message (message_login MT_LOGIN CM_UPDATER cred) \<and>
    frame_fits (message_login MT_LOGIN CM_UPDATER cred)"
proof -
  have "list_all (\<lambda>c. c \<noteq> [] \<and> CHR ''|'' \<notin> set c \<and> frame_fits (message_login MT_LOGIN CM_UPDATER c)) s_passwd_db"
    by code_simp
  with assms have "cred \<noteq> []" "CHR ''|'' \<notin> set cred" "frame_fits (message_login MT_LOGIN CM_UPDATER cred)"
    by (simp_all add: authenticate_def list_all_iff)
  then show ?thesis
    by (simp add: wf_message_def decoded_ok_def carries_str_def message_ctor_defs)
qed

lemma client_new_fd: "m_fd (client_new i d) = d"
  by (simp add: client_new_def)

lemma session_login:
  assumes "authenticate cred" and "on_wire (message_login MT_LOGIN CM_UPDATER cred) t"
    and "rd_ok d" and "wr_ok d" and "fd_in d = t @ rest"
  obtains c u where
    "\<And>sched s. client_thread_start sched (client_new i d) s =
       (case updater_loop sched c s of
          (Some (Inr _), c', s') \<Rightarrow> (Some (Inr ()), c'\<lparr>m_closed := True\<rparr>, s')
        | (Some (Inl e), c', s') \<Rightarrow>
            (if is_std_exception e then (Some (Inr ()), c'\<lparr>m_closed := True\<rparr>, s') else (Some (Inl e), c', s'))
        | r \<Rightarrow> r)"
    and "m_running c" and "fd_in (m_fd c) = rest" and "rd_ok (m_fd c)" and "wr_ok (m_fd c)"
    and "on_wire (message_str MT_OK ''Login successful'') u" and "fd_out (m_fd c) = fd_out d @ u"
proof -
  let ?m = "message_login MT_LOGIN CM_UPDATER cred"
  obtain raw where raw: "encode ?m = Inr raw" "is_frame raw t"
    using assms(2) by (auto simp: on_wire_def)
  have dec: "decode raw = Inr ?m"
    using wire.enc_succeeds [of ?m] credentials_sendable [OF assms(1)] raw(1) by auto
  obtain d1 where d1: "io_receive d = (Inr raw, d1)" "fd_in d1 = rest" "rd_ok d1"
      "fd_out d1 = fd_out d" "fd_wr d1 = fd_wr d"
    using io_receive_frame [OF assms(3,5) raw(2)] by blast
  let ?c = "(client_new i d)\<lparr>m_fd := d1\<rparr>"
  have "wr_ok (m_fd ?c)" using assms(4) d1(5) by (simp add: wr_ok_def)
  moreover obtain x where "encode (message_str MT_OK ''Login successful'') = Inr x" "length x \<le> 9998"
  proof -
    have "frame_fits (message_str MT_OK ''Login successful'')" by code_simp
    with that show ?thesis by (auto simp: frame_fits_def split: sum.splits)
  qed
  ultimately obtain d2 u where d2:
      "client_send_message (message_str MT_OK ''Login successful'') ?c = (Inr True, ?c\<lparr>m_fd := d2\<rparr>)"
      "is_frame x u" "fd_out d2 = fd_out d1 @ u" "fd_in d2 = fd_in d1" "fd_rd d2 = fd_rd d1" "wr_ok d2"
    using client_send_ok [of _ x ?c] by auto
  let ?c2 = "?c\<lparr>m_fd := d2, m_mode := CM_UPDATER\<rparr>"
  have start: "client_thread_start sched (client_new i d) s =
       (case updater_loop sched ?c2 s of
          (Some (Inr _), c', s') \<Rightarrow> (Some (Inr ()), c'\<lparr>m_closed := True\<rparr>, s')
        | (Some (Inl e), c', s') \<Rightarrow>
            (if is_std_exception e then (Some (Inr ()), c'\<lparr>m_closed := True\<rparr>, s') else (Some (Inl e), c', s'))
        | r \<Rightarrow> r)" for sched s
  proof -
    have m: "m_type ?m = MT_LOGIN" "has_client_mode ?m" "has_str ?m" "m_str ?m = cred"
        "m_client_mode ?m = CM_UPDATER"
      using credentials_sendable [OF assms(1)]
      by (simp_all add: has_client_mode_def has_str_def wf_message_def carries_str_def message_ctor_defs)
    have "chat_body sched (client_new i d) s = updater_loop sched ?c2 s"
      using d1(1) d2(1) dec assms(1) m by (simp add: chat_body_def chat_mode_def Let_def client_new_fd)
    then show ?thesis
      by (simp add: client_thread_start_def chat_def split: prod.split option.split sum.split)
  qed
  have "on_wire (message_str MT_OK ''Login successful'') u"
    using d2(2) \<open>encode _ = Inr x\<close> by (auto simp: on_wire_def)
  with start d1 d2 show ?thesis
    by (intro that [of ?c2 u]) (simp_all add: client_new_def rd_ok_def)
qed

subsection \<open>A frame is determined by its text\<close>

lemma dec_val_inj:
  assumes "length p = length q" and "\<forall>c\<in>set p. is_digit c" and "\<forall>c\<in>set q. is_digit c"
    and "dec_val p = dec_val q"
  shows "p = q"
  using assms
proof (induction p arbitrary: q rule: rev_induct)
  case (snoc c p)
  obtain e r where q: "q = r @ [e]" using snoc.prems(1) by (cases q rule: rev_exhaust) auto
  have d: "is_digit c" "is_digit e" using snoc.prems(2,3) q by simp_all
  then have lt: "digit_val c < 10" "digit_val e < 10"
    unfolding is_digit_def digit_val_def by arith+
  have "10 * dec_val p + digit_val c = 10 * dec_val r + digit_val e"
    using snoc.prems(4) by (simp add: q dec_val_snoc)
  with lt have "dec_val p = dec_val r" "digit_val c = digit_val e" by presburger+
  moreover have "c = e"
  proof -
    have "(of_char c :: nat) = of_char e"
      using \<open>digit_val c = digit_val e\<close> d unfolding is_digit_def digit_val_def by arith
    then show ?thesis by simp
  qed
  ultimately show ?case
    using snoc.IH [of r] snoc.prems(1-3) q by simp
qed simp

lemma on_wire_unique:
  assumes "on_wire m t" and "on_wire m t'"
  shows "t = t'"
proof -
  obtain x p where p: "encode m = Inr x" "t = p @ x @ [CHR 0x0A]" "length p = 4"
      "\<forall>c\<in>set p. is_digit c" "dec_val p = length x + 1"
    using assms(1) by (auto simp: on_wire_def is_frame_def)
  moreover obtain q where q: "t' = q @ x @ [CHR 0x0A]" "length q = 4"
      "\<forall>c\<in>set q. is_digit c" "dec_val q = length x + 1"
    using assms(2) p(1) by (auto simp: on_wire_def is_frame_def)
  moreover have "p = q" by (rule dec_val_inj) (simp_all add: p q)
  ultimately show ?thesis by simp
qed

lemma on_wire_list_unique: "list_all2 on_wire ms ts \<Longrightarrow> list_all2 on_wire ms us \<Longrightarrow> ts = us"
proof (induction ms arbitrary: ts us)
  case (Cons m ms)
  then show ?case by (auto simp: list_all2_Cons1 intro: on_wire_unique)
qed simp

lemma on_wire_exists: "frame_fits m \<Longrightarrow> \<exists>t. on_wire m t"
  by (auto simp: frame_fits_def on_wire_def split: sum.splits elim!: frame_is_frame)

lemma on_wire_list_exists: "list_all typed_request ms \<Longrightarrow> \<exists>ts. list_all2 on_wire ms ts"
proof (induction ms)
  case (Cons m ms)
  then have "frame_fits m" "\<exists>ts. list_all2 on_wire ms ts" by (simp_all add: typed_request_def)
  then obtain t ts where "on_wire m t" "list_all2 on_wire ms ts"
    using on_wire_exists by blast
  then show ?case by (intro exI [of _ "t # ts"]) simp
qed (auto intro: exI [of _ "[]"])

subsection \<open>The two ends together\<close>

lemma fed_ok [simp]:
  "rd_ok (d\<lparr>fd_in := x\<rparr>) = rd_ok d" "wr_ok (d\<lparr>fd_in := x\<rparr>) = wr_ok d"
  by (simp_all add: rd_ok_def wr_ok_def)

lemma typed_credentials:
  assumes "con_in con = username # password # rest"
  shows "prompt_for_credentials con =
    (username @ ''/'' @ password, con\<lparr>con_in := rest, con_out := con_out con @ ''username: password: ''\<rparr>)"
  using assms by (simp add: prompt_for_credentials_def getline_def put_out_def)

end
