(* ===== verification/Conversation.thy ===== *)
theory Conversation
  imports Dialogue "HOL-Library.Sublist"
begin

text \<open>
  The updater program and its session as the two ends of one connection. The bytes each writes
  depend on the bytes it has read, and those are what the other wrote: the streams between them
  exist and are determined, because both only ever append and each end's next message depends on
  the other's earlier ones.
\<close>

subsection \<open>Two ends that answer each other\<close>

text \<open>
  One side writes its next piece after it has read the answers to the earlier ones, the
  other answers every piece; then the streams between them are determined.
\<close>

lemma streams_determined:
  assumes "t = P u" and "u = S t" and "length R = length U"
    and ask: "\<And>k. k < length R \<Longrightarrow> prefix (concat (take k U)) u \<Longrightarrow> prefix (concat (take (Suc k) R)) (P u)"
    and answer: "\<And>k. k < length R \<Longrightarrow> prefix (concat (take (Suc k) R)) t \<Longrightarrow> prefix (concat (take (Suc k) U)) (S t)"
    and done_ask: "prefix (concat U) u \<Longrightarrow> P u = concat R"
    and done_answer: "S (concat R) = concat U"
  shows "t = concat R \<and> u = concat U"
proof -
  have "prefix (concat (take k U)) u" if "k \<le> length R" for k
    using that
  proof (induction k)
    case (Suc k)
    then have "prefix (concat (take (Suc k) R)) (P u)" by (intro ask) simp_all
    then have "prefix (concat (take (Suc k) R)) t" by (simp only: assms(1) [symmetric])
    from answer [OF _ this] Suc.prems show ?case by (simp only: assms(2) [symmetric])
  qed simp
  from this [of "length R"] have "prefix (concat U) u" using assms(3) by simp
  from done_ask [OF this] have "t = concat R" by (simp only: assms(1) [symmetric])
  then show ?thesis using assms(2) done_answer by (simp only:)
qed

subsection \<open>Writing only appends\<close>

lemma send_message_out: "send_message d m = (r, d') \<Longrightarrow> prefix (fd_out d) (fd_out d')"
  using io_send_cases by (fastforce simp: send_message_def split: sum.splits if_splits)

lemma request_out: "send_request_receive_response d m = (r, d') \<Longrightarrow> prefix (fd_out d) (fd_out d')"
  by (auto simp: send_request_receive_response_def receive_message_def
      split: prod.splits sum.splits dest!: send_message_out io_receive_frame_fd)

lemma send_and_print_out: "send_and_print d m con = (r, d', con') \<Longrightarrow> prefix (fd_out d) (fd_out d')"
  by (auto simp: send_and_print_def split: prod.splits sum.splits dest: request_out)

lemma run_command_out: "run_command c d con = (r, d', con') \<Longrightarrow> prefix (fd_out d) (fd_out d')"
  by (auto simp: run_command_def handle_order_new_def handle_item_update_def handle_order_update_def
      Let_def split: prod.splits sum.splits if_splits dest: send_and_print_out)

lemma updater_main_loop_out: "prefix (fd_out d) (fd_out (fst (snd (updater_main_loop d con))))"
proof (induction d con rule: updater_main_loop.induct)
  case (1 d con)
  obtain ok cmd con1 where g: "getline (put_out ''> '' con) = (ok, cmd, con1)" by (metis prod_cases3)
  obtain r d1 con2 where c: "run_command cmd d con1 = (r, d1, con2)" by (metis prod_cases3)
  note C = run_command_out [OF c]
  show ?case
  proof (cases "ok \<and> cmd \<noteq> ''quit'' \<and> (\<exists>x. r = Inr x)")
    case True
    then have "updater_main_loop d con = updater_main_loop d1 con2"
      using g c by (subst updater_main_loop.simps) auto
    moreover have "prefix (fd_out d1) (fd_out (fst (snd (updater_main_loop d1 con2))))"
      using "1.IH" [OF g [symmetric] refl _ _ c [symmetric] _ refl] True by auto
    ultimately show ?thesis using C by (auto intro: prefix_order.trans)
  next
    case False
    then show ?thesis
      using g c C by (subst updater_main_loop.simps)
        (auto simp: quit_command_def split: sum.splits prod.splits dest: request_out)
  qed
qed

text \<open>The next request is written whatever comes back.\<close>

lemma request_written:
  assumes "frame_fits m" and "on_wire m t" and "wr_ok d" and "send_request_receive_response d m = (r, d')"
  shows "prefix (fd_out d @ t) (fd_out d')"
proof -
  obtain x where "encode m = Inr x" "length x \<le> 9998"
    using assms(1) by (auto simp: frame_fits_def split: sum.splits)
  from send_message_ok [OF this assms(3)] obtain d1 t1 where
    d1: "send_message d m = (Inr (), d1)" "on_wire m t1" "fd_out d1 = fd_out d @ t1" by blast
  have "t1 = t" using on_wire_unique [OF d1(2) assms(2)] .
  obtain q d2 where "receive_message d1 = (q, d2)" by fastforce
  moreover from this have "fd_out d2 = fd_out d1"
    by (auto simp: receive_message_def split: prod.splits sum.splits dest!: io_receive_frame_fd)
  ultimately show ?thesis
    using assms(4) d1(1,3) \<open>t1 = t\<close> by (simp add: send_request_receive_response_def)
qed

lemma next_request_written:
  assumes "list_all typed_request ms" and "con_in con = concat (List.map command_lines ms) @ [''quit'']"
    and "on_wire (hd (ms @ [message_str MT_QUIT ''quit''])) t" and "wr_ok d"
  shows "prefix (fd_out d @ t) (fd_out (fst (snd (updater_main_loop d con))))"
proof (cases ms)
  case Nil
  have q: "frame_fits (message_str MT_QUIT ''quit'')" by code_simp
  obtain r d1 where r: "send_request_receive_response d (message_str MT_QUIT ''quit'') = (r, d1)" by fastforce
  have "prefix (fd_out d @ t) (fd_out d1)"
    using request_written [OF q _ assms(4) r] assms(3) Nil by simp
  moreover have "fst (snd (updater_main_loop d con)) = d1"
    using assms(2) Nil r
    by (subst updater_main_loop.simps) (auto simp: getline_def put_out_def quit_command_def split: sum.split)
  ultimately show ?thesis by simp
next
  case (Cons m ms')
  have m: "typed_request m" using assms(1) Cons by simp
  obtain cmd args where c: "command_lines m = cmd # args"
    using command_lines_Cons [OF m] by blast
  let ?rest = "concat (List.map command_lines ms') @ [''quit'']"
  let ?con = "(put_out ''> '' con)\<lparr>con_in := args @ ?rest\<rparr>"
  have run: "cmd \<noteq> ''quit''" "run_command cmd d ?con = send_and_print d m (?con\<lparr>con_in := ?rest\<rparr>)"
    using run_typed_command [OF m c, of ?con ?rest] by simp_all
  obtain r d1 where r: "send_request_receive_response d m = (r, d1)" by fastforce
  have p: "prefix (fd_out d @ t) (fd_out d1)"
    using request_written [OF _ _ assms(4) r] m assms(3) Cons by (simp add: typed_request_def)
  obtain q con2 where s: "send_and_print d m (?con\<lparr>con_in := ?rest\<rparr>) = (q, d1, con2)"
    using r by (fastforce simp: send_and_print_def split: prod.split sum.split)
  have g: "getline (put_out ''> '' con) = (True, cmd, ?con)"
    using assms(2) c Cons by (simp add: getline_def put_out_def)
  have "updater_main_loop d con = (case q of Inl e \<Rightarrow> (Inr e, d1, con2) | Inr _ \<Rightarrow> updater_main_loop d1 con2)"
    using g run s by (subst updater_main_loop.simps) (simp split: sum.split)
  then show ?thesis
    using p updater_main_loop_out [of d1 con2] by (cases q) (auto intro: prefix_order.trans)
qed

subsection \<open>The session only appends\<close>

lemma client_send_out: "client_send_message m c = (r, c') \<Longrightarrow> prefix (fd_out (m_fd c)) (fd_out (m_fd c'))"
  using io_send_cases by (fastforce simp: client_send_message_def split: sum.splits prod.splits if_splits)

lemma updater_request_out:
  "updater_request m c s = (r, c', s') \<Longrightarrow> prefix (fd_out (m_fd c)) (fd_out (m_fd c'))"
  by (auto simp: updater_request_def reply_def split: if_splits option.splits prod.splits sum.splits exn.splits
      dest: client_send_out)

lemma updater_iteration_out:
  assumes "updater_iteration c s = (r, c', s')"
  shows "prefix (fd_out (m_fd c)) (fd_out (m_fd c'))"
proof -
  obtain q d where d: "io_receive (m_fd c) = (q, d)" by fastforce
  have "fd_out d = fd_out (m_fd c)" using io_receive_frame_fd [OF d] by simp
  then show ?thesis
    using assms d
    by (auto simp: updater_iteration_def updater_body_def Let_def
        split: sum.splits prod.splits if_splits dest: updater_request_out)
qed

lemma updater_loop_out:
  "prefix (fd_out (m_fd c)) (fd_out (m_fd (fst (snd (updater_loop sched c s)))))"
proof (induction sched arbitrary: c s)
  case Nil
  show ?case by (cases "m_running c") simp_all
next
  case (Cons e sched)
  obtain ops b where e [simp]: "e = (ops, b)" by (cases e)
  obtain r c1 s1 where it: "updater_iteration c (server_run ops s) = (r, c1, s1)" by (metis prod_cases3)
  from updater_iteration_out [OF it] it Cons.IH [of c1 s1] show ?case
    by (cases "m_running c") (auto split: sum.splits flow.splits intro: prefix_order.trans)
qed

subsection \<open>The program, given some of the answers\<close>

lemma login_written:
  assumes "con_in con = username # password # rest_in"
    and "frame_fits (message_login MT_LOGIN CM_UPDATER (username @ ''/'' @ password))"
    and "on_wire (message_login MT_LOGIN CM_UPDATER (username @ ''/'' @ password)) tn" and "wr_ok d"
  shows "prefix (fd_out d @ tn) (fd_out (fst (snd (updater_session d con))))"
proof -
  let ?login = "message_login MT_LOGIN CM_UPDATER (username @ ''/'' @ password)"
  obtain r d1 where r: "send_request_receive_response d ?login = (r, d1)" by fastforce
  from request_written [OF assms(2,3,4) r] show ?thesis
    using typed_credentials [OF assms(1)] r updater_main_loop_out [of d1]
    by (auto simp: updater_session_def split: sum.split intro: prefix_order.trans)
qed

lemma logged_in:
  assumes "con_in con = username # password # rest_in"
    and "frame_fits (message_login MT_LOGIN CM_UPDATER (username @ ''/'' @ password))"
    and "on_wire (message_login MT_LOGIN CM_UPDATER (username @ ''/'' @ password)) tn"
    and "on_wire (message_str MT_OK ''Login successful'') un"
    and "rd_ok d" and "wr_ok d" and "fd_in d = un @ rest"
  obtains d1 where "updater_session d con = updater_main_loop d1
      (con\<lparr>con_in := rest_in, con_out := con_out con @ ''username: password: ''\<rparr>)"
    and "fd_out d1 = fd_out d @ tn" and "fd_in d1 = rest" and "rd_ok d1" and "wr_ok d1"
proof -
  have "wf_message (message_str MT_OK ''Login successful'')" by (simp add: wf_str_message)
  then obtain d1 t where d1: "send_request_receive_response d (message_login MT_LOGIN CM_UPDATER (username @ ''/'' @ password)) =
        (Inr (message_str MT_OK ''Login successful''), d1)"
      "on_wire (message_login MT_LOGIN CM_UPDATER (username @ ''/'' @ password)) t"
      "fd_out d1 = fd_out d @ t" "fd_in d1 = rest" "rd_ok d1" "wr_ok d1"
    using request_answered [OF assms(2,4) _ assms(5-7)] by blast
  moreover have "t = tn" by (rule on_wire_unique [OF d1(2) assms(3)])
  ultimately show ?thesis
    using typed_credentials [OF assms(1)] that [of d1] by (simp add: updater_session_def message_ctor_defs)
qed

lemma program_asks:
  assumes "con_in con = username # password # concat (List.map command_lines ms) @ [''quit'']"
    and "frame_fits (message_login MT_LOGIN CM_UPDATER (username @ ''/'' @ password))"
    and "on_wire (message_login MT_LOGIN CM_UPDATER (username @ ''/'' @ password)) tn"
    and "on_wire (message_str MT_OK ''Login successful'') un"
    and "list_all typed_request ms" and "list_all2 on_wire ms ts"
    and "on_wire (message_str MT_QUIT ''quit'') tq"
    and "list_all2 on_wire rs us" and "list_all is_verdict rs" and "length rs = length ms"
    and "rd_ok d" and "wr_ok d" and "fd_in d = un @ concat (take j us) @ rest" and "j \<le> length ms"
  shows "prefix (fd_out d @ tn @ concat (take j ts) @ (ts @ [tq]) ! j)
    (fd_out (fst (snd (updater_session d con))))"
proof -
  let ?con = "con\<lparr>con_in := concat (List.map command_lines ms) @ [''quit''],
    con_out := con_out con @ ''username: password: ''\<rparr>"
  obtain d1 where d1: "updater_session d con = updater_main_loop d1 ?con"
    "fd_out d1 = fd_out d @ tn" "fd_in d1 = concat (take j us) @ rest" "rd_ok d1" "wr_ok d1"
    using logged_in [OF assms(1-4) assms(11-13)] by blast
  have in1: "con_in ?con = concat (List.map command_lines (take j ms)) @
      concat (List.map command_lines (drop j ms)) @ [''quit'']"
    by (simp flip: concat_append map_append append_assoc)
  have J: "list_all typed_request (take j ms)" "list_all2 on_wire (take j rs) (take j us)"
    "list_all is_verdict (take j rs)" "length (take j rs) = length (take j ms)"
    "list_all typed_request (drop j ms)" "list_all2 on_wire (take j ms) (take j ts)"
    using assms(5,6,8-10) by (auto simp: list_all2_takeI list_all_iff dest: in_set_takeD in_set_dropD)
  obtain d2 ts2 con2 where d2: "updater_main_loop d1 ?con = updater_main_loop d2 con2"
      "con_in con2 = concat (List.map command_lines (drop j ms)) @ [''quit'']"
      "list_all2 on_wire (take j ms) ts2" "fd_out d2 = fd_out d1 @ concat ts2" "wr_ok d2"
    by (rule updater_loop_commands [OF J(1) in1 J(2-4) d1(4,5,3)]) simp
  have ts2: "ts2 = take j ts" by (rule on_wire_list_unique [OF d2(3) J(6)])
  have "on_wire (hd (drop j ms @ [message_str MT_QUIT ''quit''])) ((ts @ [tq]) ! j)"
  proof (cases "j < length ms")
    case True
    then show ?thesis
      using list_all2_nthD [OF assms(6)] list_all2_lengthD [OF assms(6)]
      by (simp add: hd_append hd_drop_conv_nth nth_append)
  next
    case False
    then show ?thesis
      using assms(7,14) list_all2_lengthD [OF assms(6)] by (simp add: nth_append)
  qed
  from next_request_written [OF J(5) d2(2) this d2(5)] show ?thesis
    by (simp add: d1(1,2) d2(1,4) ts2)
qed

lemma program_asks_next:
  assumes "con_in con = username # password # concat (List.map command_lines ms) @ [''quit'']"
    and "frame_fits (message_login MT_LOGIN CM_UPDATER (username @ ''/'' @ password))"
    and "on_wire (message_login MT_LOGIN CM_UPDATER (username @ ''/'' @ password)) tn"
    and "on_wire (message_str MT_OK ''Login successful'') un"
    and "list_all typed_request ms" and "list_all2 on_wire ms ts"
    and "on_wire (message_str MT_QUIT ''quit'') tq"
    and "list_all2 on_wire rs us" and "list_all is_verdict rs" and "length rs = length ms"
    and "rd_ok d" and "wr_ok d" and "k < length (tn # ts @ [tq])"
    and "prefix (concat (take k (un # us @ [uq]))) (fd_in d)"
  shows "prefix (fd_out d @ concat (take (Suc k) (tn # ts @ [tq])))
    (fd_out (fst (snd (updater_session d con))))"
proof (cases k)
  case 0
  then show ?thesis using login_written [OF assms(1-3,12)] by simp
next
  case (Suc j)
  have n: "length ts = length ms" "length us = length ms"
    using list_all2_lengthD [OF assms(6)] list_all2_lengthD [OF assms(8)] assms(10) by simp_all
  then have j: "j \<le> length ms" using assms(13) Suc by simp
  with assms(14) Suc n obtain x where "fd_in d = un @ concat (take j us) @ x" by (auto simp: prefix_def)
  from program_asks [OF assms(1-12) this j]
  show ?thesis
    using Suc j n by (cases "j < length ts") (auto simp: take_Suc_conv_app_nth nth_append)
qed

lemma program_done:
  assumes "con_in con = username # password # concat (List.map command_lines ms) @ [''quit'']"
    and "frame_fits (message_login MT_LOGIN CM_UPDATER (username @ ''/'' @ password))"
    and "on_wire (message_login MT_LOGIN CM_UPDATER (username @ ''/'' @ password)) tn"
    and "on_wire (message_str MT_OK ''Login successful'') un"
    and "list_all typed_request ms" and "list_all2 on_wire ms ts"
    and "on_wire (message_str MT_QUIT ''quit'') tq"
    and "list_all2 on_wire rs us" and "list_all is_verdict rs" and "length rs = length ms"
    and "on_wire (message_str MT_OK ''bye'') uq"
    and "rd_ok d" and "wr_ok d" and "fd_in d = un @ concat us @ uq @ rest"
  obtains d' where "updater_session d con = (Inl 0, d', con\<lparr>con_in := [],
      con_out := con_out con @ ''username: password: '' @ dialogue_text rs @ ''> ''\<rparr>)"
    and "fd_out d' = fd_out d @ tn @ concat ts @ tq"
proof -
  let ?con = "con\<lparr>con_in := concat (List.map command_lines ms) @ [''quit''],
    con_out := con_out con @ ''username: password: ''\<rparr>"
  let ?con2 = "?con\<lparr>con_in := [''quit''], con_out := con_out ?con @ dialogue_text rs\<rparr>"
  obtain d1 where d1: "updater_session d con = updater_main_loop d1 ?con"
    "fd_out d1 = fd_out d @ tn" "fd_in d1 = concat us @ uq @ rest" "rd_ok d1" "wr_ok d1"
    using logged_in [OF assms(1-4,12-14)] by blast
  have in1: "con_in ?con = concat (List.map command_lines ms) @ [''quit'']" by simp
  obtain d2 ts2 where d2: "updater_main_loop d1 ?con = updater_main_loop d2 ?con2"
      "list_all2 on_wire ms ts2" "fd_out d2 = fd_out d1 @ concat ts2" "fd_in d2 = uq @ rest" "rd_ok d2" "wr_ok d2"
    using updater_loop_commands [OF assms(5) in1 assms(8-10) d1(4,5,3)] by blast
  obtain d3 t3 where d3: "updater_main_loop d2 ?con2 = (Inl 0, d3, con\<lparr>con_in := [],
        con_out := con_out con @ ''username: password: '' @ dialogue_text rs @ ''> ''\<rparr>)"
      "on_wire (message_str MT_QUIT ''quit'') t3" "fd_out d3 = fd_out d2 @ t3"
    by (rule updater_loop_quit [OF _ assms(11) _ _ d2(5,6,4), of ?con2]) simp_all
  have "ts2 = ts" "t3 = tq"
    using on_wire_list_unique [OF d2(2) assms(6)] on_wire_unique [OF d3(2) assms(7)] by simp_all
  with d1 d2 d3 show ?thesis by (intro that) simp_all
qed

subsection \<open>The session, given some of the requests\<close>

lemma serve_all_take:
  "length sched = length ms \<Longrightarrow>
     fst (serve_all (take k sched) (take k ms) s) = take k (fst (serve_all sched ms s))"
proof (induction sched ms s arbitrary: k rule: serve_all.induct)
  case (1 env b sched m ms s)
  show ?case
  proof (cases k)
    case (Suc j)
    with "1.IH" [OF refl, of j] "1.prems" show ?thesis
      by (simp add: Let_def split_beta)
  qed simp
qed simp_all

lemma session_answers:
  assumes "authenticate cred" and "on_wire (message_login MT_LOGIN CM_UPDATER cred) tn"
    and "on_wire (message_str MT_OK ''Login successful'') un"
    and "list_all typed_request ms" and "list_all2 on_wire ms ts"
    and "list_all2 on_wire (fst (serve_all sched ms s)) us"
    and "server_inv s" and "length sched = length ms"
    and "m_next_order_id s + int (length (sched_ops sched) + length ms) \<le> int_max"
    and "rd_ok e" and "wr_ok e" and "fd_in e = tn @ concat (take j ts) @ rest"
  shows "prefix (fd_out e @ un @ concat (take j us))
    (fd_out (m_fd (fst (snd (client_thread_start (sched @ later) (client_new i e) s)))))"
proof -
  obtain c u where c: "client_thread_start (sched @ later) (client_new i e) s =
       (case updater_loop (sched @ later) c s of
          (Some (Inr _), c', s') \<Rightarrow> (Some (Inr ()), c'\<lparr>m_closed := True\<rparr>, s')
        | (Some (Inl e), c', s') \<Rightarrow>
            (if is_std_exception e then (Some (Inr ()), c'\<lparr>m_closed := True\<rparr>, s') else (Some (Inl e), c', s'))
        | r \<Rightarrow> r)"
      "m_running c" "fd_in (m_fd c) = concat (take j ts) @ rest" "rd_ok (m_fd c)" "wr_ok (m_fd c)"
      "on_wire (message_str MT_OK ''Login successful'') u" "fd_out (m_fd c) = fd_out e @ u"
    by (rule session_login [OF assms(1,2,10-12)]) blast
  have u: "u = un" by (rule on_wire_unique [OF c(6) assms(3)])
  have J: "list_all2 on_wire (take j ms) (take j ts)" "list_all typed_request (take j ms)"
    "length (take j sched) = length (take j ms)"
    using assms(4,5,8) by (auto simp: list_all2_takeI list_all_iff dest: in_set_takeD)
  have "length (sched_ops (take j sched)) \<le> length (sched_ops sched)"
  proof -
    have "sched_ops sched = sched_ops (take j sched) @ sched_ops (drop j sched)"
      by (metis append_take_drop_id concat_append map_append sched_ops_def)
    then show ?thesis by simp
  qed
  then have "m_next_order_id s + int (length (sched_ops (take j sched)) + length (take j ms)) \<le> int_max"
    using assms(9) by simp
  from updater_session_frames [OF assms(7) c(4,5,2,3) requests_decode [OF J(1,2)] J(3) this,
      of "drop j sched @ later"]
  obtain c1 out where c1: "updater_loop (sched @ later) c s = updater_loop (drop j sched @ later) c1
        (snd (serve_all (take j sched) (take j ms) s))"
      "fd_out (m_fd c1) = fd_out (m_fd c) @ out" "frames_of (take j (fst (serve_all sched ms s))) out"
    by (auto simp: serve_all_take [OF assms(8)] simp flip: append_assoc)
  have "out = concat (take j us)"
    using c1(3) on_wire_list_unique [OF _ list_all2_takeI [OF assms(6)]] unfolding frames_on_wire by blast
  moreover have "fd_out (m_fd (fst (snd (client_thread_start (sched @ later) (client_new i e) s)))) =
      fd_out (m_fd (fst (snd (updater_loop (sched @ later) c s))))"
    by (simp add: c(1) split: prod.split option.split sum.split)
  ultimately show ?thesis
    using updater_loop_out [of c1 "drop j sched @ later" "snd (serve_all (take j sched) (take j ms) s)"]
    by (simp add: c1(1,2) c(7) u)
qed

lemma session_done:
  assumes "authenticate cred" and "on_wire (message_login MT_LOGIN CM_UPDATER cred) tn"
    and "on_wire (message_str MT_OK ''Login successful'') un"
    and "list_all typed_request ms" and "list_all2 on_wire ms ts"
    and "on_wire (message_str MT_QUIT ''quit'') tq"
    and "list_all2 on_wire (fst (serve_all sched ms s)) us" and "on_wire (message_str MT_OK ''bye'') uq"
    and "server_inv s" and "length sched = length ms"
    and "m_next_order_id s + int (length (sched_ops sched) + length ops + length ms) \<le> int_max"
    and "rd_ok e" and "wr_ok e" and "fd_in e = tn @ concat ts @ tq @ rest"
  obtains c where "client_thread_start (sched @ [(ops, b)]) (client_new i e) s =
      (Some (Inr ()), c, server_run ops (snd (serve_all sched ms s)))"
    and "m_closed c" and "fd_out (m_fd c) = fd_out e @ un @ concat us @ uq"
proof -
  obtain c u where c: "client_thread_start (sched @ [(ops, b)]) (client_new i e) s =
       (case updater_loop (sched @ [(ops, b)]) c s of
          (Some (Inr _), c', s') \<Rightarrow> (Some (Inr ()), c'\<lparr>m_closed := True\<rparr>, s')
        | (Some (Inl e), c', s') \<Rightarrow>
            (if is_std_exception e then (Some (Inr ()), c'\<lparr>m_closed := True\<rparr>, s') else (Some (Inl e), c', s'))
        | r \<Rightarrow> r)"
      "m_running c" "fd_in (m_fd c) = concat ts @ tq @ rest" "rd_ok (m_fd c)" "wr_ok (m_fd c)"
      "on_wire (message_str MT_OK ''Login successful'') u" "fd_out (m_fd c) = fd_out e @ u"
    by (rule session_login [OF assms(1,2,12-14)]) blast
  obtain c' us2 u2 where s: "updater_loop (sched @ [(ops, b)]) c s =
       (Some (Inr ()), c', server_run ops (snd (serve_all sched ms s)))"
      "list_all2 on_wire (fst (serve_all sched ms s)) us2" "on_wire (message_str MT_OK ''bye'') u2"
      "fd_out (m_fd c') = fd_out (m_fd c) @ concat us2 @ u2"
    using session_requests [OF assms(9) c(4,5,2,3) assms(5,4,6,10,11)] by blast
  have "u = un" "us2 = us" "u2 = uq"
    using on_wire_unique [OF c(6) assms(3)] on_wire_list_unique [OF s(2) assms(7)]
      on_wire_unique [OF s(3) assms(8)] by simp_all
  with c s show ?thesis by (intro that [of "c'\<lparr>m_closed := True\<rparr>"]) simp_all
qed

lemma session_answers_next:
  assumes "authenticate cred" and "on_wire (message_login MT_LOGIN CM_UPDATER cred) tn"
    and "on_wire (message_str MT_OK ''Login successful'') un"
    and "list_all typed_request ms" and "list_all2 on_wire ms ts"
    and "on_wire (message_str MT_QUIT ''quit'') tq"
    and "list_all2 on_wire (fst (serve_all sched ms s)) us" and "on_wire (message_str MT_OK ''bye'') uq"
    and "server_inv s" and "length sched = length ms"
    and "m_next_order_id s + int (length (sched_ops sched) + length ops + length ms) \<le> int_max"
    and "rd_ok e" and "wr_ok e" and "k < length (tn # ts @ [tq])"
    and "prefix (concat (take (Suc k) (tn # ts @ [tq]))) (fd_in e)"
  shows "prefix (fd_out e @ concat (take (Suc k) (un # us @ [uq])))
    (fd_out (m_fd (fst (snd (client_thread_start (sched @ [(ops, b)]) (client_new i e) s)))))"
proof -
  have n: "length ts = length ms" and n': "length us = length ms"
    using list_all2_lengthD [OF assms(5)] list_all2_lengthD [OF assms(7)]
      serve_all_verdicts [OF assms(4,10)] by simp_all
  show ?thesis
  proof (cases "k = Suc (length ts)")
    case True
    with assms(15) obtain x where "fd_in e = tn @ concat ts @ tq @ x" by (auto simp: prefix_def)
    then show ?thesis
      by - (rule session_done [OF assms(1-13), of x b i]; simp add: True n n')
  next
    case False
    with assms(14) have k: "k \<le> length ts" by simp
    with assms(15) obtain x where "fd_in e = tn @ concat (take k ts) @ x" by (auto simp: prefix_def)
    from session_answers [OF assms(1-5,7,9,10) _ assms(12,13) this] show ?thesis
      using assms(11) k n n' by simp
  qed
qed

subsection \<open>The two ends together\<close>

text \<open>
  The descriptors are the two ends of one connection: \<open>t\<close> is what the program writes and what the
  session reads, \<open>u\<close> what the session writes and what the program reads.
\<close>

definition connected_streams :: "fd \<Rightarrow> console \<Rightarrow> schedule \<Rightarrow> client_id \<Rightarrow> fd \<Rightarrow> server \<Rightarrow> string \<Rightarrow> string \<Rightarrow> bool" where
  "connected_streams d con sched i e s t u \<longleftrightarrow>
     fd_out (fst (snd (updater_session (d\<lparr>fd_in := u\<rparr>) con))) = fd_out d @ t \<and>
     fd_out (m_fd (fst (snd (client_thread_start sched (client_new i (e\<lparr>fd_in := t\<rparr>)) s)))) = fd_out e @ u"

lemma drop_prefix: "prefix (p @ x) y \<Longrightarrow> prefix x (drop (length p) y)"
  by (auto simp: prefix_def)

lemma conversation_determined:
  assumes con: "con_in con = username # password # concat (List.map command_lines ms) @ [''quit'']"
    and auth: "authenticate (username @ ''/'' @ password)" and typed: "list_all typed_request ms"
    and inv: "server_inv s" and len: "length sched = length ms"
    and bound: "m_next_order_id s + int (length (sched_ops sched) + length ops + length ms) \<le> int_max"
    and io: "rd_ok d" "wr_ok d" "rd_ok e" "wr_ok e"
    and tn: "on_wire (message_login MT_LOGIN CM_UPDATER (username @ ''/'' @ password)) tn"
    and ts: "list_all2 on_wire ms ts" and tq: "on_wire (message_str MT_QUIT ''quit'') tq"
    and un: "on_wire (message_str MT_OK ''Login successful'') un"
    and us: "list_all2 on_wire (fst (serve_all sched ms s)) us" and uq: "on_wire (message_str MT_OK ''bye'') uq"
    and conn: "connected_streams d con (sched @ [(ops, b)]) i e s t u"
  shows "t = tn @ concat ts @ tq \<and> u = un @ concat us @ uq"
proof -
  let ?R = "tn # ts @ [tq]" and ?U = "un # us @ [uq]"
  let ?P = "\<lambda>u. drop (length (fd_out d)) (fd_out (fst (snd (updater_session (d\<lparr>fd_in := u\<rparr>) con))))"
  let ?S = "\<lambda>t. drop (length (fd_out e)) (fd_out (m_fd (fst (snd
    (client_thread_start (sched @ [(ops, b)]) (client_new i (e\<lparr>fd_in := t\<rparr>)) s)))))"
  note fits = conjunct2 [OF credentials_sendable [OF auth]]
  have V: "list_all is_verdict (fst (serve_all sched ms s))" "length (fst (serve_all sched ms s)) = length ms"
    using serve_all_verdicts [OF typed len] by simp_all
  have n: "length ts = length us"
    using list_all2_lengthD [OF ts] list_all2_lengthD [OF us] V(2) by simp
  have "t = concat ?R \<and> u = concat ?U"
  proof (rule streams_determined [where P = ?P and S = ?S])
    show "t = ?P u" and "u = ?S t" and "length ?R = length ?U"
      using conn n by (simp_all add: connected_streams_def)
  next
    fix k assume "k < length ?R" and "prefix (concat (take k ?U)) u"
    then show "prefix (concat (take (Suc k) ?R)) (?P u)"
      using program_asks_next [OF con fits tn un typed ts tq us V, of "d\<lparr>fd_in := u\<rparr>" k uq] io
      by (intro drop_prefix) simp
  next
    fix k assume "k < length ?R" and "prefix (concat (take (Suc k) ?R)) t"
    then show "prefix (concat (take (Suc k) ?U)) (?S t)"
      using session_answers_next [OF auth tn un typed ts tq us uq inv len bound, of "e\<lparr>fd_in := t\<rparr>" k b i] io
      by (intro drop_prefix) simp
  next
    assume "prefix (concat ?U) u"
    then obtain x where "u = un @ concat us @ uq @ x" by (auto simp: prefix_def)
    then show "?P u = concat ?R"
      by - (rule program_done [OF con fits tn un typed ts tq us V uq, of "d\<lparr>fd_in := u\<rparr>" x];
        simp add: io)
  next
    show "?S (concat ?R) = concat ?U"
      by (rule session_done [OF auth tn un typed ts tq us uq inv len bound, of "e\<lparr>fd_in := concat ?R\<rparr>" "[]" b i];
        simp add: io)
  qed
  then show ?thesis by simp
qed

text \<open>
  C4: a whole conversation. A user types a name and password the server knows, any sequence of
  well-formed requests, and \<open>quit\<close>; the updater program and the session's thread are connected: each
  reads the bytes the other writes. Such streams of bytes exist, and whenever two streams connect
  the two ends, the program has sent the frames of the login, of the requests and of
  \<open>QUIT\<close>, in order; the session has answered the login, each request with the verdict that serving the
  requests in order, with the other sessions' operations in between, gives, and the \<open>QUIT\<close>; the
  program prints exactly these verdicts and ends with 0; the server ends in the state this
  gives; and the session has ended with its connection closed. Reads and writes may be short or interrupted on
  both sides.
\<close>

theorem updater_conversation:
  assumes "con_in con = username # password # concat (List.map command_lines ms) @ [''quit'']"
    and "authenticate (username @ ''/'' @ password)" and "list_all typed_request ms"
    and "server_inv s" and "length sched = length ms"
    and "m_next_order_id s + int (length (sched_ops sched) + length ops + length ms) \<le> int_max"
    and "rd_ok d" and "wr_ok d" and "rd_ok e" and "wr_ok e"
  shows "(\<exists>t u. connected_streams d con (sched @ [(ops, b)]) i e s t u) \<and>
    (\<forall>t u. connected_streams d con (sched @ [(ops, b)]) i e s t u \<longrightarrow>
      (case updater_session (d\<lparr>fd_in := u\<rparr>) con of (r, d', con') \<Rightarrow>
         r = Inl 0 \<and> con_in con' = [] \<and> con_err con' = con_err con \<and>
         con_out con' = con_out con @ ''username: password: '' @
           dialogue_text (fst (serve_all sched ms s)) @ ''> '') \<and>
      (case client_thread_start (sched @ [(ops, b)]) (client_new i (e\<lparr>fd_in := t\<rparr>)) s of (r, c', s') \<Rightarrow>
         r = Some (Inr ()) \<and> m_closed c' \<and> s' = server_run ops (snd (serve_all sched ms s))) \<and>
      frames_of (message_login MT_LOGIN CM_UPDATER (username @ ''/'' @ password) # ms @
        [message_str MT_QUIT ''quit'']) t \<and>
      frames_of (message_str MT_OK ''Login successful'' # fst (serve_all sched ms s) @
        [message_str MT_OK ''bye'']) u)"
proof -
  let ?login = "message_login MT_LOGIN CM_UPDATER (username @ ''/'' @ password)"
  let ?quit = "message_str MT_QUIT ''quit''" and ?bye = "message_str MT_OK ''bye''"
  let ?greeting = "message_str MT_OK ''Login successful''" and ?rs = "fst (serve_all sched ms s)"
  have fits: "frame_fits ?quit" "frame_fits ?bye" "frame_fits ?greeting" by code_simp+
  note L = conjunct2 [OF credentials_sendable [OF assms(2)]]
  obtain tn ts tq where t: "on_wire ?login tn" "list_all2 on_wire ms ts" "on_wire ?quit tq"
    using on_wire_exists [OF fits(1)] on_wire_exists [OF L] on_wire_list_exists [OF assms(3)] by blast
  obtain un uq where u: "on_wire ?greeting un" "on_wire ?bye uq"
    using on_wire_exists [OF fits(2)] on_wire_exists [OF fits(3)] by blast
  obtain us where us: "list_all2 on_wire ?rs us"
    by (rule session_requests [OF assms(4) _ _ _ _ t(2) assms(3) t(3) assms(5,6),
          of "client_new i (e\<lparr>fd_in := concat ts @ tq\<rparr>)" "[]"])
      (simp_all add: assms(9,10) client_new_def)
  have V: "list_all is_verdict ?rs" "length ?rs = length ms"
    using serve_all_verdicts [OF assms(3,5)] by simp_all
  let ?t = "tn @ concat ts @ tq" and ?u = "un @ concat us @ uq"
  obtain d' where program: "updater_session (d\<lparr>fd_in := ?u\<rparr>) con = (Inl 0, d', con\<lparr>con_in := [],
      con_out := con_out con @ ''username: password: '' @ dialogue_text ?rs @ ''> ''\<rparr>)" "fd_out d' = fd_out d @ ?t"
    by (rule program_done [OF assms(1) L t(1) u(1) assms(3) t(2,3) us V u(2), of "d\<lparr>fd_in := ?u\<rparr>" "[]"])
      (simp_all add: assms)
  obtain c where session: "client_thread_start (sched @ [(ops, b)]) (client_new i (e\<lparr>fd_in := ?t\<rparr>)) s =
      (Some (Inr ()), c, server_run ops (snd (serve_all sched ms s)))"
    "m_closed c" "fd_out (m_fd c) = fd_out e @ ?u"
    by (rule session_done [OF assms(2) t(1) u(1) assms(3) t(2,3) us u(2) assms(4-6),
          of "e\<lparr>fd_in := ?t\<rparr>" "[]" b i]) (simp_all add: assms)
  have frames: "frames_of (?login # ms @ [?quit]) ?t" "frames_of (?greeting # ?rs @ [?bye]) ?u"
    unfolding frames_on_wire
    by (rule exI [of _ "tn # ts @ [tq]"], use t in \<open>simp add: list_all2_appendI\<close>)
      (rule exI [of _ "un # us @ [uq]"], use u us in \<open>simp add: list_all2_appendI\<close>)
  have "connected_streams d con (sched @ [(ops, b)]) i e s ?t ?u"
    using program session by (simp add: connected_streams_def)
  then have streams: "\<exists>t u. connected_streams d con (sched @ [(ops, b)]) i e s t u" by blast
  have "t' = ?t \<and> u' = ?u" if "connected_streams d con (sched @ [(ops, b)]) i e s t' u'" for t' u'
    by (rule conversation_determined [OF assms t u(1) us u(2) that])
  with program session frames show ?thesis
    by (intro conjI [OF streams] allI impI) auto
qed

text \<open>The user asks to deliver the order of \<open>busy_server\<close>, which is not done, and is told so.\<close>

definition deliver_input :: console where
  "deliver_input =
     \<lparr>con_in = [''alice'', ''foobar'', ''order_update'', ''1000'', ''DELIVERED'', ''quit''],
      con_out = [], con_err = []\<rparr>"

lemma updater_conversation_witness:
  "\<exists>t u.
     connected_streams stuttering_fd deliver_input [([], False), ([], False)] 3 (plain_fd []) busy_server t u \<and>
     (case updater_session (stuttering_fd\<lparr>fd_in := u\<rparr>) deliver_input of (r, d', con') \<Rightarrow>
       r = Inl 0 \<and>
       con_out con' = ''username: password: > Failure: invalid order status transition'' @ endl @ ''> '') \<and>
     (case client_thread_start [([], False), ([], False)] (client_new 3 (plain_fd t)) busy_server of
       (r, c', s') \<Rightarrow> r = Some (Inr ()) \<and> m_closed c' \<and> m_orders s' = m_orders busy_server)"
proof -
  have lines: "con_in deliver_input =
      ''alice'' # ''foobar'' # concat (List.map command_lines [deliver_request]) @ [''quit'']"
    by code_simp
  have typed: "list_all typed_request [deliver_request]" and auth: "authenticate (''alice'' @ ''/'' @ ''foobar'')"
    by code_simp+
  have served: "fst (serve_all [([], False)] [deliver_request] busy_server) =
      [message_str MT_ERROR ''invalid order status transition'']"
    "m_orders (snd (serve_all [([], False)] [deliver_request] busy_server)) = m_orders busy_server"
    by code_simp+
  have shown: "dialogue_text [message_str MT_ERROR ''invalid order status transition''] =
      ''> Failure: invalid order status transition'' @ endl"
    by code_simp
  have fds: "rd_ok stuttering_fd" "con_out deliver_input = []" "\<And>t. (plain_fd [])\<lparr>fd_in := t\<rparr> = plain_fd t"
    by (simp_all add: stuttering_fd_def rd_ok_def plain_fd_def deliver_input_def)
  let ?streams = "connected_streams stuttering_fd deliver_input [([], False), ([], False)] 3 (plain_fd []) busy_server"
  have bound: "m_next_order_id busy_server + int (length (sched_ops [([], False)]) +
      length ([] :: server_op list) + length [deliver_request]) \<le> int_max"
    by (simp add: busy_server_next int_max_def)
  note C = updater_conversation [OF lines auth typed busy_server_inv _ bound fds(1)
      stuttering_fd_ok(1) plain_fd_ok(1,2) [of "[]"], of False 3]
  obtain t u where "?streams t u" using C by auto
  with C show ?thesis
    by (intro exI [of _ t] exI [of _ u])
      (auto simp: shown fds served split_beta simp del: serve_all.simps)
qed

end
