(* ===== verification/Locking.thy ===== *)
theory Locking
  imports Server_Life
begin

text \<open>
  Why a server operation may be taken as one step. Here every thread's call is a sequence of
  actions: the \<open>Guard\<close> locks the server's mutex, the statements of the operation write the
  protected fields and put messages into clients' queues one at a time, and the \<open>Guard\<close>'s
  destructor unlocks. The actions of all threads interleave, and display sessions take
  messages out of their queues at any moment, without the server's mutex. The refinement
  mapping completes the operation that is in progress; under it every interleaving is a run
  of \<open>server_step\<close> in the order in which the mutex was acquired.
\<close>

subsection \<open>Operations as sequences of actions\<close>

datatype action =
    Set_next_id int
  | Set_order int order
  | Erase_order int
  | Add_display client_id
  | Remove_display client_id
  | Enqueue client_id message

fun perform :: "action \<Rightarrow> server \<Rightarrow> server" where
  "perform (Set_next_id n) s = s\<lparr>m_next_order_id := n\<rparr>"
| "perform (Set_order k x) s = store_order k x s"
| "perform (Erase_order k) s = s\<lparr>m_orders := om_erase (m_orders s) k\<rparr>"
| "perform (Add_display c) s = s\<lparr>m_display_clients := List.insert c (m_display_clients s)\<rparr>"
| "perform (Remove_display c) s = s\<lparr>m_display_clients := removeAll c (m_display_clients s)\<rparr>"
| "perform (Enqueue c m) s = client_enqueue c m s"

definition broadcast_actions :: "message \<Rightarrow> server \<Rightarrow> action list" where
  "broadcast_actions msg s = map (\<lambda>c. Enqueue c (message_duplicate msg)) (m_display_clients s)"

text \<open>
  What the code executes between locking and unlocking, in its order, as it follows from the
  fields the mutex protects; an exception ends the sequence.
\<close>

definition item_update_actions :: "int \<Rightarrow> int \<Rightarrow> item_status \<Rightarrow> server \<Rightarrow> action list" where
  "item_update_actions k i st s =
     (case om_find (m_orders s) k of
        None \<Rightarrow> []
      | Some x \<Rightarrow>
          (case find_item x i of
             None \<Rightarrow> []
           | Some p \<Rightarrow>
               let cur = item_get_status x p in
               if \<not> (cur = IS_NEW \<and> st = IS_IN_PROGRESS \<or> cur = IS_IN_PROGRESS \<and> st = IS_DONE)
               then []
               else
                 let x1 = item_set_status x p st in
                 Set_order k x1 #
                 broadcast_actions (message_item_update MT_DISP_ITEM_UPDATE k i st) s @
                 (if st = IS_IN_PROGRESS \<and> o_status x1 = OS_NEW then
                    Set_order k (x1\<lparr>o_status := OS_IN_PROGRESS\<rparr>) #
                    broadcast_actions (message_order_update MT_DISP_ORDER_UPDATE k OS_IN_PROGRESS) s
                  else if st = IS_DONE \<and> o_status x1 = OS_IN_PROGRESS \<and> all_done (o_items x1) then
                    Set_order k (x1\<lparr>o_status := OS_DONE\<rparr>) #
                    broadcast_actions (message_order_update MT_DISP_ORDER_UPDATE k OS_DONE) s
                  else [])))"

definition order_update_actions :: "int \<Rightarrow> order_status \<Rightarrow> server \<Rightarrow> action list" where
  "order_update_actions k st s =
     (case om_find (m_orders s) k of
        None \<Rightarrow> []
      | Some x \<Rightarrow>
          if o_status x \<noteq> OS_DONE \<or> st \<noteq> OS_DELIVERED then []
          else Set_order k (x\<lparr>o_status := OS_DELIVERED\<rparr>) #
               broadcast_actions (message_order_update MT_DISP_ORDER_UPDATE k OS_DELIVERED) s @
               [Erase_order k])"

definition new_order_actions :: "order \<Rightarrow> server \<Rightarrow> action list" where
  "new_order_actions x s =
     (if m_next_order_id s = int_max then []
      else
        let k = m_next_order_id s;
            x1 = x\<lparr>o_id := k, o_items := set_item_order_ids k (o_items x), o_status := OS_NEW\<rparr>
        in Set_next_id (k + 1) # Set_order k x1 #
           broadcast_actions (message_order MT_DISP_ORDER (Some x1)) s)"

fun op_actions :: "server_op \<Rightarrow> server \<Rightarrow> action list" where
  "op_actions (Op_new_order x) s = new_order_actions x s"
| "op_actions (Op_item_update k i st) s = item_update_actions k i st s"
| "op_actions (Op_order_update k st) s = order_update_actions k st s"
| "op_actions (Op_register c) s =
     Add_display c #
     map (\<lambda>pair. Enqueue c (message_order MT_DISP_ORDER (Some (order_duplicate (snd pair))))) (m_orders s)"
| "op_actions (Op_unregister c) s = [Remove_display c]"
| "op_actions (Op_dequeue c) s = []"

definition perform_all :: "action list \<Rightarrow> server \<Rightarrow> server" where
  "perform_all as s = fold perform as s"

lemma perform_all_simps [simp]:
  "perform_all [] s = s" "perform_all (a # as) s = perform_all as (perform a s)"
  "perform_all (as @ bs) s = perform_all bs (perform_all as s)"
  by (simp_all add: perform_all_def)

lemma perform_enqueues:
  "perform_all (map (\<lambda>c. Enqueue c (message_duplicate m)) cs) s = broadcast_loop cs m s"
  by (induction cs arbitrary: s) simp_all

lemma perform_broadcast:
  "m_display_clients s' = m_display_clients s \<Longrightarrow>
     perform_all (broadcast_actions m s') s = broadcast m s"
  by (simp only: broadcast_actions_def perform_enqueues broadcast_def)

lemma perform_snapshot:
  "perform_all (map (\<lambda>pair. Enqueue c (message_order MT_DISP_ORDER (Some (snd pair)))) ps) s =
     snapshot_loop ps c s"
  by (induction ps arbitrary: s) simp_all

text \<open>The actions of an operation, one after the other, are the operation.\<close>

lemma op_actions_step:
  assumes "\<And>c. op \<noteq> Op_dequeue c"
  shows "perform_all (op_actions op s) s = server_step op s"
proof (cases op)
  case (Op_new_order x)
  then show ?thesis
    by (simp add: new_order_actions_def process_new_order_def Let_def perform_broadcast)
next
  case (Op_item_update k i st)
  then show ?thesis
    by (simp add: item_update_actions_def process_item_update_def Let_def perform_broadcast
        split: option.split)
next
  case (Op_order_update k st)
  then show ?thesis
    by (simp add: order_update_actions_def process_order_update_def Let_def perform_broadcast
        split: option.split)
next
  case (Op_register c)
  then show ?thesis by (simp add: perform_snapshot register_display_def Let_def)
qed (use assms in \<open>simp_all add: unregister_display_def\<close>)

text \<open>The fields that the mutex protects; the queues have a mutex of their own.\<close>

definition protected_eq :: "server \<Rightarrow> server \<Rightarrow> bool" where
  "protected_eq s t \<longleftrightarrow> m_orders s = m_orders t \<and> m_display_clients s = m_display_clients t \<and>
     m_next_order_id s = m_next_order_id t"

text \<open>What an operation does is determined by the protected fields.\<close>

lemma op_actions_cong:
  assumes "protected_eq s t"
  shows "op_actions op s = op_actions op t"
proof -
  have eqs: "m_orders s = m_orders t" "m_display_clients s = m_display_clients t"
    "m_next_order_id s = m_next_order_id t"
    using assms by (simp_all add: protected_eq_def)
  have "broadcast_actions m s = broadcast_actions m t" for m
    by (simp add: broadcast_actions_def eqs)
  then show ?thesis
    by (cases op) (simp_all only: op_actions.simps eqs new_order_actions_def item_update_actions_def
        order_update_actions_def)
qed

subsection \<open>Threads and the mutex\<close>

text \<open>
  \<open>pthread_mutex_lock\<close> in the constructor of \<open>Guard\<close> returns, with the caller as the holder,
  only when no thread holds the mutex; until then the caller waits (\<open>None\<close>). The destructor
  runs however the operation is left.
\<close>

definition guard_lock :: "nat \<Rightarrow> nat option \<Rightarrow> nat option option" where
  "guard_lock t m_lock = (case m_lock of None \<Rightarrow> Some (Some t) | Some _ \<Rightarrow> None)"

definition guard_unlock :: "nat option \<Rightarrow> nat option" where
  "guard_unlock m_lock = None"

datatype thread_state =
    Outside                  \<comment> \<open>not in an operation of the server\<close>
  | Waiting server_op        \<comment> \<open>in the constructor of \<open>Guard\<close>\<close>
  | Inside "action list"     \<comment> \<open>has locked the mutex, the actions still to come\<close>

record conc =
  c_server :: server
  c_mutex :: "nat option"
  c_threads :: "nat \<Rightarrow> thread_state"
  c_history :: "server_op list"    \<comment> \<open>ghost: the operations in the order of their effect\<close>

definition conc_init :: conc where
  "conc_init = \<lparr>c_server = server_init, c_mutex = None, c_threads = (\<lambda>_. Outside), c_history = []\<rparr>"

text \<open>A message taken out of a queue is an operation of the history, a failed wait is not.\<close>

definition dequeue_ops :: "client_id \<Rightarrow> message option \<Rightarrow> server_op list" where
  "dequeue_ops c r = (case r of None \<Rightarrow> [] | Some _ \<Rightarrow> [Op_dequeue c])"

inductive conc_step :: "conc \<Rightarrow> conc \<Rightarrow> bool" where
  conc_call: "c_threads s t = Outside \<Longrightarrow> (\<And>c. op \<noteq> Op_dequeue c) \<Longrightarrow>
    conc_step s (s\<lparr>c_threads := (c_threads s)(t := Waiting op)\<rparr>)"
| conc_lock: "c_threads s t = Waiting op \<Longrightarrow> guard_lock t (c_mutex s) = Some m \<Longrightarrow>
    conc_step s (s\<lparr>c_mutex := m, c_history := c_history s @ [op],
      c_threads := (c_threads s)(t := Inside (op_actions op (c_server s)))\<rparr>)"
| conc_act: "c_threads s t = Inside (a # as) \<Longrightarrow>
    conc_step s (s\<lparr>c_server := perform a (c_server s), c_threads := (c_threads s)(t := Inside as)\<rparr>)"
| conc_unlock: "c_threads s t = Inside [] \<Longrightarrow>
    conc_step s (s\<lparr>c_mutex := guard_unlock (c_mutex s), c_threads := (c_threads s)(t := Outside)\<rparr>)"
| conc_dequeue: "client_dequeue expired c (c_server s) = (Inr r, g) \<Longrightarrow>
    conc_step s (s\<lparr>c_server := g, c_history := c_history s @ dequeue_ops c r\<rparr>)"

definition conc_reachable :: "conc \<Rightarrow> bool" where
  "conc_reachable s \<longleftrightarrow> conc_step\<^sup>*\<^sup>* conc_init s"

text \<open>The refinement mapping: the holder of the mutex finishes its operation.\<close>

definition pending :: "conc \<Rightarrow> action list" where
  "pending s = (case c_mutex s of None \<Rightarrow> []
     | Some t \<Rightarrow> (case c_threads s t of Inside as \<Rightarrow> as | _ \<Rightarrow> []))"

definition completed :: "conc \<Rightarrow> server" where
  "completed s = perform_all (pending s) (c_server s)"

lemma perform_dequeue:
  assumes "queue_of s c = m # ms" and "queues_ok s"
  shows "perform a (snd (client_dequeue False c s)) = snd (client_dequeue False c (perform a s)) \<and>
    queue_of (perform a s) c \<noteq> [] \<and> queues_ok (perform a s)"
proof (cases a)
  case (Enqueue d x)
  have "mq_avail (m_queues s c) \<noteq> 0"
    using assms by (simp add: queues_ok_def mq_ok_def queue_of_def)
  with Enqueue assms show ?thesis
    by (auto simp: client_enqueue_queue client_enqueue_ok)
      (auto simp: client_dequeue_def client_enqueue_def mq_dequeue_def mq_enqueue_def queue_of_def
        fun_eq_iff)
qed (use assms in \<open>auto simp: client_dequeue_def mq_dequeue_def queue_of_def store_order_def queues_ok_def
    split: list.split\<close>)

lemma perform_all_dequeue:
  assumes "queue_of s c \<noteq> []" and "queues_ok s"
  shows "perform_all as (snd (client_dequeue False c s)) = snd (client_dequeue False c (perform_all as s))"
  using assms
proof (induction as arbitrary: s)
  case (Cons a as)
  obtain m ms where q: "queue_of s c = m # ms"
    using Cons.prems(1) by (cases "queue_of s c") auto
  from perform_dequeue [OF this Cons.prems(2), of a] Cons.IH [of "perform a s"]
  show ?case by simp
qed simp

subsection \<open>Every interleaving is a sequence of operations\<close>

definition lock_inv :: "conc \<Rightarrow> bool" where
  "lock_inv s \<longleftrightarrow>
     (\<forall>t as. c_threads s t = Inside as \<longrightarrow> c_mutex s = Some t) \<and>
     (\<forall>t. c_mutex s = Some t \<longrightarrow> (\<exists>as. c_threads s t = Inside as)) \<and>
     (\<forall>t c. c_threads s t \<noteq> Waiting (Op_dequeue c)) \<and>
     queues_ok (c_server s) \<and>
     completed s = server_run (c_history s) server_init"

lemma lock_invD:
  assumes "lock_inv s"
  shows "c_threads s t = Inside as \<Longrightarrow> c_mutex s = Some t"
    and "c_mutex s = Some t \<Longrightarrow> \<exists>as. c_threads s t = Inside as"
    and "c_threads s t \<noteq> Waiting (Op_dequeue c)"
    and "queues_ok (c_server s)"
    and "completed s = server_run (c_history s) server_init"
  using assms unfolding lock_inv_def by blast+

lemma lock_invI:
  assumes "\<And>t as. c_threads s t = Inside as \<Longrightarrow> c_mutex s = Some t"
    and "\<And>t. c_mutex s = Some t \<Longrightarrow> \<exists>as. c_threads s t = Inside as"
    and "\<And>t c. c_threads s t \<noteq> Waiting (Op_dequeue c)"
    and "queues_ok (c_server s)" and "completed s = server_run (c_history s) server_init"
  shows "lock_inv s"
  using assms unfolding lock_inv_def by blast

lemma lock_inv_init: "lock_inv conc_init"
  by (simp add: lock_inv_def conc_init_def completed_def pending_def server_init_def queues_ok_def
      mq.ok_empty)

lemma perform_ok: "queues_ok s \<Longrightarrow> queues_ok (perform a s)"
  by (cases a) (simp_all add: client_enqueue_ok)

lemma client_dequeue_ok:
  "queues_ok s \<Longrightarrow> client_dequeue b c s = (Inr r, s') \<Longrightarrow> queues_ok s'"
  by (auto simp: client_dequeue_def mq_dequeue_def queues_ok_def mq_ok_def
      split: if_splits list.splits)

lemma client_dequeue_Some:
  assumes "client_dequeue b c s = (Inr (Some m), s')"
  shows "queue_of s c \<noteq> [] \<and> s' = snd (client_dequeue False c s)"
  using assms by (auto simp: client_dequeue_def mq_dequeue_def queue_of_def
      split: if_splits list.splits)

lemma client_dequeue_None: "client_dequeue b c s = (Inr None, s') \<Longrightarrow> s' = s"
  by (auto simp: client_dequeue_def mq_dequeue_def split: if_splits list.splits)

lemma server_run_snoc: "server_run (ops @ [op]) s = server_step op (server_run ops s)"
  by (simp add: server_run_def)

lemma completed_free: "c_mutex s = None \<Longrightarrow> completed s = c_server s"
  by (simp add: completed_def pending_def)

lemma completed_held:
  "c_mutex s = Some t \<Longrightarrow> c_threads s t = Inside as \<Longrightarrow> completed s = perform_all as (c_server s)"
  by (simp add: completed_def pending_def)

lemma lock_inv_dequeue:
  assumes inv: "lock_inv s" and deq: "client_dequeue b c (c_server s) = (Inr r, g)"
  shows "lock_inv (s\<lparr>c_server := g, c_history := c_history s @ dequeue_ops c r\<rparr>)"
proof -
  let ?s = "s\<lparr>c_server := g, c_history := c_history s @ dequeue_ops c r\<rparr>"
  have pend: "pending ?s = pending s"
    by (simp add: pending_def cong: option.case_cong)
  have "completed ?s = server_run (c_history ?s) server_init"
  proof (cases r)
    case None
    then show ?thesis
      using client_dequeue_None deq lock_invD(5) [OF inv] pend
      by (auto simp: completed_def dequeue_ops_def)
  next
    case (Some m)
    with deq have g: "queue_of (c_server s) c \<noteq> []" "g = snd (client_dequeue False c (c_server s))"
      using client_dequeue_Some by blast+
    have "completed ?s = snd (client_dequeue False c (completed s))"
      unfolding completed_def pend by (simp add: g(2) perform_all_dequeue [OF g(1) lock_invD(4) [OF inv]])
    then show ?thesis
      by (simp add: Some dequeue_ops_def server_run_snoc lock_invD(5) [OF inv])
  qed
  moreover have "queues_ok g"
    by (rule client_dequeue_ok [OF lock_invD(4) [OF inv] deq])
  ultimately show ?thesis
    using lock_invD(1-3) [OF inv] by (intro lock_invI) simp_all
qed

lemma lock_inv_lock:
  assumes inv: "lock_inv s" and wait: "c_threads s t = Waiting op" and free: "c_mutex s = None"
  shows "lock_inv (s\<lparr>c_mutex := Some t, c_history := c_history s @ [op],
      c_threads := (c_threads s)(t := Inside (op_actions op (c_server s)))\<rparr>)"
proof -
  have "op \<noteq> Op_dequeue c" for c
    using lock_invD(3) [OF inv, of t c] wait by auto
  then have "perform_all (op_actions op (c_server s)) (c_server s) =
      server_step op (server_run (c_history s) server_init)"
    using op_actions_step lock_invD(5) [OF inv] completed_free [OF free] by metis
  moreover have "c_threads s u \<noteq> Inside as" for u as
    using lock_invD(1) [OF inv, of u as] free by auto
  ultimately show ?thesis
    using inv by (auto simp: lock_inv_def completed_held server_run_snoc)
qed

lemma lock_inv_act:
  assumes inv: "lock_inv s" and inside: "c_threads s t = Inside (a # as)"
  shows "lock_inv (s\<lparr>c_server := perform a (c_server s), c_threads := (c_threads s)(t := Inside as)\<rparr>)"
proof -
  have "c_mutex s = Some t"
    by (rule lock_invD(1) [OF inv inside])
  with inside inv show ?thesis
    by (auto simp: lock_inv_def completed_held perform_ok)
qed

lemma lock_inv_unlock:
  assumes inv: "lock_inv s" and inside: "c_threads s t = Inside []"
  shows "lock_inv (s\<lparr>c_mutex := None, c_threads := (c_threads s)(t := Outside)\<rparr>)"
proof -
  have "c_mutex s = Some t"
    by (rule lock_invD(1) [OF inv inside])
  with inside inv show ?thesis
    by (auto simp: lock_inv_def completed_held completed_free)
qed

lemma lock_inv_call:
  assumes inv: "lock_inv s" and out: "c_threads s t = Outside" and op: "\<And>c. op \<noteq> Op_dequeue c"
  shows "lock_inv (s\<lparr>c_threads := (c_threads s)(t := Waiting op)\<rparr>)"
proof -
  have "c_mutex s \<noteq> Some t"
    using lock_invD(2) [OF inv, of t] out by auto
  then have "pending (s\<lparr>c_threads := (c_threads s)(t := Waiting op)\<rparr>) = pending s"
    by (auto simp: pending_def split: option.split)
  then have "completed (s\<lparr>c_threads := (c_threads s)(t := Waiting op)\<rparr>) =
      server_run (c_history s) server_init"
    by (simp add: completed_def lock_invD(5) [OF inv, unfolded completed_def])
  with \<open>c_mutex s \<noteq> Some t\<close> op lock_invD(1-4) [OF inv] show ?thesis
    by (intro lock_invI) (auto split: if_splits)
qed

lemma lock_inv_step: "conc_step s s' \<Longrightarrow> lock_inv s \<Longrightarrow> lock_inv s'"
proof (induction rule: conc_step.induct)
  case (conc_call s t op)
  then show ?case by (intro lock_inv_call)
next
  case (conc_lock s t op m)
  then have "c_mutex s = None" "m = Some t"
    by (simp_all add: guard_lock_def split: option.splits)
  with conc_lock show ?case by (simp add: lock_inv_lock)
next
  case (conc_act s t a as)
  then show ?case by (intro lock_inv_act)
next
  case (conc_unlock s t)
  then show ?case by (simp add: guard_unlock_def lock_inv_unlock)
next
  case (conc_dequeue expired c s r g)
  then show ?case by (intro lock_inv_dequeue)
qed

interpretation mutex: transition_invariant conc_step lock_inv
  by unfold_locales (rule lock_inv_step)

lemma reachable_lock_inv: "conc_reachable s \<Longrightarrow> lock_inv s"
  unfolding conc_reachable_def by (rule mutex.inv_reach [OF _ lock_inv_init])

text \<open>
  C5: the server's mutex makes its operations atomic. In every interleaving of the threads'
  lock, write, enqueue and unlock actions, with display sessions dequeuing at any moment, at
  most one thread is inside an operation, and the state, once the operation in progress is
  completed, is what the operations give when performed one after the other in the order in
  which they acquired the mutex; while the mutex is free it is that state itself.
\<close>

theorem server_operations_atomic:
  assumes "conc_reachable s"
  shows "completed s = server_run (c_history s) server_init \<and>
    (c_mutex s = None \<longrightarrow> c_server s = server_run (c_history s) server_init) \<and>
    (\<forall>t u as bs. c_threads s t = Inside as \<and> c_threads s u = Inside bs \<longrightarrow> t = u)"
proof -
  have inv: "lock_inv s"
    using assms by (rule reachable_lock_inv)
  have "t = u" if "c_threads s t = Inside as" "c_threads s u = Inside bs" for t u as bs
    using lock_invD(1) [OF inv that(1)] lock_invD(1) [OF inv that(2)] by simp
  with lock_invD(5) [OF inv] completed_free [of s] show ?thesis
    by metis
qed

subsection \<open>Every call returns\<close>

lemma perform_actions:
  "c_threads s t = Inside (as @ bs) \<Longrightarrow>
     conc_step\<^sup>*\<^sup>* s (s\<lparr>c_server := perform_all as (c_server s), c_threads := (c_threads s)(t := Inside bs)\<rparr>)"
proof (induction as arbitrary: s)
  case Nil
  then have "s\<lparr>c_server := perform_all [] (c_server s), c_threads := (c_threads s)(t := Inside bs)\<rparr> = s"
    by (simp add: fun_upd_idem)
  then show ?case by (simp only: rtranclp.rtrancl_refl)
next
  case (Cons a as)
  let ?s = "s\<lparr>c_server := perform a (c_server s), c_threads := (c_threads s)(t := Inside (as @ bs))\<rparr>"
  have "conc_step s ?s"
    using Cons.prems by (intro conc_act) simp
  also have "conc_step\<^sup>*\<^sup>* ?s (?s\<lparr>c_server := perform_all as (c_server ?s),
      c_threads := (c_threads ?s)(t := Inside bs)\<rparr>)"
    by (rule Cons.IH) simp
  finally show ?case by (simp del: fun_upd_apply)
qed

lemma finish_operation:
  assumes "c_threads s t = Inside as"
  shows "conc_step\<^sup>*\<^sup>* s (s\<lparr>c_server := perform_all as (c_server s), c_mutex := None,
      c_threads := (c_threads s)(t := Outside)\<rparr>)"
proof -
  have "c_threads s t = Inside (as @ [])"
    using assms by simp
  note perform_actions [OF this]
  also have "conc_step (s\<lparr>c_server := perform_all as (c_server s), c_threads := (c_threads s)(t := Inside [])\<rparr>)
      (s\<lparr>c_server := perform_all as (c_server s), c_mutex := None, c_threads := (c_threads s)(t := Outside)\<rparr>)"
    using conc_unlock [of "s\<lparr>c_server := perform_all as (c_server s),
        c_threads := (c_threads s)(t := Inside [])\<rparr>" t]
    by (simp add: guard_unlock_def)
  finally show ?thesis .
qed

lemma perform_operation:
  assumes "c_threads s t = Waiting op" and "c_mutex s = None"
  shows "\<exists>s'. conc_step\<^sup>*\<^sup>* s s' \<and> c_threads s' = (c_threads s)(t := Outside) \<and> c_mutex s' = None \<and>
    c_history s' = c_history s @ [op]"
proof -
  let ?s = "s\<lparr>c_mutex := Some t, c_history := c_history s @ [op],
      c_threads := (c_threads s)(t := Inside (op_actions op (c_server s)))\<rparr>"
  let ?t = "?s\<lparr>c_server := perform_all (op_actions op (c_server s)) (c_server s), c_mutex := None,
      c_threads := (c_threads ?s)(t := Outside)\<rparr>"
  have "conc_step s ?s"
    using assms by (intro conc_lock) (simp_all add: guard_lock_def)
  also have "conc_step\<^sup>*\<^sup>* ?s ?t"
    using finish_operation [of ?s t "op_actions op (c_server s)"] by simp
  finally show ?thesis
    by (intro exI [of _ ?t]) simp
qed

text \<open>
  No call of the server blocks for ever by itself: from every reachable state, whoever
  holds the mutex, a waiting thread can get to the end of its operation, which is then the
  next one performed, after which the mutex is free.
\<close>

theorem server_call_can_return:
  assumes "conc_reachable s" and "c_threads s t = Waiting op"
  shows "\<exists>s'. conc_step\<^sup>*\<^sup>* s s' \<and> c_threads s' t = Outside \<and> c_mutex s' = None \<and>
    c_history s' = c_history s @ [op] \<and>
    c_server s' = server_step op (completed s)"
proof -
  have inv: "lock_inv s"
    using assms(1) by (rule reachable_lock_inv)
  obtain s1 where s1: "conc_step\<^sup>*\<^sup>* s s1" "c_mutex s1 = None" "c_threads s1 t = Waiting op"
    "c_history s1 = c_history s"
  proof (cases "c_mutex s")
    case None
    with that assms(2) show ?thesis by blast
  next
    case (Some u)
    then obtain as where u: "c_threads s u = Inside as"
      using lock_invD(2) [OF inv] by blast
    with assms(2) have "u \<noteq> t" by auto
    with assms(2) show ?thesis
      by (intro that [OF finish_operation [OF u]]) simp_all
  qed
  obtain s' where s': "conc_step\<^sup>*\<^sup>* s1 s'" "c_threads s' t = Outside" "c_mutex s' = None"
    "c_history s' = c_history s @ [op]"
    using perform_operation [OF s1(3,2)] s1(4) by (metis fun_upd_same)
  have steps: "conc_step\<^sup>*\<^sup>* s s'"
    using s1(1) s'(1) by (rule rtranclp_trans)
  have inv': "lock_inv s'"
    using steps inv by (rule mutex.inv_reach)
  have "c_server s' = server_step op (completed s)"
    using lock_invD(5) [OF inv'] s'(4) lock_invD(5) [OF inv] completed_free [OF s'(3)]
    by (simp add: server_run_snoc)
  with steps s' show ?thesis by blast
qed

subsection \<open>An interleaved run\<close>

text \<open>
  Thread 1 is inside \<open>process_new_order\<close>: it has announced the order to display 7, which has
  already taken the announcement, but not to display 8; thread 2 waits for the mutex.
\<close>

definition two_displays :: server where
  "two_displays = server_run [Op_register 7, Op_register 8] server_init"

lemma free_reachable:
  assumes "\<And>op c. op \<in> set ops \<Longrightarrow> op \<noteq> Op_dequeue c"
  shows "\<exists>s. conc_reachable s \<and> c_threads s = (\<lambda>_. Outside) \<and> c_mutex s = None \<and> c_history s = ops"
  using assms
proof (induction ops rule: rev_induct)
  case Nil
  show ?case
    by (intro exI [of _ conc_init]) (simp add: conc_reachable_def conc_init_def)
next
  case (snoc op ops)
  then obtain s where s: "conc_reachable s" "c_threads s = (\<lambda>_. Outside)" "c_mutex s = None"
    "c_history s = ops"
    by fastforce
  have "conc_reachable (s\<lparr>c_threads := (c_threads s)(0 := Waiting op)\<rparr>)"
    using conc_call [of s 0 op] snoc.prems s(1,2) by (auto simp: conc_reachable_def)
  moreover obtain s' where "conc_step\<^sup>*\<^sup>* (s\<lparr>c_threads := (c_threads s)(0 := Waiting op)\<rparr>) s'"
    "c_threads s' = (\<lambda>_. Outside)" "c_mutex s' = None" "c_history s' = ops @ [op]"
    using perform_operation [of "s\<lparr>c_threads := (c_threads s)(0 := Waiting op)\<rparr>" 0 op] s
    by (auto simp: fun_upd_idem)
  ultimately show ?case
    unfolding conc_reachable_def by (intro exI [of _ s']) (auto intro: rtranclp_trans)
qed

definition announcement :: message where
  "announcement = message_order MT_DISP_ORDER (Some (created_order 1000 two_item_order))"

lemma new_order_actions_example:
  "op_actions (Op_new_order two_item_order) two_displays =
     [Set_next_id 1001, Set_order 1000 (created_order 1000 two_item_order),
      Enqueue 8 announcement, Enqueue 7 announcement]"
  by code_simp

lemma dequeue_example:
  "\<exists>g. client_dequeue False 8 (perform_all [Set_next_id 1001, Set_order 1000 (created_order 1000 two_item_order),
      Enqueue 8 announcement] two_displays) = (Inr (Some announcement), g)"
  by (simp add: two_displays_def server_run_def server_init_def register_display_def Let_def mq_init_def
      client_enqueue_def mq_enqueue_def client_dequeue_def mq_dequeue_def store_order_def)

lemma conc_reachable_step: "conc_reachable s \<Longrightarrow> conc_step s s' \<Longrightarrow> conc_reachable s'"
  by (simp add: conc_reachable_def)

lemma interleaved_example:
  "\<exists>s. conc_reachable s \<and> c_threads s 1 = Inside [Enqueue 7 announcement] \<and>
     c_threads s 2 = Waiting (Op_item_update 1000 1 IS_IN_PROGRESS) \<and> c_mutex s = Some 1 \<and>
     c_history s = [Op_register 7, Op_register 8, Op_new_order two_item_order, Op_dequeue 8]"
proof -
  obtain s where s: "conc_reachable s" "c_threads s = (\<lambda>_. Outside)" "c_mutex s = None"
    "c_history s = [Op_register 7, Op_register 8]"
    using free_reachable [of "[Op_register 7, Op_register 8]"] by auto
  then have g: "c_server s = two_displays"
    using lock_invD(5) [OF reachable_lock_inv [OF s(1)]] by (simp add: completed_free two_displays_def)
  note steps = conc_reachable_step
  let ?s1 = "s\<lparr>c_threads := (c_threads s)(1 := Waiting (Op_new_order two_item_order))\<rparr>"
  let ?s2 = "?s1\<lparr>c_threads := (c_threads ?s1)(2 := Waiting (Op_item_update 1000 1 IS_IN_PROGRESS))\<rparr>"
  have "conc_reachable ?s1"
    using s by (intro steps [OF _ conc_call]) simp_all
  then have r2: "conc_reachable ?s2"
    by (rule steps [OF _ conc_call]) (simp_all add: s(2))
  let ?s3 = "?s2\<lparr>c_mutex := Some 1, c_history := c_history ?s2 @ [Op_new_order two_item_order],
    c_threads := (c_threads ?s2)(1 := Inside (op_actions (Op_new_order two_item_order) (c_server ?s2)))\<rparr>"
  have "conc_reachable ?s3"
    by (rule steps [OF r2 conc_lock]) (simp_all add: s(3) guard_lock_def)
  then obtain s3 where r3: "conc_reachable s3" "c_mutex s3 = Some 1" "c_server s3 = two_displays"
    "c_threads s3 1 = Inside [Set_next_id 1001, Set_order 1000 (created_order 1000 two_item_order),
      Enqueue 8 announcement, Enqueue 7 announcement]"
    "c_threads s3 2 = Waiting (Op_item_update 1000 1 IS_IN_PROGRESS)"
    "c_history s3 = [Op_register 7, Op_register 8, Op_new_order two_item_order]"
    by (rule that) (simp_all add: s g new_order_actions_example [simplified op_actions.simps])
  let ?as = "[Set_next_id 1001, Set_order 1000 (created_order 1000 two_item_order), Enqueue 8 announcement]"
  let ?s4 = "s3\<lparr>c_server := perform_all ?as (c_server s3),
    c_threads := (c_threads s3)(1 := Inside [Enqueue 7 announcement])\<rparr>"
  have r4: "conc_reachable ?s4"
    using r3(1) perform_actions [of s3 1 ?as "[Enqueue 7 announcement]"] r3(4)
    unfolding conc_reachable_def by (auto intro: rtranclp_trans)
  obtain g where "client_dequeue False 8 (perform_all [Set_next_id 1001,
      Set_order 1000 (created_order 1000 two_item_order), Enqueue 8 announcement] two_displays) =
      (Inr (Some announcement), g)"
    using dequeue_example by blast
  then have "client_dequeue False 8 (c_server ?s4) = (Inr (Some announcement), g)"
    by (simp add: r3(3))
  from steps [OF r4 conc_dequeue [OF this]] r3 show ?thesis
    by (intro exI [of _ "?s4\<lparr>c_server := g, c_history := c_history ?s4 @
      dequeue_ops 8 (Some announcement)\<rparr>"]) (simp add: dequeue_ops_def)
qed

lemma server_operations_atomic_witness:
  "\<exists>s. conc_reachable s \<and> c_threads s 1 = Inside [Enqueue 7 announcement] \<and>
     completed s = server_run [Op_register 7, Op_register 8, Op_new_order two_item_order,
       Op_dequeue 8] server_init"
  using interleaved_example server_operations_atomic by metis

lemma server_call_can_return_witness:
  "\<exists>s s'. conc_reachable s \<and> c_mutex s = Some 1 \<and> conc_step\<^sup>*\<^sup>* s s' \<and> c_threads s' 2 = Outside \<and>
     c_history s' = [Op_register 7, Op_register 8, Op_new_order two_item_order, Op_dequeue 8,
       Op_item_update 1000 1 IS_IN_PROGRESS]"
proof -
  obtain s where s: "conc_reachable s" "c_threads s 2 = Waiting (Op_item_update 1000 1 IS_IN_PROGRESS)"
    "c_mutex s = Some 1"
    "c_history s = [Op_register 7, Op_register 8, Op_new_order two_item_order, Op_dequeue 8]"
    using interleaved_example by blast
  from server_call_can_return [OF s(1,2)] s show ?thesis by auto
qed

end
