(* ===== verification/Threads.thy ===== *)
theory Threads
  imports Session Mirror_Wire
begin

text \<open>
  A session's thread (\<open>client_thread_start\<close>) one step at a time, so that many of them can be
  interleaved. A step performs at most one operation on the server; everything else it does
  concerns its own client and descriptor, which no other thread uses, so placing the step
  where its operation happens loses no behaviour. The steps of one thread, with the other
  sessions' operations between them, are the function \<open>client_thread_start\<close>.
\<close>

subsection \<open>Steps\<close>

datatype phase =
    Login        \<comment> \<open>created, before and during the login\<close>
  | Updating     \<comment> \<open>at the head of the updater loop\<close>
  | Displaying   \<comment> \<open>at the head of the display loop\<close>
  | Leaving      \<comment> \<open>has left the display loop, before it deregisters\<close>

record thread =
  th_client :: client
  th_fd :: int              \<comment> \<open>\<open>m_fd\<close> as a number; \<open>m_fd\<close> of \<open>client\<close> is the connection\<close>
  th_phase :: phase
  th_base :: nat            \<comment> \<open>ghost: bytes written when the loop was entered\<close>

datatype outcome = Goes_on thread | Ends | Undefined exn

text \<open>The first step: \<open>chat\<close> up to the head of the loop it enters.\<close>

definition login_step :: "thread \<Rightarrow> server \<Rightarrow> outcome \<times> server" where
  "login_step th srv =
     (case chat [] (th_client th) srv of
        (None, this1, srv1) \<Rightarrow>
          (Goes_on (th\<lparr>th_client := this1, th_base := length (fd_out (m_fd this1)),
             th_phase := if m_mode this1 = CM_DISPLAY then Displaying else Updating\<rparr>), srv1)
      | (Some (Inr _), this1, srv1) \<Rightarrow> (Ends, srv1)
      | (Some (Inl e), this1, srv1) \<Rightarrow> (Undefined e, srv1))"

text \<open>An exception that leaves the updater loop is caught by \<open>chat\<close>.\<close>

definition updater_step :: "thread \<Rightarrow> server \<Rightarrow> outcome \<times> server" where
  "updater_step th srv =
     (case updater_iteration (th_client th) srv of
        (Inl e, this1, srv1) \<Rightarrow> (if is_std_exception e then Ends else Undefined e, srv1)
      | (Inr Return, this1, srv1) \<Rightarrow> (Ends, srv1)
      | (Inr Next, this1, srv1) \<Rightarrow>
          (if m_running this1 then Goes_on (th\<lparr>th_client := this1\<rparr>) else Ends, srv1))"

definition display_step :: "bool \<Rightarrow> thread \<Rightarrow> server \<Rightarrow> outcome \<times> server" where
  "display_step expired th srv =
     (case display_iteration expired (th_client th) srv of
        (Inl (Fatal d), this1, srv1) \<Rightarrow> (Undefined (Fatal d), srv1)
      | (Inr Next, this1, srv1) \<Rightarrow>
          (Goes_on (th\<lparr>th_client := this1,
             th_phase := if m_running this1 then Displaying else Leaving\<rparr>), srv1)
      | (_, this1, srv1) \<Rightarrow> (Goes_on (th\<lparr>th_client := this1, th_phase := Leaving\<rparr>), srv1))"

definition leave_step :: "thread \<Rightarrow> server \<Rightarrow> outcome \<times> server" where
  "leave_step th srv = (Ends, unregister_display (c_id (th_client th)) srv)"

fun session_step :: "bool \<Rightarrow> thread \<Rightarrow> server \<Rightarrow> outcome \<times> server" where
  "session_step expired th srv =
     (case th_phase th of
        Login \<Rightarrow> login_step th srv
      | Updating \<Rightarrow> updater_step th srv
      | Displaying \<Rightarrow> display_step expired th srv
      | Leaving \<Rightarrow> leave_step th srv)"

declare session_step.simps [simp del]

subsection \<open>The steps of one thread\<close>

fun thread_run :: "schedule \<Rightarrow> thread \<Rightarrow> server \<Rightarrow> outcome \<times> server" where
  "thread_run sched th srv =
     (if th_phase th = Leaving then leave_step th srv
      else case sched of
        [] \<Rightarrow> (Goes_on th, srv)
      | (ops, expired) # rest \<Rightarrow>
          (case session_step expired th (server_run ops srv) of
             (Goes_on th1, srv1) \<Rightarrow> thread_run rest th1 srv1
           | r \<Rightarrow> r))"

declare thread_run.simps [simp del]

lemma thread_run_step [simp]:
  "th_phase th = Leaving \<Longrightarrow> thread_run sched th s = leave_step th s"
  "th_phase th \<noteq> Leaving \<Longrightarrow> thread_run [] th s = (Goes_on th, s)"
  "th_phase th \<noteq> Leaving \<Longrightarrow> thread_run ((ops, b) # sched) th s =
     (case session_step b th (server_run ops s) of
        (Goes_on th1, s1) \<Rightarrow> thread_run sched th1 s1
      | r \<Rightarrow> r)"
  by (simp_all add: thread_run.simps [of _ th])

definition new_thread :: "client_id \<Rightarrow> fd \<Rightarrow> int \<Rightarrow> thread" where
  "new_thread i conn fd =
     \<lparr>th_client = client_new i conn, th_fd = fd, th_phase = Login, th_base = 0\<rparr>"

text \<open>How a result of \<open>client_thread_start\<close> corresponds to an outcome.\<close>

definition same_outcome :: "unit res option \<Rightarrow> client \<Rightarrow> outcome \<Rightarrow> bool" where
  "same_outcome r this q \<longleftrightarrow>
     (case r of
        None \<Rightarrow> (\<exists>th. q = Goes_on th \<and> th_client th = this)
      | Some (Inr _) \<Rightarrow> q = Ends
      | Some (Inl e) \<Rightarrow> q = Undefined e)"

lemma updater_loop_thread:
  assumes "updater_loop sched (th_client th) s = (r, this', s')" and "m_running (th_client th)"
    and "th_phase th = Updating"
  shows "\<exists>q. thread_run sched th s = (q, s') \<and>
    same_outcome (case r of Some (Inl e) \<Rightarrow> Some (if is_std_exception e then Inr () else Inl e) | _ \<Rightarrow> r)
      this' q"
  using assms
proof (induction sched arbitrary: th s)
  case Nil
  then show ?case by (auto simp: same_outcome_def)
next
  case (Cons e sched)
  obtain ops b where e [simp]: "e = (ops, b)" by (cases e)
  obtain k c1 s1 where it: "updater_iteration (th_client th) (server_run ops s) = (k, c1, s1)"
    by (metis prod_cases3)
  show ?case
  proof (cases "k = Inr Next \<and> m_running c1")
    case True
    let ?th = "th\<lparr>th_client := c1\<rparr>"
    have "updater_loop sched (th_client ?th) s1 = (r, this', s')"
      using Cons.prems True it by simp
    moreover have "thread_run (e # sched) th s = thread_run sched ?th s1"
      using Cons.prems(3) True it by (simp add: session_step.simps updater_step_def)
    ultimately show ?thesis
      using Cons.IH [of ?th s1] Cons.prems(3) True by simp
  next
    case False
    with Cons.prems it show ?thesis
      by (auto simp: session_step.simps updater_step_def same_outcome_def
          split: sum.splits flow.splits if_splits)
  qed
qed

lemma display_while_thread:
  assumes "display_while sched (th_client th) s = (r, this', s')"
    and "th_phase th = (if m_running (th_client th) then Displaying else Leaving)"
  shows "\<exists>q. thread_run sched th s = (q, case r of Some (Inr _) \<Rightarrow> unregister_display (c_id this') s' | _ \<Rightarrow> s') \<and>
    same_outcome r this' q"
  using assms
proof (induction sched arbitrary: th s)
  case Nil
  then show ?case
    by (cases "m_running (th_client th)") (auto simp: same_outcome_def leave_step_def)
next
  case (Cons e sched)
  obtain ops b where e [simp]: "e = (ops, b)" by (cases e)
  obtain k c1 s1 where it: "display_iteration b (th_client th) (server_run ops s) = (k, c1, s1)"
    by (metis prod_cases3)
  show ?case
  proof (cases "m_running (th_client th)")
    case False
    with Cons.prems show ?thesis by (auto simp: same_outcome_def leave_step_def)
  next
    case run: True
    show ?thesis
    proof (cases "k = Inr Next")
      case True
      let ?th = "th\<lparr>th_client := c1, th_phase := if m_running c1 then Displaying else Leaving\<rparr>"
      have "display_while sched (th_client ?th) s1 = (r, this', s')"
        using Cons.prems True it run by simp
      moreover have "thread_run (e # sched) th s = thread_run sched ?th s1"
        using Cons.prems(2) True it run by (simp add: session_step.simps display_step_def)
      ultimately show ?thesis
        using Cons.IH [of ?th s1] by simp
    next
      case False
      with Cons.prems it run show ?thesis
        by (auto simp: session_step.simps display_step_def same_outcome_def leave_step_def
            split: sum.splits flow.splits exn.splits)
    qed
  qed
qed

lemma display_while_Inl:
  "display_while sched this s = (Some (Inl e), this', s') \<Longrightarrow> \<not> is_std_exception e"
proof (induction sched arbitrary: this s)
  case Nil
  then show ?case by (cases "m_running this") simp_all
next
  case (Cons x sched)
  obtain ops b where x [simp]: "x = (ops, b)" by (cases x)
  show ?case
    using Cons by (cases "m_running this") (auto split: prod.splits sum.splits flow.splits exn.splits)
qed

text \<open>After the login: what \<open>chat\<close> does from the head of its loop on.\<close>

definition chat_tail :: "schedule \<Rightarrow> client \<Rightarrow> server \<Rightarrow> unit res option \<times> client \<times> server" where
  "chat_tail sched this srv =
     (if m_mode this = CM_DISPLAY then
        (case display_while sched this srv of
           (Some (Inr _), this1, srv1) \<Rightarrow> (Some (Inr ()), this1, unregister_display (c_id this1) srv1)
         | r \<Rightarrow> r)
      else updater_loop sched this srv)"

text \<open>A session either stops before it reaches a loop, or enters one.\<close>

definition stops :: "(schedule \<Rightarrow> unit res option \<times> client \<times> server) \<Rightarrow> server \<Rightarrow> bool" where
  "stops f srv \<longleftrightarrow>
     (\<exists>r this1. (\<forall>sched. f sched = (Some r, this1, srv)) \<and> (\<forall>e. r = Inl e \<longrightarrow> is_std_exception e))"

definition loop_server :: "client_id \<Rightarrow> client_mode \<Rightarrow> server \<Rightarrow> server" where
  "loop_server i m srv = (if m = CM_DISPLAY then register_display i srv else srv)"

definition enters :: "(schedule \<Rightarrow> unit res option \<times> client \<times> server) \<Rightarrow> client \<Rightarrow> server \<Rightarrow> bool" where
  "enters f this srv \<longleftrightarrow>
     (\<exists>d m. f [] = (None, this\<lparr>m_fd := d, m_mode := m\<rparr>, loop_server (c_id this) m srv) \<and>
        (\<forall>sched. f sched = chat_tail sched (this\<lparr>m_fd := d, m_mode := m\<rparr>) (loop_server (c_id this) m srv)))"

lemma enters_fd [simp]: "enters f (this\<lparr>m_fd := d\<rparr>) srv = enters f this srv"
  by (simp add: enters_def)

lemma chat_mode_tail:
  assumes "m_running this"
  shows "stops (\<lambda>sched. chat_mode sched mode this srv) srv \<or>
    enters (\<lambda>sched. chat_mode sched mode this srv) this srv"
proof -
  obtain b c1 where c: "client_send_message (message_str MT_OK ''Login successful'') this = (b, c1)"
    by (metis prod.exhaust)
  from client_send_cases [OF c] obtain sent d where b: "b = Inr sent" "c1 = this\<lparr>m_fd := d\<rparr>" by blast
  show ?thesis
  proof (cases mode)
    case CM_INVALID
    with c b show ?thesis by (auto simp: chat_mode_def Let_def stops_def)
  next
    case CM_DISPLAY
    with c b assms show ?thesis
      unfolding enters_def
      by (intro disjI2 exI [of _ d] exI [of _ CM_DISPLAY])
        (simp add: chat_mode_def Let_def display_loop_def chat_tail_def loop_server_def)
  next
    case CM_UPDATER
    with c b assms show ?thesis
      unfolding enters_def
      by (intro disjI2 exI [of _ d] exI [of _ CM_UPDATER])
        (simp add: chat_mode_def Let_def chat_tail_def loop_server_def)
  qed
qed

lemma chat_body_tail:
  assumes "m_running this"
  shows "stops (\<lambda>sched. chat_body sched this srv) srv \<or> enters (\<lambda>sched. chat_body sched this srv) this srv"
proof -
  obtain q d where d: "io_receive (m_fd this) = (q, d)" by (metis prod.exhaust)
  show ?thesis
  proof (cases q)
    case (Inl e)
    then have "is_IOException e" using io_receive_cases [OF d] by simp
    with Inl d show ?thesis
      by (intro disjI1) (auto simp: chat_body_def is_IOException_iff stops_def)
  next
    case raw: (Inr raw)
    let ?c = "this\<lparr>m_fd := d\<rparr>"
    show ?thesis
    proof (cases "decode raw")
      case (Inl e)
      then have "is_InvalidMessage e" by (rule decode_Inl)
      with raw d Inl show ?thesis
        by (intro disjI1) (auto simp: chat_body_def is_InvalidMessage_iff stops_def)
    next
      case m: (Inr m)
      show ?thesis
      proof (cases "m_type m = MT_LOGIN \<and> has_client_mode m \<and> has_str m \<and> authenticate (m_str m)")
        case True
        then have "(\<lambda>sched. chat_body sched this srv) = (\<lambda>sched. chat_mode sched (m_client_mode m) ?c srv)"
          using d raw m by (simp add: chat_body_def Let_def)
        with chat_mode_tail [of ?c "m_client_mode m" srv] assms show ?thesis by simp
      next
        case False
        obtain b c1 where c: "client_send_message (message_str MT_ERROR ''Invalid credentials'') ?c = (b, c1)"
          by (metis prod.exhaust)
        from client_send_cases [OF c] obtain sent where "b = Inr sent" by blast
        with False d raw m c show ?thesis
          by (intro disjI1, cases "m_type m = MT_LOGIN"; cases "has_client_mode m \<and> has_str m")
            (auto simp: chat_body_def Let_def stops_def)
      qed
    qed
  qed
qed

text \<open>The first step of a thread.\<close>

definition entered :: "thread \<Rightarrow> fd \<Rightarrow> client_mode \<Rightarrow> thread" where
  "entered th d m =
     th\<lparr>th_client := (th_client th)\<lparr>m_fd := d, m_mode := m\<rparr>, th_base := length (fd_out d),
        th_phase := if m = CM_DISPLAY then Displaying else Updating\<rparr>"

definition caught :: "unit res option \<times> client \<times> server \<Rightarrow> unit res option \<times> client \<times> server" where
  "caught x =
     (case x of
        (Some (Inl e), this2, srv2) \<Rightarrow> (if is_std_exception e then Some (Inr ()) else Some (Inl e), this2, srv2)
      | r \<Rightarrow> r)"

lemma login_step_cases:
  assumes "m_running (th_client th)"
  obtains (stops) this1 where "login_step th srv = (Ends, srv)"
      "\<And>sched. chat sched (th_client th) srv = (Some (Inr ()), this1, srv)"
    | (enters) d m where "login_step th srv = (Goes_on (entered th d m), loop_server (c_id (th_client th)) m srv)"
      "\<And>sched. chat sched (th_client th) srv =
         caught (chat_tail sched (th_client (entered th d m)) (loop_server (c_id (th_client th)) m srv))"
  using chat_body_tail [OF assms, of srv]
proof
  assume "stops (\<lambda>sched. chat_body sched (th_client th) srv) srv"
  then obtain r this1 where b: "\<And>sched. chat_body sched (th_client th) srv = (Some r, this1, srv)"
      "\<And>e. r = Inl e \<Longrightarrow> is_std_exception e"
    unfolding stops_def by blast
  have "chat sched (th_client th) srv = (Some (Inr ()), this1, srv)" for sched
    using b by (cases r) (simp_all add: chat_def)
  then show ?thesis by (intro stops) (simp_all add: login_step_def)
next
  assume "enters (\<lambda>sched. chat_body sched (th_client th) srv) (th_client th) srv"
  then obtain d m where
    b: "chat_body [] (th_client th) srv =
        (None, (th_client th)\<lparr>m_fd := d, m_mode := m\<rparr>, loop_server (c_id (th_client th)) m srv)"
    and all: "\<And>sched. chat_body sched (th_client th) srv =
        chat_tail sched ((th_client th)\<lparr>m_fd := d, m_mode := m\<rparr>) (loop_server (c_id (th_client th)) m srv)"
    unfolding enters_def by blast
  show ?thesis
  proof (rule enters)
    show "login_step th srv = (Goes_on (entered th d m), loop_server (c_id (th_client th)) m srv)"
      using b by (simp add: login_step_def chat_def entered_def)
    have "th_client (entered th d m) = (th_client th)\<lparr>m_fd := d, m_mode := m\<rparr>"
      by (simp add: entered_def)
    then show "chat sched (th_client th) srv =
        caught (chat_tail sched (th_client (entered th d m)) (loop_server (c_id (th_client th)) m srv))" for sched
      by (simp only: chat_def all caught_def)
  qed
qed

text \<open>
  The steps of a thread are its function. Run the first step of a new session and then one
  step per entry of a schedule, with the listed operations of other sessions before it: the
  server, the outcome (still in a loop, ended, or undefined behaviour) and, while it runs, the
  client are those of \<open>client_thread_start\<close> under that schedule.
\<close>

theorem thread_steps_are_session:
  "\<exists>q. (case login_step (new_thread i conn fd) srv of
          (Goes_on th, srv1) \<Rightarrow> thread_run sched th srv1
        | r \<Rightarrow> r) = (q, snd (snd (client_thread_start sched (client_new i conn) srv))) \<and>
     same_outcome (fst (client_thread_start sched (client_new i conn) srv))
       (fst (snd (client_thread_start sched (client_new i conn) srv))) q"
proof -
  let ?th = "new_thread i conn fd"
  have run: "m_running (th_client ?th)" and c: "th_client ?th = client_new i conn"
    by (simp_all add: new_thread_def client_new_def)
  from run show ?thesis
  proof (cases rule: login_step_cases [where srv = srv])
    case (stops this1)
    then show ?thesis by (simp add: c client_thread_start_def same_outcome_def)
  next
    case (enters d m)
    let ?e = "entered ?th d m" and ?s = "loop_server (c_id (th_client ?th)) m srv"
    have run': "m_running (th_client ?e)" and mode: "m_mode (th_client ?e) = m"
      using run by (simp_all add: entered_def)
    show ?thesis
    proof (cases "m = CM_DISPLAY")
      case True
      obtain r c1 s1 where w: "display_while sched (th_client ?e) ?s = (r, c1, s1)" by (metis prod_cases3)
      have "th_phase ?e = (if m_running (th_client ?e) then Displaying else Leaving)"
        using True run' by (simp add: entered_def)
      from display_while_thread [OF w this] w enters True mode c display_while_Inl show ?thesis
        by (auto simp: client_thread_start_def chat_tail_def caught_def same_outcome_def
            split: option.splits sum.splits)
    next
      case False
      obtain r c1 s1 where w: "updater_loop sched (th_client ?e) ?s = (r, c1, s1)" by (metis prod_cases3)
      have "th_phase ?e = Updating"
        using False by (simp add: entered_def)
      from updater_loop_thread [OF w run' this] w enters False mode c show ?thesis
        by (auto simp: client_thread_start_def chat_tail_def caught_def same_outcome_def
            split: option.splits sum.splits)
    qed
  qed
qed

subsection \<open>What a step does\<close>

definition on_display :: "thread \<Rightarrow> bool" where
  "on_display th \<longleftrightarrow> th_phase th \<in> {Displaying, Leaving}"

text \<open>The operations of one session leave the other clients alone.\<close>

lemma session_op_others:
  assumes "session_op i op" and "j \<noteq> i"
  shows "j \<in> set (m_display_clients (server_step op s)) \<longleftrightarrow> j \<in> set (m_display_clients s)"
  using assms by (auto simp: session_op_def server_step_displays split: server_op.splits)

lemma session_ops_others:
  assumes "\<forall>op\<in>set ops. session_op i op" and "j \<noteq> i"
  shows "j \<in> set (m_display_clients (server_run ops s)) \<longleftrightarrow> j \<in> set (m_display_clients s)"
  using assms(1) by (induction ops arbitrary: s) (simp_all add: server_run_Cons session_op_others [OF _ assms(2)])

text \<open>A thread and the server, seen from outside the thread.\<close>

definition thread_ok :: "client_id \<Rightarrow> thread \<Rightarrow> server \<Rightarrow> bool" where
  "thread_ok i th s \<longleftrightarrow>
     c_id (th_client th) = i \<and> m_running (th_client th) \<and>
     (on_display th \<longleftrightarrow> i \<in> set (m_display_clients s))"

definition outcome_ok :: "client_id \<Rightarrow> thread \<Rightarrow> outcome \<Rightarrow> server \<Rightarrow> bool" where
  "outcome_ok i th q s \<longleftrightarrow>
     (case q of
        Goes_on th' \<Rightarrow> thread_ok i th' s \<and> th_fd th' = th_fd th \<and> th_phase th' \<noteq> Login
      | Ends \<Rightarrow> i \<notin> set (m_display_clients s)
      | Undefined e \<Rightarrow> e = overflow)"

lemma login_step_effect:
  assumes "thread_ok i th s" and "th_phase th = Login" and "login_step th s = (q, s')"
  shows "outcome_ok i th q s' \<and> (\<exists>ops. s' = server_run ops s \<and> (\<forall>op\<in>set ops. session_op i op))"
proof -
  have th: "c_id (th_client th) = i" "m_running (th_client th)" "i \<notin> set (m_display_clients s)"
    using assms(1,2) by (auto simp: thread_ok_def on_display_def)
  from th(2) show ?thesis
  proof (cases rule: login_step_cases [where srv = s])
    case (stops this1)
    with assms(3) th show ?thesis by (auto simp: outcome_ok_def intro!: exI [of _ "[]"])
  next
    case (enters d m)
    then have q: "q = Goes_on (entered th d m)" "s' = loop_server i m s"
      using assms(3) th(1) by simp_all
    have "s' = server_run (if m = CM_DISPLAY then [Op_register i] else []) s"
      by (simp add: q loop_server_def server_run_Cons)
    moreover have "outcome_ok i th q s'"
      using th by (auto simp: q outcome_ok_def thread_ok_def entered_def on_display_def loop_server_def
          register_display_effect)
    ultimately show ?thesis
      by (intro conjI exI [of _ "if m = CM_DISPLAY then [Op_register i] else []"])
        (simp_all add: session_op_def)
  qed
qed

lemma updater_step_effect:
  assumes "thread_ok i th s" and "th_phase th = Updating" and "updater_step th s = (q, s')"
  shows "outcome_ok i th q s' \<and> (\<exists>ops. s' = server_run ops s \<and> (\<forall>op\<in>set ops. session_op i op))"
proof -
  have th: "c_id (th_client th) = i" "m_running (th_client th)" "i \<notin> set (m_display_clients s)"
    using assms(1,2) by (auto simp: thread_ok_def on_display_def)
  obtain r c1 s1 where it: "updater_iteration (th_client th) s = (r, c1, s1)" by (metis prod_cases3)
  from updater_iteration_cases [OF it] obtain ops where
    ops: "c_id c1 = i" "s1 = server_run ops s" "\<forall>op\<in>set ops. updater_op op" "\<forall>e. r = Inl e \<longrightarrow> e = overflow"
    using th(1) by blast
  have "Op_register i \<notin> set ops" using ops(3) by auto
  then have "i \<notin> set (m_display_clients s1)"
    unfolding ops(2) using th(3) by (rule unregistered_run [rotated])
  moreover have "s' = s1"
    using assms(3) it by (auto simp: updater_step_def split: sum.splits flow.splits if_splits)
  ultimately have "outcome_ok i th q s'"
    using assms(2,3) it ops(1,4)
    by (auto simp: updater_step_def outcome_ok_def thread_ok_def on_display_def overflow_def
        split: sum.splits flow.splits if_splits)
  with ops \<open>s' = s1\<close> show ?thesis by (auto simp: session_op_def)
qed

lemma display_step_effect:
  assumes "thread_ok i th s" and "th_phase th = Displaying" and "server_inv s"
    and "display_step b th s = (q, s')"
  shows "outcome_ok i th q s' \<and> (\<exists>ops. s' = server_run ops s \<and> (\<forall>op\<in>set ops. session_op i op))"
proof -
  have th: "c_id (th_client th) = i" "m_running (th_client th)" "i \<in> set (m_display_clients s)"
    using assms(1,2) by (auto simp: thread_ok_def on_display_def)
  obtain r c1 s1 where it: "display_iteration b (th_client th) s = (r, c1, s1)" by (metis prod_cases3)
  let ?ops = "if b then [] else [Op_dequeue i]"
  from display_iteration_cases [OF server_invD(3) [OF assms(3)] it] obtain d k where
    it': "s1 = server_run ?ops s" "c1 = (th_client th)\<lparr>m_fd := d\<rparr>" "r = Inr k"
    using th(1) by blast
  have "i \<in> set (m_display_clients s1)"
    using th(3) by (simp add: it'(1) server_run_Cons server_step_displays del: server_step.simps)
  moreover have "s' = s1"
    using assms(4) it it'(3) by (auto simp: display_step_def split: flow.splits)
  ultimately have "outcome_ok i th q s'"
    using assms(4) it it'(2,3) th
    by (auto simp: display_step_def outcome_ok_def thread_ok_def on_display_def split: flow.splits)
  moreover have "\<forall>op\<in>set ?ops. session_op i op" by (simp add: session_op_def)
  ultimately show ?thesis using it'(1) \<open>s' = s1\<close> by blast
qed

lemma session_step_effect:
  assumes "thread_ok i th s" and "server_inv s" and "session_step b th s = (q, s')"
  shows "outcome_ok i th q s'" and "\<exists>ops. s' = server_run ops s \<and> (\<forall>op\<in>set ops. session_op i op)"
proof -
  have "outcome_ok i th q s' \<and> (\<exists>ops. s' = server_run ops s \<and> (\<forall>op\<in>set ops. session_op i op))"
  proof (cases "th_phase th")
    case Leaving
    have "q = Ends" "s' = server_run [Op_unregister i] s"
      using assms(1,3) Leaving
      by (simp_all add: session_step.simps leave_step_def thread_ok_def server_run_Cons)
    then show ?thesis
      by (intro conjI exI [of _ "[Op_unregister i]"])
        (auto simp: outcome_ok_def session_op_def server_run_Cons unregister_display_effect)
  next
    case Login
    with assms login_step_effect show ?thesis by (simp add: session_step.simps)
  next
    case Updating
    with assms updater_step_effect show ?thesis by (simp add: session_step.simps)
  next
    case Displaying
    with assms display_step_effect show ?thesis by (simp add: session_step.simps)
  qed
  then show "outcome_ok i th q s'" "\<exists>ops. s' = server_run ops s \<and> (\<forall>op\<in>set ops. session_op i op)"
    by blast+
qed

subsection \<open>What a display thread has delivered\<close>

lemma delivered_step:
  assumes "delivered c os t s" and "session_op i op" and "i \<noteq> c"
  shows "delivered c os t (server_step op s)"
proof -
  obtain ms os' where ms: "frames_of ms t" "\<forall>m\<in>set ms. wf_message m" "display_apply ms os = Inr os'"
    "mirrors c os' s" and wf: "wf_server s"
    using assms(1) unfolding delivered_def by blast
  have "mirrors c os' (server_step op s)"
    using ms(4) assms(2,3) by (intro mirrors_step) (auto simp: others_op_def)
  moreover have "wf_server (server_step op s)"
    using wf assms(2) by (rule wf_server_step)
  ultimately show ?thesis
    using ms unfolding delivered_def by blast
qed

interpretation sent: step_invariant server_step "\<lambda>op. session_op i op \<and> i \<noteq> c" "delivered c os t" for i c os t
  by unfold_locales (auto intro: delivered_step)

lemma delivered_run:
  "delivered c os t s \<Longrightarrow> \<forall>op\<in>set ops. session_op i op \<Longrightarrow> i \<noteq> c \<Longrightarrow> delivered c os t (server_run ops s)"
  unfolding server_run_def by (rule sent.inv_run [of _ _ _ _ _ i]) simp_all

lemma delivered_register:
  assumes "wf_server s" and "queue_of s c = []"
  shows "delivered c [] [] (register_display c s)"
proof -
  have "mirrors c [] (register_display c s)"
    using assms by (intro mirrors_register) (simp_all add: wf_server_def)
  moreover have "wf_server (register_display c s)"
    using wf_server_step [OF assms(1), of c "Op_register c"] by (simp add: session_op_def)
  ultimately show ?thesis
    unfolding delivered_def by (intro conjI exI [of _ "[] :: message list"] exI [of _ "[] :: orders"]) simp_all
qed

lemma frames_of_append: "frames_of ms t \<Longrightarrow> frames_of ns u \<Longrightarrow> frames_of (ms @ ns) (t @ u)"
proof -
  assume "frames_of ms t" "frames_of ns u"
  then obtain us vs where "t = concat us" "u = concat vs"
    "list_all2 (\<lambda>m u. \<exists>s. encode m = Inr s \<and> is_frame s u) ms us"
    "list_all2 (\<lambda>m u. \<exists>s. encode m = Inr s \<and> is_frame s u) ns vs"
    unfolding frames_of_def by blast
  then show ?thesis
    unfolding frames_of_def by (intro exI [of _ "us @ vs"]) (simp add: list_all2_appendI)
qed

text \<open>Another message sent.\<close>

lemma delivered_iteration:
  assumes "delivered (c_id this) os t s"
    and "display_iteration expired this s = (Inr Next, this', s')"
  shows "\<exists>u. fd_out (m_fd this') = fd_out (m_fd this) @ u \<and> delivered (c_id this) os (t @ u) s'"
proof -
  obtain ms os1 where ms: "frames_of ms t" "\<forall>m\<in>set ms. wf_message m" "display_apply ms os = Inr os1"
    "mirrors (c_id this) os1 s" and wf: "wf_server s"
    using assms(1) unfolding delivered_def by blast
  from display_iteration_delivers [OF ms(4) wf refl assms(2)] obtain d m x u os2 b where
    step: "this' = this\<lparr>m_fd := d\<rparr>" "fd_out d = fd_out (m_fd this) @ u" "encode m = Inr x" "is_frame x u"
      "wf_message m" "display_handle m os1 = Inr (os2, b)" "mirrors (c_id this) os2 s'" "wf_server s'"
    by blast
  have "frames_of [m] u"
    using frames_of_Cons [OF step(3,4), of "[]" "[]"] by simp
  from frames_of_append [OF ms(1) this] ms(2,3) step
  have "delivered (c_id this) os (t @ u) s'"
    unfolding delivered_def
    by (intro conjI exI [of _ "ms @ [m]"] exI [of _ os2]) (auto simp: display_apply_append)
  with step(1,2) show ?thesis by auto
qed

end
