(* ===== verification/Server_Program.thy ===== *)
theory Server_Program
  imports Threads Network
begin

text \<open>
  The server program: \<open>src/server_main.cpp\<close>, \<open>Server::server_loop\<close> with \<open>client_thread_start\<close>, and
  the destructor of \<open>Client\<close>. The state of the process is the \<open>Server\<close> object, the sessions'
  threads with their \<open>Client\<close> objects, and the operating system's descriptors. An event is what
  happens next: an answer of \<open>accept\<close> with what becomes of the connection, or a step of one
  thread. The loop does not return, so a list of events is a finite part of a run.

  A \<open>Client *\<close> is named by the number of the object in the order of creation. An address can be
  used again after its object was deleted; since no pointer to a deleted object is kept
  (\<open>server_process_safe\<close>), the numbers and the addresses distinguish the same objects.
\<close>

subsection \<open>Accepting connections\<close>

datatype creation =
    Created
  | New_throws string       \<comment> \<open>creating the \<open>Client\<close> fails, \<open>what()\<close> of the exception\<close>
  | Thread_fails int        \<comment> \<open>the result of \<open>pthread_create\<close>\<close>

datatype accepted =
    Accept_fails int        \<comment> \<open>the value of \<open>errno\<close>\<close>
  | Accepts fd creation

datatype event = Accepting accepted | Running client_id bool

record program =
  p_server :: server
  p_threads :: "client_id \<Rightarrow> thread option"
  p_next :: client_id
  p_os :: os
  p_undefined :: bool       \<comment> \<open>the process has reached undefined behaviour\<close>

text \<open>\<open>accept\<close> answers with the lowest descriptor that is not open.\<close>

definition sys_accept :: "os \<Rightarrow> int \<times> os" where
  "sys_accept os = (int (free_fd (os_fds os)), os\<lparr>os_fds := free_fd (os_fds os) # os_fds os\<rparr>)"

definition client_destroy :: "int \<Rightarrow> os \<Rightarrow> os" where
  "client_destroy fd os = (if fd \<ge> 0 then snd (sys_close fd os) else os)"

fun server_loop_iteration :: "accepted \<Rightarrow> program \<Rightarrow> program" where
  "server_loop_iteration (Accept_fails e) p =
     (let os1 = (p_os p)\<lparr>os_errno := e\<rparr> in
      p\<lparr>p_os := if e \<noteq> eintr then put_stderr (''accept error: '' @ os_strerror os1 e @ newline) os1
                 else os1\<rparr>)"
| "server_loop_iteration (Accepts conn how) p =
     (case sys_accept (p_os p) of (connfd, os1) \<Rightarrow>
        case how of
          New_throws w \<Rightarrow>
            p\<lparr>p_os := snd (sys_close connfd (put_stderr (''Error creating client: '' @ w @ newline) os1))\<rparr>
        | Thread_fails rc \<Rightarrow>
            p\<lparr>p_next := p_next p + 1,
               p_os := client_destroy connfd
                 (put_stderr (''pthread_create error: '' @ os_strerror os1 rc @ newline) os1)\<rparr>
        | Created \<Rightarrow>
            p\<lparr>p_next := p_next p + 1, p_os := os1,
               p_threads := (p_threads p)(p_next p := Some (new_thread (p_next p) conn connfd))\<rparr>)"

subsection \<open>Running threads\<close>

text \<open>When the session ends, the smart pointer destroys the \<open>Client\<close>.\<close>

definition thread_step :: "client_id \<Rightarrow> bool \<Rightarrow> program \<Rightarrow> program" where
  "thread_step i expired p =
     (case p_threads p i of
        None \<Rightarrow> p
      | Some th \<Rightarrow>
          (case session_step expired th (p_server p) of
             (Goes_on th1, srv1) \<Rightarrow> p\<lparr>p_server := srv1, p_threads := (p_threads p)(i := Some th1)\<rparr>
           | (Ends, srv1) \<Rightarrow>
               p\<lparr>p_server := srv1, p_threads := (p_threads p)(i := None),
                  p_os := client_destroy (th_fd th) (p_os p)\<rparr>
           | (Undefined e, srv1) \<Rightarrow> p\<lparr>p_server := srv1, p_undefined := True\<rparr>))"

fun program_step :: "event \<Rightarrow> program \<Rightarrow> program" where
  "program_step ev p =
     (if p_undefined p then p
      else case ev of
        Accepting a \<Rightarrow> server_loop_iteration a p
      | Running i expired \<Rightarrow> thread_step i expired p)"

declare program_step.simps [simp del]

definition program_run :: "event list \<Rightarrow> program \<Rightarrow> program" where
  "program_run evs p = fold program_step evs p"

subsection \<open>The server's main program\<close>

definition program_init :: "os \<Rightarrow> program" where
  "program_init os =
     \<lparr>p_server = server_init, p_threads = (\<lambda>_. None), p_next = 0, p_os = os, p_undefined = False\<rparr>"

definition server_loop :: "string \<Rightarrow> event list \<Rightarrow> os \<Rightarrow> (exn \<times> os) + program" where
  "server_loop port evs os =
     (case open_listenfd port os of (server_fd, os1) \<Rightarrow>
        if server_fd < 0
        then Inl (IOException (''open_listenfd failed: '' @ os_strerror os1 (os_errno os1)), os1)
        else Inr (program_run evs (program_init os1)))"

text \<open>
  \<open>main\<close> first ignores \<open>SIGPIPE\<close>, which is why a write to a closed connection is a failing call
  in the model of descriptors and not the end of the process.
\<close>

datatype server_result = Exits int os | Terminates os | Runs program

definition ignore_sigpipe :: "os \<Rightarrow> os" where
  "ignore_sigpipe os = os\<lparr>os_sigpipe_ignored := True\<rparr>"

definition server_main :: "string list \<Rightarrow> event list \<Rightarrow> os \<Rightarrow> server_result" where
  "server_main argv evs os =
     (let os0 = ignore_sigpipe os in
      case argv of
        [_, port] \<Rightarrow>
          (case server_loop port evs os0 of
             Inl (ex, os1) \<Rightarrow>
               if is_IOException ex then Exits 0 (put_stderr (''Error: '' @ what ex @ newline) os1)
               else Terminates os1
           | Inr p \<Rightarrow> Runs p)
      | _ \<Rightarrow> Exits 1 (put_stderr
          (''Usage: '' @ (case argv of [] \<Rightarrow> [] | a # _ \<Rightarrow> a) @ '' <port>'' @ newline) os0))"

subsection \<open>The invariant\<close>

lemma queue_unregistered:
  assumes "server_inv s" and "j \<notin> set (m_display_clients s)" and "queue_of s j = []" and "op \<noteq> Op_register j"
  shows "queue_of (server_step op s) j = []"
proof (cases op)
  case (Op_new_order x)
  show ?thesis
  proof (cases "m_next_order_id s = int_max")
    case True
    with assms(3) show ?thesis by (simp add: Op_new_order process_new_order_def)
  next
    case False
    obtain s' where "process_new_order x s = (Inr (m_next_order_id s), s')"
      "appends s [message_order MT_DISP_ORDER (Some (created_order (m_next_order_id s) x))] s'"
      using process_new_order_effect [OF server_invD(2) [OF assms(1)] False] by blast
    with assms(2,3) show ?thesis by (simp add: Op_new_order appends_def)
  qed
next
  case (Op_item_update k i st)
  from assms(1) show ?thesis
    by (cases rule: process_item_update_cases [where k = k and i = i and st = st])
      (use assms(2,3) in \<open>simp_all add: Op_item_update appends_def\<close>)
next
  case (Op_order_update k st)
  from assms(1) show ?thesis
    by (cases rule: process_order_update_cases [where k = k and st = st])
      (use assms(2,3) in \<open>simp_all add: Op_order_update appends_def\<close>)
next
  case (Op_register c)
  with assms(3,4) show ?thesis by (simp add: register_display_effect)
next
  case (Op_unregister c)
  with assms(3) show ?thesis by (simp add: unregister_display_effect)
next
  case (Op_dequeue c)
  obtain r s' where d: "client_dequeue False c s = (Inr r, s')" "\<And>d. d \<noteq> c \<Longrightarrow> queue_of s' d = queue_of s d"
    "case r of None \<Rightarrow> queue_of s c = [] \<and> queue_of s' c = [] | Some msg \<Rightarrow> queue_of s c = msg # queue_of s' c"
    using client_dequeue_effect [OF server_invD(3) [OF assms(1)]] by metis
  with assms(3) show ?thesis
    by (cases "c = j") (auto simp: Op_dequeue split: option.splits)
qed

definition idle_queue :: "client_id \<Rightarrow> server \<Rightarrow> bool" where
  "idle_queue j s \<longleftrightarrow> server_inv s \<and> j \<notin> set (m_display_clients s) \<and> queue_of s j = []"

interpretation idle: step_invariant server_step "\<lambda>op. op \<noteq> Op_register j" "idle_queue j" for j
proof
  fix s op assume s: "idle_queue j s" and op: "op \<noteq> Op_register j"
  then have "server_inv (server_step op s)" "queue_of (server_step op s) j = []"
    using server_inv_step queue_unregistered by (simp_all add: idle_queue_def)
  moreover have "j \<notin> set (m_display_clients (server_step op s))"
    using s op by (auto simp: idle_queue_def server_step_displays split: server_op.splits)
  ultimately show "idle_queue j (server_step op s)" by (simp add: idle_queue_def)
qed

lemma idle_queue_run:
  "idle_queue j s \<Longrightarrow> Op_register j \<notin> set ops \<Longrightarrow> idle_queue j (server_run ops s)"
  unfolding server_run_def by (rule idle.inv_run) auto

text \<open>What holds of a live thread: \<open>show_ok\<close> is what its display client has been told.\<close>

definition show_ok :: "client_id \<Rightarrow> thread \<Rightarrow> server \<Rightarrow> bool" where
  "show_ok i th s \<longleftrightarrow>
     (on_display th \<or> idle_queue i s) \<and>
     (th_phase th = Displaying \<longrightarrow>
        (\<exists>u t. fd_out (m_fd (th_client th)) = u @ t \<and> length u = th_base th \<and> delivered i [] t s))"

definition sessions_ok :: "program \<Rightarrow> bool" where
  "sessions_ok p \<longleftrightarrow>
     wf_server (p_server p) \<and>
     (\<forall>i th. p_threads p i = Some th \<longrightarrow>
        i < p_next p \<and> thread_ok i th (p_server p) \<and> show_ok i th (p_server p)) \<and>
     (\<forall>i. i \<in> set (m_display_clients (p_server p)) \<longrightarrow> p_threads p i \<noteq> None) \<and>
     (\<forall>i\<ge>p_next p. idle_queue i (p_server p))"

text \<open>The open descriptors are \<open>base\<close> and one of its own for each live thread.\<close>

definition own_fds :: "nat list \<Rightarrow> (client_id \<Rightarrow> thread option) \<Rightarrow> bool" where
  "own_fds base m \<longleftrightarrow>
     (\<forall>i th. m i = Some th \<longrightarrow> 0 \<le> th_fd th \<and> nat (th_fd th) \<notin> set base) \<and>
     (\<forall>i j th tj. m i = Some th \<longrightarrow> m j = Some tj \<longrightarrow> i \<noteq> j \<longrightarrow> th_fd th \<noteq> th_fd tj)"

definition descriptors_ok :: "nat list \<Rightarrow> program \<Rightarrow> bool" where
  "descriptors_ok base p \<longleftrightarrow>
     distinct (os_fds (p_os p)) \<and> own_fds base (p_threads p) \<and>
     set (os_fds (p_os p)) = set base \<union> (\<lambda>th. nat (th_fd th)) ` ran (p_threads p)"

lemma sessions_okD:
  assumes "sessions_ok p"
  shows "wf_server (p_server p)"
    and "p_threads p i = Some th \<Longrightarrow> i < p_next p \<and> thread_ok i th (p_server p) \<and> show_ok i th (p_server p)"
    and "i \<in> set (m_display_clients (p_server p)) \<Longrightarrow> p_threads p i \<noteq> None"
    and "p_next p \<le> i \<Longrightarrow> idle_queue i (p_server p)"
  using assms unfolding sessions_ok_def by blast+

lemma thread_ok_others:
  assumes "thread_ok j th s" and "\<forall>op\<in>set ops. session_op i op" and "j \<noteq> i"
  shows "thread_ok j th (server_run ops s)"
  using assms session_ops_others [OF assms(2,3)] by (simp add: thread_ok_def)

lemma show_ok_others:
  assumes "show_ok j th s" and "\<forall>op\<in>set ops. session_op i op" and "j \<noteq> i"
  shows "show_ok j th (server_run ops s)"
proof -
  have "Op_register j \<notin> set ops"
    using assms(2,3) by (auto simp: session_op_def)
  then have "on_display th \<or> idle_queue j (server_run ops s)"
    using assms(1) idle_queue_run unfolding show_ok_def by blast
  moreover have "delivered j [] t (server_run ops s)" if "delivered j [] t s" for t
    using that assms(2,3) by (intro delivered_run) auto
  ultimately show ?thesis
    using assms(1) unfolding show_ok_def by blast
qed

text \<open>The stepping thread itself.\<close>

lemma show_ok_step:
  assumes th: "thread_ok i th s" "show_ok i th s" and wf: "wf_server s"
    and step: "session_step b th s = (Goes_on th', s')"
  shows "show_ok i th' s'"
proof -
  have inv: "server_inv s" and id: "c_id (th_client th) = i" "m_running (th_client th)"
    using wf th(1) by (auto simp: wf_server_def thread_ok_def)
  note E = session_step_effect [OF th(1) inv step]
  show ?thesis
  proof (cases "th_phase th")
    case Login
    from id(2) show ?thesis
    proof (cases rule: login_step_cases [where srv = s])
      case (stops this1)
      with step Login show ?thesis by (simp add: session_step.simps)
    next
      case (enters d m)
      then have th': "th' = entered th d m" "s' = loop_server i m s"
        using step Login id(1) by (simp_all add: session_step.simps)
      have idle: "idle_queue i s"
        using th(2) Login by (simp add: show_ok_def on_display_def)
      show ?thesis
      proof (cases "m = CM_DISPLAY")
        case True
        with idle wf delivered_register [of s i] show ?thesis
          by (auto simp: th' show_ok_def on_display_def entered_def loop_server_def idle_queue_def)
      next
        case False
        with idle show ?thesis
          by (auto simp: th' show_ok_def on_display_def entered_def loop_server_def)
      qed
    qed
  next
    case Updating
    then have "th_phase th' = Updating"
      using step by (auto simp: session_step.simps updater_step_def split: sum.splits flow.splits prod.splits if_splits)
    moreover have "idle_queue i s'"
    proof -
      obtain r c1 s1 where it: "updater_iteration (th_client th) s = (r, c1, s1)" by (metis prod_cases3)
      from updater_iteration_cases [OF it] obtain ops where
        ops: "s1 = server_run ops s" "\<forall>op\<in>set ops. updater_op op" by blast
      have "s' = s1"
        using step Updating it by (auto simp: session_step.simps updater_step_def split: sum.splits flow.splits if_splits)
      moreover have "Op_register i \<notin> set ops" using ops(2) by auto
      ultimately show ?thesis
        using th(2) Updating ops(1) idle_queue_run by (auto simp: show_ok_def on_display_def)
    qed
    ultimately show ?thesis by (simp add: show_ok_def)
  next
    case Displaying
    obtain r c1 s1 where it: "display_iteration b (th_client th) s = (r, c1, s1)" by (metis prod_cases3)
    show ?thesis
    proof (cases "th_phase th' = Displaying")
      case True
      then have th': "r = Inr Next" "th_client th' = c1" "th_base th' = th_base th" "s' = s1"
        using step Displaying it
        by (auto simp: session_step.simps display_step_def split: sum.splits flow.splits exn.splits if_splits)
      obtain u t where ut: "fd_out (m_fd (th_client th)) = u @ t" "length u = th_base th" "delivered i [] t s"
        using th(2) Displaying unfolding show_ok_def by blast
      from delivered_iteration [of "th_client th" "[]" t s b c1 s1] ut(3) it th'(1) id(1)
      obtain v where "fd_out (m_fd c1) = fd_out (m_fd (th_client th)) @ v" "delivered i [] (t @ v) s1"
        by auto
      with ut(1,2) th' True show ?thesis
        unfolding show_ok_def on_display_def by (intro conjI impI exI [of _ u] exI [of _ "t @ v"]) simp_all
    next
      case False
      then have "th_phase th' = Leaving"
        using step Displaying it
        by (auto simp: session_step.simps display_step_def split: sum.splits flow.splits exn.splits if_splits)
      then show ?thesis by (simp add: show_ok_def on_display_def)
    qed
  next
    case Leaving
    with step show ?thesis by (simp add: session_step.simps leave_step_def)
  qed
qed

subsection \<open>Every step keeps the invariant\<close>

definition session_ops_only :: "server \<Rightarrow> server \<Rightarrow> bool" where
  "session_ops_only s s' \<longleftrightarrow>
     (\<exists>ops. s' = server_run ops s \<and> (\<forall>op\<in>set ops. \<exists>i. session_op i op))"

lemma session_ops_only_refl: "session_ops_only s s"
  by (auto simp: session_ops_only_def intro!: exI [of _ "[]"])

lemma session_ops_only_trans:
  assumes "session_ops_only s t" and "session_ops_only t u"
  shows "session_ops_only s u"
proof -
  obtain xs where xs: "t = server_run xs s" "\<forall>op\<in>set xs. \<exists>i. session_op i op"
    using assms(1) unfolding session_ops_only_def by blast
  obtain ys where ys: "u = server_run ys t" "\<forall>op\<in>set ys. \<exists>i. session_op i op"
    using assms(2) unfolding session_ops_only_def by blast
  from xs ys show ?thesis
    unfolding session_ops_only_def
    by (intro exI [of _ "xs @ ys"]) (auto simp: server_run_append)
qed

text \<open>A step of a thread that goes on or ends.\<close>

lemma sessions_ok_step:
  assumes p: "sessions_ok p" and th: "p_threads p i = Some th"
    and step: "session_step b th (p_server p) = (q, s')"
    and q: "q = Goes_on th' \<and> new = Some th' \<or> q = Ends \<and> new = None"
  shows "sessions_ok (p\<lparr>p_server := s', p_threads := (p_threads p)(i := new)\<rparr>)"
proof -
  note P = sessions_okD [OF p]
  have inv: "server_inv (p_server p)" using P(1) by (simp add: wf_server_def)
  have tho: "thread_ok i th (p_server p)" "show_ok i th (p_server p)" "i < p_next p"
    using P(2) [OF th] by simp_all
  note E = session_step_effect [OF tho(1) inv step]
  obtain ops where ops: "s' = server_run ops (p_server p)" "\<forall>op\<in>set ops. session_op i op"
    using E(2) by blast
  have wf: "wf_server s'"
    unfolding ops(1) using P(1) ops(2) by (intro wf_server_run) blast+
  have live: "j < p_next p \<and> thread_ok j tj s' \<and> show_ok j tj s'"
    if "((p_threads p)(i := new)) j = Some tj" for j tj
  proof (cases "j = i")
    case True
    with that q have g: "q = Goes_on tj" by auto
    with E(1) have "thread_ok i tj s'" by (simp add: outcome_ok_def)
    moreover have "show_ok i tj s'"
      using step g by (intro show_ok_step [OF tho(1,2) P(1)]) simp
    ultimately show ?thesis using True tho(3) by simp
  next
    case j: False
    with that have "p_threads p j = Some tj" by simp
    from P(2) [OF this] ops j show ?thesis
      by (auto intro: thread_ok_others show_ok_others)
  qed
  have reg: "((p_threads p)(i := new)) j \<noteq> None" if "j \<in> set (m_display_clients s')" for j
  proof (cases "j = i")
    case True
    with that q E(1) show ?thesis by (auto simp: outcome_ok_def)
  next
    case j: False
    then have "j \<in> set (m_display_clients (p_server p))"
      using that session_ops_others [OF ops(2) j] ops(1) by simp
    with P(3) j show ?thesis by simp
  qed
  have fresh: "idle_queue j s'" if "p_next p \<le> j" for j
  proof -
    have "Op_register j \<notin> set ops" using ops(2) that tho(3) by (auto simp: session_op_def)
    with P(4) [OF that] show ?thesis unfolding ops(1) by (rule idle_queue_run)
  qed
  show ?thesis
    unfolding sessions_ok_def using wf live reg fresh by simp
qed

lemma sessions_ok_undefined: "sessions_ok p \<Longrightarrow> sessions_ok (p\<lparr>p_undefined := True\<rparr>)"
  by (simp add: sessions_ok_def)

lemma overflow_step_server:
  assumes "session_step b th s = (Undefined e, s')" and "thread_ok i th s" and "server_inv s"
  shows "s' = s \<and> m_next_order_id s = int_max"
proof (cases "th_phase th")
  case Login
  have "m_running (th_client th)" using assms(2) by (simp add: thread_ok_def)
  then show ?thesis
    using assms(1) Login by (cases rule: login_step_cases [where srv = s]) (auto simp: session_step.simps)
next
  case Displaying
  obtain r c1 s1 where it: "display_iteration b (th_client th) s = (r, c1, s1)" by (metis prod_cases3)
  from display_iteration_cases [OF server_invD(3) [OF assms(3)] it] obtain k where "r = Inr k" by blast
  with it assms(1) Displaying show ?thesis
    by (auto simp: session_step.simps display_step_def split: flow.splits)
next
  case Leaving
  with assms(1) show ?thesis by (simp add: session_step.simps leave_step_def)
next
  case Updating
  obtain r c1 s1 where it: "updater_iteration (th_client th) s = (r, c1, s1)" by (metis prod_cases3)
  with assms(1) Updating show ?thesis
    using updater_iteration_overflow
    by (auto simp: session_step.simps updater_step_def split: sum.splits flow.splits if_splits)
qed

lemma sessions_ok_cong:
  "sessions_ok p \<Longrightarrow> p_server p' = p_server p \<Longrightarrow> p_threads p' = p_threads p \<Longrightarrow>
     p_next p \<le> p_next p' \<Longrightarrow> sessions_ok p'"
  unfolding sessions_ok_def by (auto intro: less_le_trans)

lemma sessions_ok_thread_step:
  assumes p: "sessions_ok p"
  shows "sessions_ok (thread_step i b p) \<and> session_ops_only (p_server p) (p_server (thread_step i b p)) \<and>
    (p_undefined (thread_step i b p) \<longrightarrow> p_undefined p \<or> m_next_order_id (p_server (thread_step i b p)) = int_max)"
proof (cases "p_threads p i")
  case None
  with p show ?thesis by (simp add: thread_step_def session_ops_only_refl)
next
  case th: (Some th)
  obtain q s' where step: "session_step b th (p_server p) = (q, s')" by (metis prod.exhaust)
  have inv: "server_inv (p_server p)" and tho: "thread_ok i th (p_server p)"
    using sessions_okD(1,2) [OF p] th by (auto simp: wf_server_def)
  have ops: "session_ops_only (p_server p) s'"
    using session_step_effect(2) [OF tho inv step] unfolding session_ops_only_def by blast
  show ?thesis
  proof (cases q)
    case (Goes_on th')
    then have eq: "thread_step i b p = p\<lparr>p_server := s', p_threads := (p_threads p)(i := Some th')\<rparr>"
      using th step by (simp add: thread_step_def)
    have "sessions_ok (p\<lparr>p_server := s', p_threads := (p_threads p)(i := Some th')\<rparr>)"
      using sessions_ok_step [OF p th step] Goes_on by blast
    with ops show ?thesis unfolding eq by simp
  next
    case Ends
    then have eq: "thread_step i b p = p\<lparr>p_server := s', p_threads := (p_threads p)(i := None),
        p_os := client_destroy (th_fd th) (p_os p)\<rparr>"
      using th step by (simp add: thread_step_def)
    have "sessions_ok (p\<lparr>p_server := s', p_threads := (p_threads p)(i := None)\<rparr>)"
      using sessions_ok_step [OF p th step] Ends by blast
    then have "sessions_ok (thread_step i b p)"
      unfolding eq by (rule sessions_ok_cong) simp_all
    with ops show ?thesis unfolding eq by simp
  next
    case (Undefined e)
    then have eq: "thread_step i b p = p\<lparr>p_server := s', p_undefined := True\<rparr>"
      using th step by (simp add: thread_step_def)
    have s': "s' = p_server p" "m_next_order_id (p_server p) = int_max"
      using overflow_step_server [OF step [unfolded Undefined] tho inv] by simp_all
    have "sessions_ok (thread_step i b p)"
      unfolding eq s'(1) using p by (rule sessions_ok_cong) simp_all
    with ops s' show ?thesis unfolding eq by simp
  qed
qed

lemma new_thread_ok:
  assumes "idle_queue i s"
  shows "thread_ok i (new_thread i conn fd) s \<and> show_ok i (new_thread i conn fd) s"
  using assms
  by (simp add: thread_ok_def show_ok_def new_thread_def client_new_def on_display_def idle_queue_def)

lemma sessions_ok_accept:
  assumes p: "sessions_ok p"
  shows "sessions_ok (server_loop_iteration a p) \<and>
    p_server (server_loop_iteration a p) = p_server p \<and>
    p_undefined (server_loop_iteration a p) = p_undefined p"
proof (cases a)
  case (Accept_fails e)
  have "sessions_ok (server_loop_iteration a p)"
    using p by (rule sessions_ok_cong) (simp_all add: Accept_fails Let_def)
  then show ?thesis by (simp add: Accept_fails Let_def)
next
  case (Accepts conn how)
  show ?thesis
  proof (cases how)
    case Created
    note P = sessions_okD [OF p]
    let ?n = "p_next p"
    obtain fd os1 where acc: "sys_accept (p_os p) = (fd, os1)" by (metis prod.exhaust)
    let ?p = "p\<lparr>p_next := ?n + 1, p_os := os1, p_threads := (p_threads p)(?n := Some (new_thread ?n conn fd))\<rparr>"
    have "idle_queue ?n (p_server p)" using P(4) by simp
    from new_thread_ok [OF this] have "sessions_ok ?p"
      unfolding sessions_ok_def using P(1,3,4) by (auto dest: P(2))
    then show ?thesis by (simp add: Accepts Created acc)
  next
    case (New_throws w)
    have "sessions_ok (server_loop_iteration a p)"
      using p by (rule sessions_ok_cong) (simp_all add: Accepts New_throws sys_accept_def)
    then show ?thesis by (simp add: Accepts New_throws sys_accept_def)
  next
    case (Thread_fails rc)
    have "sessions_ok (server_loop_iteration a p)"
      using p by (rule sessions_ok_cong) (simp_all add: Accepts Thread_fails sys_accept_def)
    then show ?thesis by (simp add: Accepts Thread_fails sys_accept_def)
  qed
qed

subsection \<open>Descriptors\<close>

lemma own_fds_remove: "own_fds base m \<Longrightarrow> own_fds base (m(i := None))"
  unfolding own_fds_def by (metis fun_upd_apply option.distinct(1))

lemma own_fds_update:
  assumes "own_fds base m" and "0 \<le> th_fd th" and "nat (th_fd th) \<notin> set base"
    and "\<And>j tj. m j = Some tj \<Longrightarrow> j \<noteq> i \<Longrightarrow> th_fd tj \<noteq> th_fd th"
  shows "own_fds base (m(i := Some th))"
proof -
  have "th_fd tj \<noteq> th_fd tk"
    if "(m(i := Some th)) j = Some tj" "(m(i := Some th)) k = Some tk" "j \<noteq> k" for j k tj tk
    using that assms(4) [of j tj] assms(4) [of k tk] assms(1)
    unfolding own_fds_def by (auto split: if_splits)
  moreover have "0 \<le> th_fd tj \<and> nat (th_fd tj) \<notin> set base" if "(m(i := Some th)) j = Some tj" for j tj
    using that assms(1-3) unfolding own_fds_def by (auto split: if_splits)
  ultimately show ?thesis unfolding own_fds_def by blast
qed

lemma own_fdsD:
  assumes "own_fds base m" and "m i = Some th"
  shows "0 \<le> th_fd th" and "nat (th_fd th) \<notin> set base"
    and "m j = Some tj \<Longrightarrow> j \<noteq> i \<Longrightarrow> th_fd tj \<noteq> th_fd th"
  using assms unfolding own_fds_def by blast+

lemma client_destroy_fds:
  assumes "0 \<le> fd"
  shows "os_fds (client_destroy fd os) = removeAll (nat fd) (os_fds os)"
proof -
  obtain r os1 where "sys_close (int (nat fd)) os = (r, os1)" by (metis prod.exhaust)
  from sys_close_cases [OF this] assms this show ?thesis by (simp add: client_destroy_def)
qed

lemma descriptors_cong:
  "descriptors_ok base p \<Longrightarrow> p_threads p' = p_threads p \<Longrightarrow> os_fds (p_os p') = os_fds (p_os p) \<Longrightarrow>
     descriptors_ok base p'"
  by (simp add: descriptors_ok_def)

text \<open>A connection that was accepted and given up leaves the table as it was.\<close>

lemma accept_close_fds:
  assumes "sys_accept os = (fd, os1)" and "os_fds os2 = os_fds os1"
  shows "0 \<le> fd" and "os_fds (client_destroy fd os2) = os_fds os"
    and "os_fds (snd (sys_close fd os2)) = os_fds os"
proof -
  have fd: "fd = int (free_fd (os_fds os))" "os_fds os2 = free_fd (os_fds os) # os_fds os"
    using assms by (auto simp: sys_accept_def)
  then show "0 \<le> fd" by simp
  then show "os_fds (client_destroy fd os2) = os_fds os"
    using fd by (simp add: client_destroy_fds)
  with \<open>0 \<le> fd\<close> show "os_fds (snd (sys_close fd os2)) = os_fds os"
    by (simp add: client_destroy_def)
qed

lemma descriptors_accept:
  assumes p: "descriptors_ok base p" and s: "sessions_ok p"
  shows "descriptors_ok base (server_loop_iteration a p)"
proof (cases a)
  case (Accept_fails e)
  show ?thesis
    using p by (rule descriptors_cong) (simp_all add: Accept_fails Let_def)
next
  case (Accepts conn how)
  obtain fd os1 where acc: "sys_accept (p_os p) = (fd, os1)" by (metis prod.exhaust)
  note C = accept_close_fds [OF acc]
  show ?thesis
  proof (cases how)
    case (New_throws w)
    show ?thesis
      using p by (rule descriptors_cong) (simp_all add: Accepts New_throws acc C(3))
  next
    case (Thread_fails rc)
    show ?thesis
      using p by (rule descriptors_cong) (simp_all add: Accepts Thread_fails acc C(2))
  next
    case Created
    let ?n = "p_next p" and ?fd = "free_fd (os_fds (p_os p))"
    have fd: "fd = int ?fd" "os_fds os1 = ?fd # os_fds (p_os p)"
      using acc by (auto simp: sys_accept_def)
    have none: "p_threads p ?n = None"
      using sessions_okD(2) [OF s, of ?n] by (cases "p_threads p ?n") auto
    have eq: "server_loop_iteration a p =
      p\<lparr>p_next := ?n + 1, p_os := os1, p_threads := (p_threads p)(?n := Some (new_thread ?n conn fd))\<rparr>"
      by (simp add: Accepts Created acc)
    have new: "?fd \<notin> set (os_fds (p_os p))" by simp
    have own: "own_fds base (p_threads p)" and
      fds: "distinct (os_fds (p_os p))"
        "set (os_fds (p_os p)) = set base \<union> (\<lambda>th. nat (th_fd th)) ` ran (p_threads p)"
      using p unfolding descriptors_ok_def by blast+
    let ?th = "new_thread ?n conn fd"
    have th: "th_fd ?th = int ?fd" by (simp add: new_thread_def fd(1))
    have "th_fd tj \<noteq> int ?fd" if "p_threads p j = Some tj" for j tj
      using fds(2) new ranI [of "p_threads p" j tj, OF that] by force
    then have "own_fds base ((p_threads p)(?n := Some ?th))"
      using own fds(2) new by (intro own_fds_update) (auto simp: th)
    moreover have "ran ((p_threads p)(?n := Some ?th)) = insert ?th (ran (p_threads p))"
      using none by (rule ran_map_upd)
    ultimately show ?thesis
      using fds new unfolding eq descriptors_ok_def by (simp add: fd(2) th)
  qed
qed

text \<open>The end of a session closes its descriptor and no other.\<close>

lemma ran_remove:
  assumes "m i = Some x" and "\<And>j. m j = Some x \<Longrightarrow> j = i"
  shows "ran (m(i := None)) = ran m - {x}"
proof (intro equalityI subsetI)
  fix y assume "y \<in> ran (m(i := None))"
  then obtain j where j: "j \<noteq> i" "m j = Some y"
    by (auto simp: ran_def split: if_splits)
  then show "y \<in> ran m - {x}"
    using assms(2) [of j] ranI [of m j y] by auto
next
  fix y assume "y \<in> ran m - {x}"
  then obtain j where j: "m j = Some y" "y \<noteq> x" by (auto simp: ran_def)
  then have "(m(i := None)) j = Some y" using assms(1) by auto
  then show "y \<in> ran (m(i := None))" by (rule ranI)
qed

lemma image_ran_update:
  assumes "m i = Some x" and "f y = f x"
  shows "f ` ran (m(i := Some y)) = f ` ran m"
proof (intro equalityI subsetI)
  fix z assume "z \<in> f ` ran (m(i := Some y))"
  then obtain j v where "(m(i := Some y)) j = Some v" "z = f v" by (auto simp: ran_def)
  then show "z \<in> f ` ran m"
    using assms ranI [of m] by (cases "j = i") auto
next
  fix z assume "z \<in> f ` ran m"
  then obtain j v where j: "m j = Some v" "z = f v" by (auto simp: ran_def)
  then have "(m(i := Some y)) j = Some (if j = i then y else v)" by simp
  then have "(if j = i then y else v) \<in> ran (m(i := Some y))" by (rule ranI)
  moreover have "z = f (if j = i then y else v)" using assms j by auto
  ultimately show "z \<in> f ` ran (m(i := Some y))" by (rule image_eqI [rotated])
qed

lemma image_remove:
  "x \<in> A \<Longrightarrow> (\<And>y. y \<in> A \<Longrightarrow> y \<noteq> x \<Longrightarrow> f y \<noteq> f x) \<Longrightarrow> f ` (A - {x}) = f ` A - {f x}"
  by (auto simp: image_iff)

lemma descriptors_end:
  assumes p: "descriptors_ok base p" and th: "p_threads p i = Some th"
  shows "descriptors_ok base (p\<lparr>p_server := srv, p_threads := (p_threads p)(i := None),
    p_os := client_destroy (th_fd th) (p_os p)\<rparr>)"
proof -
  let ?fd = "\<lambda>th. nat (th_fd th)"
  have fds: "distinct (os_fds (p_os p))" "set (os_fds (p_os p)) = set base \<union> ?fd ` ran (p_threads p)"
    and own: "own_fds base (p_threads p)"
    using p unfolding descriptors_ok_def by blast+
  note th' = own_fdsD [OF own th]
  have other: "?fd tj \<noteq> ?fd th" if "p_threads p j = Some tj" "j \<noteq> i" for j tj
    using th'(1) th'(3) [OF that] own_fdsD(1) [OF own that(1)] by simp
  have ran1: "ran ((p_threads p)(i := None)) = ran (p_threads p) - {th}"
    by (rule ran_remove) (use th other in blast)+
  have "?fd tj \<noteq> ?fd th" if tj: "tj \<in> ran (p_threads p)" "tj \<noteq> th" for tj
  proof -
    obtain j where j: "p_threads p j = Some tj" using tj(1) by (auto simp: ran_def)
    moreover have "j \<noteq> i" using j th tj(2) by auto
    ultimately show ?thesis by (rule other)
  qed
  with ranI [of "p_threads p" i th, OF th]
  have ran: "?fd ` ran ((p_threads p)(i := None)) = ?fd ` ran (p_threads p) - {?fd th}"
    unfolding ran1 by (rule image_remove)
  have "set (os_fds (client_destroy (th_fd th) (p_os p))) = set base \<union> ?fd ` ran ((p_threads p)(i := None))"
    unfolding ran client_destroy_fds [OF th'(1)] set_removeAll fds(2) using th'(2) by blast
  then show ?thesis
    using fds(1) own_fds_remove [OF own] unfolding descriptors_ok_def
    by (simp add: client_destroy_fds [OF th'(1)] distinct_removeAll)
qed

lemma descriptors_thread_step:
  assumes p: "descriptors_ok base p" and s: "sessions_ok p"
  shows "descriptors_ok base (thread_step i b p)"
proof (cases "p_threads p i")
  case None
  with p show ?thesis by (simp add: thread_step_def)
next
  case th: (Some th)
  obtain q s' where step: "session_step b th (p_server p) = (q, s')" by (metis prod.exhaust)
  have inv: "server_inv (p_server p)" and tho: "thread_ok i th (p_server p)"
    using sessions_okD(1,2) [OF s] th by (auto simp: wf_server_def)
  show ?thesis
  proof (cases q)
    case (Goes_on th')
    have "th_fd th' = th_fd th"
      using session_step_effect(1) [OF tho inv step] Goes_on by (simp add: outcome_ok_def)
    moreover have "(\<lambda>th. nat (th_fd th)) ` ran ((p_threads p)(i := Some th')) =
        (\<lambda>th. nat (th_fd th)) ` ran (p_threads p)"
      using th \<open>th_fd th' = th_fd th\<close> by (intro image_ran_update) simp_all
    moreover have "own_fds base ((p_threads p)(i := Some th'))"
    proof -
      have own: "own_fds base (p_threads p)" using p by (simp add: descriptors_ok_def)
      show ?thesis
        using own_fdsD [OF own th] unfolding \<open>th_fd th' = th_fd th\<close> [symmetric]
        by (intro own_fds_update [OF own])
    qed
    ultimately show ?thesis
      using p th step Goes_on by (simp add: descriptors_ok_def thread_step_def)
  next
    case Ends
    with th step descriptors_end [OF p th] show ?thesis by (simp add: thread_step_def)
  next
    case (Undefined e)
    show ?thesis
      using p by (rule descriptors_cong) (simp_all add: thread_step_def th step Undefined)
  qed
qed

text \<open>The invariant of the process, and its steps as an instance of \<open>step_related\<close>.\<close>

definition program_ok :: "nat list \<Rightarrow> program \<Rightarrow> bool" where
  "program_ok base p \<longleftrightarrow> sessions_ok p \<and> descriptors_ok base p \<and>
     (p_undefined p \<longrightarrow> m_next_order_id (p_server p) = int_max)"

lemma program_ok_step:
  assumes "program_ok base p"
  shows "program_ok base (program_step ev p) \<and>
    session_ops_only (p_server p) (p_server (program_step ev p))"
proof (cases "p_undefined p")
  case True
  with assms show ?thesis by (simp add: program_step.simps session_ops_only_refl)
next
  case False
  have p: "sessions_ok p" "descriptors_ok base p" using assms by (simp_all add: program_ok_def)
  show ?thesis
  proof (cases ev)
    case (Accepting a)
    with False sessions_ok_accept [OF p(1), of a] descriptors_accept [OF p(2,1), of a] show ?thesis
      by (simp add: program_step.simps program_ok_def session_ops_only_refl)
  next
    case (Running i b)
    with False sessions_ok_thread_step [OF p(1), of i b] descriptors_thread_step [OF p(2,1), of i b]
    show ?thesis by (simp add: program_step.simps program_ok_def)
  qed
qed

interpretation prog: step_related program_step "\<lambda>_. True" "program_ok base"
  "\<lambda>p p'. session_ops_only (p_server p) (p_server p')" for base
  by unfold_locales
    (auto simp: program_ok_step session_ops_only_refl intro: session_ops_only_trans)

lemma program_run_ok:
  assumes "program_ok base p"
  shows "program_ok base (program_run evs p)"
    and "session_ops_only (p_server p) (p_server (program_run evs p))"
  using prog.inv_run [OF assms] prog.rel_run [OF assms] unfolding program_run_def by simp_all

lemma idle_init: "idle_queue i server_init"
  using server_inv_init by (simp add: idle_queue_def server_init_def queue_of_def mq_init_def)

lemma program_init_ok:
  assumes "distinct (os_fds os)"
  shows "program_ok (os_fds os) (program_init os)"
  using assms wf_server_init idle_init server_inv_init
  by (simp add: program_ok_def sessions_ok_def descriptors_ok_def own_fds_def program_init_def server_init_def)

text \<open>When the server's main program runs, it has opened its listening socket.\<close>

lemma server_main_runs:
  assumes "server_main argv evs os = Runs p"
  obtains fd os1 where "fd \<notin> set (os_fds os)" and "os_fds os1 = fd # os_fds os"
    and "p = program_run evs (program_init os1)"
proof -
  let ?os = "ignore_sigpipe os"
  obtain a port where argv: "argv = [a, port]" and sl: "server_loop port evs ?os = Inr p"
    using assms by (auto simp: server_main_def Let_def split: list.splits sum.splits if_splits)
  obtain r os1 where o: "open_listenfd port ?os = (r, os1)" by (metis prod.exhaust)
  with sl have r: "\<not> r < 0" "p = program_run evs (program_init os1)"
    by (auto simp: server_loop_def split: if_splits)
  with open_listenfd_opens [OF o] show ?thesis
    by (intro that [of "nat r" os1]) (simp_all add: opens_fd_def ignore_sigpipe_def)
qed

lemma server_main_ok:
  assumes "server_main argv evs os = Runs p" and "distinct (os_fds os)"
  obtains fd where "fd \<notin> set (os_fds os)" and "program_ok (fd # os_fds os) p"
    and "session_ops_only server_init (p_server p)"
proof -
  obtain fd os1 where o: "fd \<notin> set (os_fds os)" "os_fds os1 = fd # os_fds os"
    "p = program_run evs (program_init os1)"
    using server_main_runs [OF assms(1)] by blast
  have "program_ok (fd # os_fds os) (program_init os1)"
    using program_init_ok [of os1] o assms(2) by simp
  from program_run_ok [OF this, of evs] o that show ?thesis
    by (simp add: program_init_def)
qed

end
