(* ===== verification/Server_Program_Correct.thy ===== *)
theory Server_Program_Correct
  imports Server_Program
begin

text \<open>
  The theorems about the running server program: it follows from the invariants of
  \<open>Server_Program\<close> what holds after any list of events, that is, for any number of connections,
  any interleaving of their sessions and any answers of the operating system.
\<close>

text \<open>
  C3: the running server keeps its pointers and descriptors in order. After any events, every
  registered display client is a live \<open>Client\<close> object whose session is in its display loop, so
  a broadcast writes to no deleted object; every live object has a descriptor of its own that
  is open; and the open descriptors are exactly those the process started with, the listening
  socket, and those of the live objects: the descriptor of every session that has ended, and
  of every connection that was given up, is closed, and nothing is closed twice.
\<close>

theorem server_process_safe:
  assumes "server_main argv evs os = Runs p" and "distinct (os_fds os)"
  shows "(\<forall>i\<in>set (m_display_clients (p_server p)). \<exists>th.
      p_threads p i = Some th \<and> c_id (th_client th) = i \<and> th_phase th \<in> {Displaying, Leaving}) \<and>
    (\<exists>fd. fd \<notin> set (os_fds os) \<and> own_fds (fd # os_fds os) (p_threads p) \<and>
       distinct (os_fds (p_os p)) \<and>
       set (os_fds (p_os p)) = set (fd # os_fds os) \<union> (\<lambda>th. nat (th_fd th)) ` ran (p_threads p))"
proof -
  obtain fd where fd: "fd \<notin> set (os_fds os)" and ok: "program_ok (fd # os_fds os) p"
    using server_main_ok [OF assms] by blast
  have s: "sessions_ok p" and d: "descriptors_ok (fd # os_fds os) p"
    using ok by (simp_all add: program_ok_def)
  have "\<exists>th. p_threads p i = Some th \<and> c_id (th_client th) = i \<and> th_phase th \<in> {Displaying, Leaving}"
    if reg: "i \<in> set (m_display_clients (p_server p))" for i
  proof -
    obtain th where th: "p_threads p i = Some th" using sessions_okD(3) [OF s reg] by blast
    with sessions_okD(2) [OF s this] reg show ?thesis by (auto simp: thread_ok_def on_display_def)
  qed
  with fd d show ?thesis unfolding descriptors_ok_def by blast
qed

text \<open>
  C12: the running server is its server object under a sequence of operations. After any events
  the server's state is the one a sequence of operations of sessions gives from the initial
  state, so the theorems on such sequences (statuses, ids, delivery) hold of the program; and
  undefined behaviour is reached only when the order ids are used up.
\<close>

theorem server_process_operations:
  assumes "server_main argv evs os = Runs p" and "distinct (os_fds os)"
  shows "(\<exists>ops. p_server p = server_run ops server_init \<and> (\<forall>op\<in>set ops. \<exists>i. session_op i op)) \<and>
    (p_undefined p \<longrightarrow> m_next_order_id (p_server p) = int_max)"
proof -
  obtain fd where "program_ok (fd # os_fds os) p" "session_ops_only server_init (p_server p)"
    using server_main_ok [OF assms] by blast
  then show ?thesis by (simp add: program_ok_def session_ops_only_def)
qed

text \<open>What the display program shows when it reads what a session has delivered.\<close>

lemma delivered_shown:
  assumes "sessions_ok p" and "p_threads p i = Some th" and "th_phase th = Displaying"
    and "fd_in d = drop (th_base th) (fd_out (m_fd (th_client th)))" and "rd_ok d"
    and "shows_orders con []"
  shows "case display_main_loop d [] con of (e, d', shown, con') \<Rightarrow>
     is_IOException e \<and>
     display_apply (queue_of (p_server p) i) shown = Inr (m_orders (p_server p)) \<and>
     (queue_of (p_server p) i = [] \<longrightarrow> shown = m_orders (p_server p)) \<and>
     shows_orders con' shown"
proof -
  have "show_ok i th (p_server p)"
    using sessions_okD(2) assms(1,2) by blast
  then obtain u t where "fd_out (m_fd (th_client th)) = u @ t" "length u = th_base th"
    "delivered i [] t (p_server p)"
    using assms(3) unfolding show_ok_def by blast
  then have "delivered i [] (fd_in d) (p_server p)" using assms(4) by simp
  then obtain ms shown where ms: "frames_of ms (fd_in d)" "\<forall>m\<in>set ms. wf_message m"
    "display_apply ms [] = Inr shown" "mirrors i shown (p_server p)"
    unfolding delivered_def by blast
  from display_main_loop_messages [OF assms(5) ms(1-3) assms(6)] ms(4) show ?thesis
    by (auto simp: mirrors_def)
qed

text \<open>
  C1: every display shows the server's orders. In any state of the running server, take a
  session in its display loop and run the display program on the bytes the session has
  written since its login, read in any pieces: it accepts every message and waits for more; its
  map, brought up to date with the messages still queued for it, is the server's map of
  orders, and is that map when none is queued; and its screen shows its map.
\<close>

theorem all_displays_mirror:
  assumes "server_main argv evs os = Runs p" and "distinct (os_fds os)"
    and "p_threads p i = Some th" and "th_phase th = Displaying"
    and "fd_in d = drop (th_base th) (fd_out (m_fd (th_client th)))" and "rd_ok d"
    and "shows_orders con []"
  shows "case display_main_loop d [] con of (e, d', shown, con') \<Rightarrow>
     is_IOException e \<and>
     display_apply (queue_of (p_server p) i) shown = Inr (m_orders (p_server p)) \<and>
     (queue_of (p_server p) i = [] \<longrightarrow> shown = m_orders (p_server p)) \<and>
     shows_orders con' shown"
proof -
  obtain fd where "program_ok (fd # os_fds os) p"
    using server_main_ok [OF assms(1,2)] by blast
  then have "sessions_ok p" by (simp add: program_ok_def)
  then show ?thesis by (rule delivered_shown) (fact assms)+
qed

text \<open>
  C37: when the program runs, and how it ends otherwise. With a wrong number of arguments it prints
  its usage and exits with 1. Otherwise it opens the listening socket: if that fails, for
  whatever reason, it accepts no connection, prints the error and exits with 0 all the same;
  and if not, it runs, and in every later state still has the listening socket, which is no session's
  descriptor. An exit leaves the descriptors as they were, and no exception escapes.
\<close>

theorem server_main_exits:
  assumes "distinct (os_fds os)"
  shows "if length argv \<noteq> 2 then
      \<exists>os'. server_main argv evs os = Exits 1 os' \<and> os_fds os' = os_fds os \<and>
        os_err os' = os_err os @ ''Usage: '' @ (if argv = [] then [] else hd argv) @ '' <port>'' @ newline
    else
      (case open_listenfd (argv ! 1) (ignore_sigpipe os) of (server_fd, os1) \<Rightarrow>
         if server_fd < 0 then
           \<exists>os'. server_main argv evs os = Exits 0 os' \<and> os_fds os' = os_fds os \<and>
             os_err os' = os_err os1 @ ''Error: open_listenfd failed: '' @
               os_strerror os1 (os_errno os1) @ newline
         else
           \<exists>p. server_main argv evs os = Runs p \<and> nat server_fd \<in> set (os_fds (p_os p)) \<and>
             nat server_fd \<notin> (\<lambda>th. nat (th_fd th)) ` ran (p_threads p))"
proof (cases "\<exists>a port. argv = [a, port]")
  case True
  then obtain a port where argv: "argv = [a, port]" by blast
  obtain r os1 where o: "open_listenfd port (ignore_sigpipe os) = (r, os1)" by (metis prod.exhaust)
  note O = open_listenfd_opens [OF o]
  show ?thesis
  proof (cases "r < 0")
    case True
    then have "os_fds os1 = os_fds os" using O by (simp add: opens_fd_def ignore_sigpipe_def)
    with True o show ?thesis by (simp add: server_main_def Let_def argv server_loop_def put_stderr_def)
  next
    case False
    let ?p = "program_run evs (program_init os1)"
    have fds: "os_fds os1 = nat r # os_fds os" "nat r \<notin> set (os_fds os)"
      using O False by (simp_all add: opens_fd_def ignore_sigpipe_def)
    have runs: "server_main argv evs os = Runs ?p"
      using False o by (simp add: server_main_def Let_def argv server_loop_def)
    have "program_ok (os_fds os1) (program_init os1)"
      using fds assms by (intro program_init_ok) simp
    from program_run_ok(1) [OF this] have "descriptors_ok (nat r # os_fds os) ?p"
      by (simp add: program_ok_def fds)
    then have "own_fds (nat r # os_fds os) (p_threads ?p)" "nat r \<in> set (os_fds (p_os ?p))"
      by (auto simp: descriptors_ok_def)
    moreover from this have "nat r \<notin> (\<lambda>th. nat (th_fd th)) ` ran (p_threads ?p)"
      by (auto simp: ran_def dest: own_fdsD(2))
    ultimately show ?thesis using runs False o by (simp add: argv)
  qed
next
  case False
  then have "length argv \<noteq> 2" by (auto simp: length_Suc_conv numeral_2_eq_2)
  moreover have "server_main argv evs os = Exits 1 (put_stderr
      (''Usage: '' @ (case argv of [] \<Rightarrow> [] | a # _ \<Rightarrow> a) @ '' <port>'' @ newline) (ignore_sigpipe os))"
    using False by (auto simp: server_main_def Let_def split: list.split)
  ultimately show ?thesis
    by (cases argv) (simp_all add: ignore_sigpipe_def put_stderr_def)
qed

text \<open>The message then names whatever \<open>errno\<close> was before, when the port could not be resolved.\<close>

lemma listen_error_stale_errno:
  assumes "os_gai os = Inl rc"
  shows "\<exists>os'. server_loop port evs os =
    Inl (IOException (''open_listenfd failed: '' @ os_strerror os (os_errno os)), os')"
  using assms
  by (simp add: server_loop_def open_listenfd_def sys_getaddrinfo_def put_stderr_def)

subsection \<open>A run\<close>

text \<open>
  A display and an updater log in, a third connection gets no thread, the updater creates an
  order, the display is told, and the updater quits.
\<close>

definition framed :: "message \<Rightarrow> string" where
  "framed m = (case encode m of Inr t \<Rightarrow> fd_out (snd (io_send t (plain_fd []))) | Inl _ \<Rightarrow> [])"

definition test_os :: os where
  "test_os = \<lparr>os_fds = [2, 1, 0], os_lists = 0, os_gai = Inr [''0.0.0.0''], os_calls = [], os_errno = 0,
     os_err = [], os_strerror = (\<lambda>_. ''error''), os_gai_strerror = (\<lambda>_. ''error''),
     os_sigpipe_ignored = False\<rparr>"

definition test_events :: "event list" where
  "test_events =
     [Accepting (Accepts (plain_fd (framed (message_login MT_LOGIN CM_DISPLAY ''alice/foobar''))) Created),
      Running 0 False,
      Accepting (Accepts (plain_fd (framed (message_login MT_LOGIN CM_UPDATER ''alice/foobar'') @
        framed (message_order MT_ORDER_NEW (Some two_item_order)) @ framed (message_str MT_QUIT ''quit''))) Created),
      Accepting (Accept_fails 24), Accepting (Accepts (plain_fd []) (Thread_fails 11)),
      Running 1 False, Running 1 False, Running 0 False, Running 1 False]"

lemma test_run:
  "case server_main [''server'', ''5000''] test_events test_os of
     Runs p \<Rightarrow> m_display_clients (p_server p) = [0] \<and> os_fds (p_os p) = [4, 3, 2, 1, 0] \<and>
       map fst (m_orders (p_server p)) = [1000] \<and> queue_of (p_server p) 0 = [] \<and>
       (case p_threads p 0 of Some th \<Rightarrow> th_phase th = Displaying | None \<Rightarrow> False)
   | _ \<Rightarrow> False"
  by code_simp

lemma test_runs:
  obtains p th where "server_main [''server'', ''5000''] test_events test_os = Runs p"
    and "m_display_clients (p_server p) = [0]" and "os_fds (p_os p) = [4, 3, 2, 1, 0]"
    and "map fst (m_orders (p_server p)) = [1000]" and "queue_of (p_server p) 0 = []"
    and "p_threads p 0 = Some th" and "th_phase th = Displaying"
  using test_run by (auto split: server_result.splits option.splits)

lemma test_os_distinct: "distinct (os_fds test_os)"
  by (simp add: test_os_def)

text \<open>The port is in use: \<open>bind\<close> fails.\<close>

lemma server_main_exits_witness:
  "\<exists>os'. server_main [''server'', ''5000''] test_events
      (test_os\<lparr>os_calls := [Call_Ok, Call_Ok, Call_Fails 98]\<rparr>) = Exits 0 os' \<and>
    os_fds os' = [2, 1, 0] \<and> os_err os' = ''Error: open_listenfd failed: error'' @ newline"
proof -
  let ?os = "test_os\<lparr>os_calls := [Call_Ok, Call_Ok, Call_Fails 98]\<rparr>"
  have "case open_listenfd ''5000'' (ignore_sigpipe ?os) of (r, os1) \<Rightarrow>
      r = -1 \<and> os_err os1 = [] \<and> os_strerror os1 (os_errno os1) = ''error''"
    by code_simp
  then obtain os1 where "open_listenfd ''5000'' (ignore_sigpipe ?os) = (-1, os1)" "os_err os1 = []"
    "os_strerror os1 (os_errno os1) = ''error''"
    by (auto split: prod.splits)
  then show ?thesis
    using server_main_exits [of ?os "[''server'', ''5000'']" test_events] by (simp add: test_os_def)
qed

lemma server_process_safe_witness:
  "\<exists>p th. server_main [''server'', ''5000''] test_events test_os = Runs p \<and>
     m_display_clients (p_server p) = [0] \<and> p_threads p 0 = Some th \<and> c_id (th_client th) = 0"
proof -
  obtain p where p: "server_main [''server'', ''5000''] test_events test_os = Runs p"
    "m_display_clients (p_server p) = [0]" by (rule test_runs)
  from server_process_safe [OF p(1) test_os_distinct] p show ?thesis by auto
qed

lemma server_process_operations_witness:
  "\<exists>p ops. server_main [''server'', ''5000''] test_events test_os = Runs p \<and>
     map fst (m_orders (p_server p)) = [1000] \<and> p_server p = server_run ops server_init"
proof -
  obtain p where p: "server_main [''server'', ''5000''] test_events test_os = Runs p"
    "map fst (m_orders (p_server p)) = [1000]" by (rule test_runs)
  from server_process_operations [OF p(1) test_os_distinct] obtain ops
    where "p_server p = server_run ops server_init" by auto
  with p show ?thesis by (intro exI [of _ p] exI [of _ ops]) simp
qed

lemma all_displays_mirror_witness:
  "\<exists>p th. server_main [''server'', ''5000''] test_events test_os = Runs p \<and>
     map fst (m_orders (p_server p)) = [1000] \<and> p_threads p 0 = Some th \<and>
     (case display_main_loop (plain_fd (drop (th_base th) (fd_out (m_fd (th_client th))))) []
        \<lparr>con_in = [], con_out = clear_screen, con_err = []\<rparr> of
        (_, _, shown, con') \<Rightarrow> shown = m_orders (p_server p) \<and> shows_orders con' shown)"
proof -
  obtain p th where p: "server_main [''server'', ''5000''] test_events test_os = Runs p"
    "map fst (m_orders (p_server p)) = [1000]" "queue_of (p_server p) 0 = []"
    "p_threads p 0 = Some th" "th_phase th = Displaying" by (rule test_runs)
  let ?con = "\<lparr>con_in = [], con_out = clear_screen, con_err = []\<rparr>"
  have "shows_orders ?con []" by (simp add: shows_orders_def render_def)
  from all_displays_mirror [OF p(1) test_os_distinct p(4,5), of "plain_fd (drop (th_base th)
      (fd_out (m_fd (th_client th))))", OF _ _ this] p
  show ?thesis by (intro exI [of _ p] exI [of _ th]) (auto split: prod.splits)
qed

end
