(* ===== verification/Server_Program_Live.thy ===== *)
theory Server_Program_Live
  imports Server_Program_Correct
begin

text \<open>
  What happens in the running server in the end. A session whose connection has failed, or whose peer
  has stopped sending, ends within a number of its own steps that is known in advance, whatever the other sessions and the
  accepting loop do between them; so a session cannot keep its thread, its descriptor or its
  place among the display clients for ever. And a display session on a working connection
  delivers all that is queued for it.
\<close>

subsection \<open>Failing writes\<close>

text \<open>A write that fails for another reason than a signal: the robust write gives up on it.\<close>

definition hard :: "wr_event \<Rightarrow> bool" where
  "hard ev = (case ev of Wr_Fail e \<Rightarrow> e \<noteq> E_INTR | Wr_Some _ \<Rightarrow> False)"

definition hard_failures :: "fd \<Rightarrow> nat" where
  "hard_failures d = length (filter hard (fd_wr d))"

text \<open>What writing leaves of the outcomes to come; \<open>ok\<close> is whether it succeeded.\<close>

definition wrote :: "bool \<Rightarrow> fd \<Rightarrow> fd \<Rightarrow> bool" where
  "wrote ok d d' \<longleftrightarrow>
     length (fd_wr d') \<le> length (fd_wr d) \<and>
     hard_failures d \<le> hard_failures d' + (if ok then 0 else 1)"

lemma wrote_refl [simp]: "wrote ok d d"
  by (simp add: wrote_def)

lemma wrote_trans: "wrote True a b \<Longrightarrow> wrote ok b c \<Longrightarrow> wrote ok a c"
  by (simp add: wrote_def)

lemma sys_write_outcomes:
  assumes "sys_write d bs = (r, d')" and "bs \<noteq> []"
  shows "length (fd_wr d') \<le> length (fd_wr d)" and "fd_wr d \<noteq> [] \<Longrightarrow> length (fd_wr d') < length (fd_wr d)"
    and "hard_failures d \<le> hard_failures d' + (if r < 0 \<and> fd_errno d' \<noteq> E_INTR then 1 else 0)"
  using assms by (cases "fd_wr d"; cases "hd (fd_wr d)";
      auto simp: sys_write.simps hard_failures_def hard_def)+

lemma rio_writen_loop_outcomes:
  assumes "rio_writen_loop n buf d = (r, d')"
  shows "wrote (r = int n) d d' \<and> (buf \<noteq> [] \<longrightarrow> fd_wr d \<noteq> [] \<longrightarrow> length (fd_wr d') < length (fd_wr d))"
  using assms
proof (induction n buf d arbitrary: r d' rule: rio_writen_loop.induct)
  case (1 n buf d)
  show ?case
  proof (cases "buf = []")
    case True
    with "1.prems" show ?thesis by (simp add: rio_writen_loop.simps [of n "[]"])
  next
    case False
    obtain nw d1 where sw: "sys_write d buf = (nw, d1)" by (metis prod.exhaust)
    have eq: "(if nw \<le> 0 then
             (if fd_errno d1 = E_INTR then rio_writen_loop n buf d1 else (-1, d1))
           else rio_writen_loop n (drop (nat nw) buf) d1) = (r, d')"
      using "1.prems" False sw by (subst (asm) rio_writen_loop.simps) simp
    note W = sys_write_outcomes [OF sw False]
    consider (more) buf1 where "rio_writen_loop n buf1 d1 = (r, d')"
        "wrote (r = int n) d1 d'" "hard_failures d \<le> hard_failures d1"
      | (stop) "r = -1" "d' = d1"
    proof (cases "nw \<le> 0")
      case True
      show ?thesis
      proof (cases "fd_errno d1 = E_INTR")
        case intr: True
        have "rio_writen_loop n buf d1 = (r, d')" using eq True intr by simp
        with "1.IH"(1) [OF False sw [symmetric] True intr this] W(3) intr more show ?thesis by simp
      next
        case False
        with eq True stop show ?thesis by simp
      qed
    next
      case le: False
      then have "rio_writen_loop n (drop (nat nw) buf) d1 = (r, d')" using eq by simp
      with "1.IH"(2) [OF False sw [symmetric] le this] W(3) le more show ?thesis by simp
    qed
    then show ?thesis
    proof cases
      case more
      then have "wrote (r = int n) d d'"
        using W(1) by (simp add: wrote_def)
      moreover have "length (fd_wr d') < length (fd_wr d)" if "fd_wr d \<noteq> []"
        using more(2) W(2) [OF that] by (simp add: wrote_def)
      ultimately show ?thesis by blast
    next
      case stop
      with W show ?thesis by (auto simp: wrote_def split: if_splits)
    qed
  qed
qed

lemma io_send_outcomes:
  assumes "io_send s d = (r, d')"
  shows "wrote (r = Inr ()) d d' \<and> (r = Inr () \<longrightarrow> fd_wr d \<noteq> [] \<longrightarrow> length (fd_wr d') < length (fd_wr d))"
proof (cases "make_length_prefix (length s + 1)")
  case (Inl e)
  with assms show ?thesis by (auto simp: io_send_def)
next
  case (Inr p)
  obtain n d1 where w: "rio_writen d (p @ s @ [CHR 0x0A]) = (n, d1)" by (metis prod.exhaust)
  then have "rio_writen_loop (length (p @ s @ [CHR 0x0A])) (p @ s @ [CHR 0x0A]) d = (n, d1)"
    by (simp add: rio_writen_def)
  from rio_writen_loop_outcomes [OF this] assms Inr w show ?thesis
    by (auto simp: io_send_def Let_def split: if_splits)
qed

text \<open>A message sent by a session.\<close>

lemma client_send_outcomes:
  assumes "client_send_message m this = (Inr sent, this')"
  shows "wrote sent (m_fd this) (m_fd this') \<and> fd_in (m_fd this') = fd_in (m_fd this) \<and>
    (sent \<longrightarrow> fd_wr (m_fd this) \<noteq> [] \<longrightarrow> length (fd_wr (m_fd this')) < length (fd_wr (m_fd this)))"
proof (cases "encode m")
  case (Inl e)
  with assms show ?thesis by (auto simp: client_send_message_def split: if_splits)
next
  case (Inr t)
  obtain q d where s: "io_send t (m_fd this) = (q, d)" by (metis prod.exhaust)
  from io_send_outcomes [OF s] io_send_cases [OF s] assms Inr s show ?thesis
    by (auto simp: client_send_message_def split: sum.splits if_splits)
qed

subsection \<open>A bound on the steps of a session\<close>

text \<open>
  A session that will end: an updater always, since its peer sends finitely much; a display when
  one more write fails, and one that has not logged in when two do, because the result of
  sending the response to the login is ignored.
\<close>

definition doomed :: "thread \<Rightarrow> bool" where
  "doomed th \<longleftrightarrow>
     (case th_phase th of
        Login \<Rightarrow> hard_failures (m_fd (th_client th)) > 1
      | Updating \<Rightarrow> True
      | Displaying \<Rightarrow> hard_failures (m_fd (th_client th)) > 0
      | Leaving \<Rightarrow> True)"

definition steps_left :: "thread \<Rightarrow> nat" where
  "steps_left th =
     (let d = m_fd (th_client th) in
      case th_phase th of
        Login \<Rightarrow> length (fd_in d) + length (fd_wr d) + 3
      | Updating \<Rightarrow> length (fd_in d) + 1
      | Displaying \<Rightarrow> length (fd_wr d) + 2
      | Leaving \<Rightarrow> 1)"

lemma steps_left_pos: "0 < steps_left th"
  by (simp add: steps_left_def Let_def split: phase.split)

lemma hard_failures_nonempty: "0 < hard_failures d \<Longrightarrow> fd_wr d \<noteq> []"
  by (auto simp: hard_failures_def)

lemma login_step_outcomes:
  assumes "login_step th s = (Goes_on th', s')" and "m_running (th_client th)"
  shows "length (fd_in (m_fd (th_client th'))) \<le> length (fd_in (m_fd (th_client th))) \<and>
    wrote False (m_fd (th_client th)) (m_fd (th_client th')) \<and> th_phase th' \<in> {Updating, Displaying}"
proof -
  let ?c = "th_client th"
  obtain c' where ch: "chat [] ?c s = (None, c', s')" and th': "th_client th' = c'"
      "th_phase th' \<in> {Updating, Displaying}"
    using assms(1) by (auto simp: login_step_def split: prod.splits option.splits sum.splits)
  then have "chat_body [] ?c s = (None, c', s')"
    by (auto simp: chat_def split: prod.splits option.splits sum.splits if_splits)
  then obtain raw d m where r: "io_receive (m_fd ?c) = (Inr raw, d)" "decode raw = Inr m"
      "chat_mode [] (m_client_mode m) (?c\<lparr>m_fd := d\<rparr>) s = (None, c', s')"
    by (auto simp: chat_body_def Let_def split: prod.splits sum.splits if_splits)
  then obtain sent c1 where c: "client_send_message (message_str MT_OK ''Login successful'') (?c\<lparr>m_fd := d\<rparr>) = (Inr sent, c1)"
      and fd: "m_fd c' = m_fd c1"
  proof -
    obtain x c1 where c: "client_send_message (message_str MT_OK ''Login successful'') (?c\<lparr>m_fd := d\<rparr>) = (x, c1)"
      by (metis prod.exhaust)
    from client_send_cases [OF c] obtain sent e where x: "x = Inr sent" "c1 = ?c\<lparr>m_fd := e\<rparr>" by auto
    have run: "m_running c1" using assms(2) x by simp
    have "m_fd c' = m_fd c1"
      using r(3) c x run
      by (auto simp: chat_mode_def Let_def display_loop_def split: prod.splits option.splits sum.splits if_splits)
    with c x that show ?thesis by simp
  qed
  from io_receive_cases [OF r(1)] have "length (fd_in d) \<le> length (fd_in (m_fd ?c))" "fd_wr d = fd_wr (m_fd ?c)"
    by auto
  with client_send_outcomes [OF c] fd th' show ?thesis
    by (auto simp: wrote_def hard_failures_def split: if_splits)
qed

lemma doomed_step:
  assumes step: "session_step b th s = (Goes_on th', s')" and d: "doomed th"
    and th: "thread_ok i th s" and inv: "server_inv s"
  shows "doomed th' \<and> steps_left th' < steps_left th"
proof -
  have run: "m_running (th_client th)" using th by (simp add: thread_ok_def)
  show ?thesis
  proof (cases "th_phase th")
    case Login
    then have "login_step th s = (Goes_on th', s')" using step by (simp add: session_step.simps)
    from login_step_outcomes [OF this run] d Login show ?thesis
      by (auto simp: doomed_def steps_left_def wrote_def Let_def)
  next
    case Updating
    obtain r c1 s1 where it: "updater_iteration (th_client th) s = (r, c1, s1)" by (metis prod_cases3)
    with step Updating have "r = Inr Next" "m_running c1" "th' = th\<lparr>th_client := c1\<rparr>"
      by (auto simp: session_step.simps updater_step_def split: sum.splits flow.splits if_splits)
    with updater_iteration_cases [OF it] Updating show ?thesis
      by (simp add: doomed_def steps_left_def Let_def)
  next
    case Displaying
    obtain r c1 s1 where it: "display_iteration b (th_client th) s = (r, c1, s1)" by (metis prod_cases3)
    have leaving: "doomed th' \<and> steps_left th' < steps_left th" if "th_phase th' = Leaving"
      using that Displaying by (simp add: doomed_def steps_left_def Let_def)
    show ?thesis
    proof (cases "th_phase th' = Leaving")
      case False
      then have r: "r = Inr Next" "th_phase th' = Displaying" "th_client th' = c1"
        using step Displaying it
        by (auto simp: session_step.simps display_step_def split: sum.splits flow.splits exn.splits if_splits)
      then obtain m where "client_send_message m (th_client th) = (Inr True, c1)"
        using it by (auto simp: display_iteration_def split: prod.splits sum.splits if_splits)
      from client_send_outcomes [OF this] hard_failures_nonempty d Displaying r show ?thesis
        by (auto simp: doomed_def steps_left_def wrote_def Let_def)
    qed (rule leaving)
  next
    case Leaving
    with step show ?thesis by (simp add: session_step.simps leave_step_def)
  qed
qed

subsection \<open>Sessions end\<close>

definition own_steps :: "client_id \<Rightarrow> event list \<Rightarrow> nat" where
  "own_steps i evs = length (filter (\<lambda>ev. case ev of Running j _ \<Rightarrow> j = i | Accepting _ \<Rightarrow> False) evs)"

lemma own_steps_simps [simp]:
  "own_steps i [] = 0"
  "own_steps i (Running j b # evs) = (if j = i then 1 else 0) + own_steps i evs"
  "own_steps i (Accepting a # evs) = own_steps i evs"
  by (simp_all add: own_steps_def)

text \<open>An event of another thread leaves this one alone; ids are not used again.\<close>

lemma other_event:
  assumes "i < p_next p" and "\<And>b. ev \<noteq> Running i b"
  shows "p_threads (program_step ev p) i = p_threads p i" and "i < p_next (program_step ev p)"
proof -
  have "p_threads (program_step ev p) i = p_threads p i \<and> i < p_next (program_step ev p)"
  proof (cases ev)
    case (Accepting a)
    then show ?thesis
      using assms(1)
      by (cases a; cases "snd (sys_accept (p_os p))")
        (auto simp: program_step.simps Let_def split: creation.splits prod.splits)
  next
    case (Running j b)
    with assms(2) have "j \<noteq> i" by blast
    with Running assms(1) show ?thesis
      by (auto simp: program_step.simps thread_step_def split: option.splits outcome.splits prod.splits)
  qed
  then show "p_threads (program_step ev p) i = p_threads p i" "i < p_next (program_step ev p)"
    by simp_all
qed

lemma program_run_Cons [simp]: "program_run (ev # evs) p = program_run evs (program_step ev p)"
  by (simp add: program_run_def)

lemma program_run_Nil [simp]: "program_run [] p = p"
  by (simp add: program_run_def)

lemma thread_step_next [simp]: "p_next (thread_step i b p) = p_next p"
  by (auto simp: thread_step_def split: option.splits outcome.splits prod.splits)

lemma ended_stays:
  "p_threads p i = None \<Longrightarrow> i < p_next p \<Longrightarrow> p_threads (program_run evs p) i = None"
proof (induction evs arbitrary: p)
  case (Cons ev evs)
  show ?case
  proof (cases "\<exists>b. ev = Running i b")
    case True
    then have "program_step ev p = p"
      using Cons.prems(1) by (auto simp: program_step.simps thread_step_def)
    with Cons show ?thesis by simp
  next
    case False
    then show ?thesis
      using Cons.IH [of "program_step ev p"] Cons.prems other_event [OF Cons.prems(2), of ev] by auto
  qed
qed simp

lemma program_ok_sessions: "program_ok base p \<Longrightarrow> sessions_ok p"
  by (simp add: program_ok_def)

lemma undefined_stays: "p_undefined p \<Longrightarrow> program_run evs p = p"
  by (induction evs) (simp_all add: program_step.simps)

lemma doomed_run:
  assumes "program_ok base p" and "p_threads p i = Some th" and "doomed th"
    and "steps_left th \<le> own_steps i evs" and "\<not> p_undefined (program_run evs p)"
  shows "p_threads (program_run evs p) i = None"
  using assms
proof (induction evs arbitrary: p th)
  case Nil
  with steps_left_pos [of th] show ?case by simp
next
  case (Cons ev evs)
  note P = sessions_okD(2) [OF program_ok_sessions [OF Cons.prems(1)] Cons.prems(2)]
  have inv: "server_inv (p_server p)"
    using sessions_okD(1) [OF program_ok_sessions [OF Cons.prems(1)]] by (simp add: wf_server_def)
  have def: "\<not> p_undefined p" "\<not> p_undefined (program_step ev p)"
    using Cons.prems(5) undefined_stays [of p "ev # evs"] undefined_stays [of "program_step ev p" evs] by auto
  have ok: "program_ok base (program_step ev p)"
    using program_ok_step [OF Cons.prems(1)] by simp
  show ?case
  proof (cases "\<exists>b. ev = Running i b")
    case True
    then obtain b where ev: "ev = Running i b" by blast
    then have step: "program_step ev p = thread_step i b p" using def(1) by (simp add: program_step.simps)
    obtain q s' where q: "session_step b th (p_server p) = (q, s')" by (metis prod.exhaust)
    show ?thesis
    proof (cases q)
      case (Goes_on th')
      then have "doomed th' \<and> steps_left th' < steps_left th"
        using doomed_step [OF _ Cons.prems(3)] q P inv by blast
      moreover have "p_threads (program_step ev p) i = Some th'"
        using step q Goes_on Cons.prems(2) by (simp add: thread_step_def)
      ultimately show ?thesis
        using Cons.IH [OF ok] Cons.prems(4,5) ev by auto
    next
      case Ends
      then have "p_threads (program_step ev p) i = None" "i < p_next (program_step ev p)"
        using step q Cons.prems(2) P by (simp_all add: thread_step_def)
      then show ?thesis using ended_stays by simp
    next
      case (Undefined e)
      with step q def(2) Cons.prems(2) show ?thesis by (simp add: thread_step_def)
    qed
  next
    case False
    then have "p_threads (program_step ev p) i = Some th" "own_steps i (ev # evs) = own_steps i evs"
      using other_event(1) [of i p ev] P Cons.prems(2) by (auto, cases ev, auto)
    with Cons.IH [OF ok] Cons.prems(3,4,5) show ?thesis by simp
  qed
qed

lemma server_main_continues:
  "server_main argv evs0 os = Runs p \<Longrightarrow> server_main argv (evs0 @ evs) os = Runs (program_run evs p)"
  by (auto simp: server_main_def server_loop_def program_run_def Let_def
      split: list.splits sum.splits prod.splits if_splits)

text \<open>
  C7: every session that cannot go on for ever ends. In any state of the running server take a
  session of an updater; or a session in its display loop one of whose coming writes will fail;
  or a session that has not logged in and two of whose coming writes will fail (the first failure may
  be that of the response to the login, whose result is ignored). Whatever happens then, in
  whatever order, once the session's thread has taken \<open>steps_left\<close> steps, a number known from what its
  connection still holds, the thread is gone and its client is deregistered; the only
  exception is that the order ids had been used up, which is undefined behaviour.
\<close>

theorem doomed_session_ends:
  assumes "server_main argv evs0 os = Runs p" and "distinct (os_fds os)"
    and "p_threads p i = Some th" and "doomed th" and "steps_left th \<le> own_steps i evs"
  shows "\<exists>p'. server_main argv (evs0 @ evs) os = Runs p' \<and>
    (p_undefined p' \<and> m_next_order_id (p_server p') = int_max \<or>
     p_threads p' i = None \<and> i \<notin> set (m_display_clients (p_server p')))"
proof (intro exI conjI)
  show "server_main argv (evs0 @ evs) os = Runs (program_run evs p)"
    using assms(1) by (rule server_main_continues)
  obtain fd where ok: "program_ok (fd # os_fds os) p"
    using server_main_ok [OF assms(1,2)] by blast
  have "p_threads (program_run evs p) i = None" if "\<not> p_undefined (program_run evs p)"
    using doomed_run [OF ok assms(3-5) that] .
  moreover have "sessions_ok (program_run evs p)"
    using program_run_ok(1) [OF ok] by (rule program_ok_sessions)
  moreover have "p_undefined (program_run evs p) \<longrightarrow> m_next_order_id (p_server (program_run evs p)) = int_max"
    using program_run_ok(1) [OF ok] by (simp add: program_ok_def)
  ultimately show "p_undefined (program_run evs p) \<and>
      m_next_order_id (p_server (program_run evs p)) = int_max \<or> p_threads (program_run evs p) i = None \<and>
      i \<notin> set (m_display_clients (p_server (program_run evs p)))"
    using sessions_okD(3) by blast
qed

text \<open>A display whose connection breaks after the response to its login; a heartbeat finds out.\<close>

definition broken_events :: "event list" where
  "broken_events =
     [Accepting (Accepts ((plain_fd (framed (message_login MT_LOGIN CM_DISPLAY ''alice/foobar'')))
        \<lparr>fd_wr := [Wr_Some 100, Wr_Fail E_IO]\<rparr>) Created),
      Running 0 False]"

definition later_events :: "event list" where
  "later_events = [Running 0 True, Accepting (Accepts (plain_fd []) Created), Running 1 False,
     Running 0 False, Running 0 False]"

lemma doomed_session_ends_witness:
  "\<exists>p p'. server_main [''server'', ''5000''] broken_events test_os = Runs p \<and>
     m_display_clients (p_server p) = [0] \<and>
     server_main [''server'', ''5000''] (broken_events @ later_events) test_os = Runs p' \<and>
     p_threads p' 0 = None \<and> m_display_clients (p_server p') = []"
proof -
  have "case server_main [''server'', ''5000''] broken_events test_os of
      Runs p \<Rightarrow> m_display_clients (p_server p) = [0] \<and>
        (case p_threads p 0 of Some th \<Rightarrow> doomed th \<and> steps_left th = 3 | None \<Rightarrow> False)
    | _ \<Rightarrow> False"
    by code_simp
  then obtain p th where p: "server_main [''server'', ''5000''] broken_events test_os = Runs p"
      "m_display_clients (p_server p) = [0]" "p_threads p 0 = Some th" "doomed th" "steps_left th = 3"
    by (auto split: server_result.splits option.splits)
  have n: "steps_left th \<le> own_steps 0 later_events"
    by (simp add: p(5) later_events_def)
  obtain p' where p': "server_main [''server'', ''5000''] (broken_events @ later_events) test_os = Runs p'"
      "p_undefined p' \<and> m_next_order_id (p_server p') = int_max \<or> p_threads p' 0 = None \<and> 0 \<notin> set (m_display_clients (p_server p'))"
    using doomed_session_ends [OF p(1) test_os_distinct p(3,4) n] by blast
  have "case server_main [''server'', ''5000''] (broken_events @ later_events) test_os of
      Runs p \<Rightarrow> \<not> p_undefined p \<and> m_display_clients (p_server p) = [] | _ \<Rightarrow> False"
    by code_simp
  with p p' show ?thesis by (intro exI [of _ p] exI [of _ p']) simp
qed

subsection \<open>Displays catch up\<close>

lemma heartbeat_fits: "frame_fits (message_plain MT_DISP_HEARTBEAT)"
  by code_simp

text \<open>One step of a display on a working connection delivers a message, or a heartbeat.\<close>

lemma display_step_delivers:
  assumes run: "m_running (th_client th)" and ph: "th_phase th = Displaying" and id: "c_id (th_client th) = i"
    and w: "wr_ok (m_fd (th_client th))" and q: "queues_ok s" and fr: "list_all frame_fits (queue_of s i)"
  obtains th' s' where "session_step False th s = (Goes_on th', s')" and "th_phase th' = Displaying"
    and "wr_ok (m_fd (th_client th'))" and "queue_of s' i = tl (queue_of s i)" and "m_orders s' = m_orders s"
proof -
  obtain r s1 where d: "client_dequeue False i s = (Inr r, s1)" "m_orders s1 = m_orders s"
    "case r of None \<Rightarrow> queue_of s i = [] \<and> queue_of s1 i = []
     | Some msg \<Rightarrow> queue_of s i = msg # queue_of s1 i"
    using client_dequeue_effect [OF q, of i] by metis
  let ?m = "case r of Some msg \<Rightarrow> msg | None \<Rightarrow> message_plain MT_DISP_HEARTBEAT"
  have "frame_fits ?m"
    using d(3) fr heartbeat_fits by (auto split: option.splits)
  then obtain t where "encode ?m = Inr t" "length t \<le> 9998"
    by (auto simp: frame_fits_def split: sum.splits)
  from client_send_ok [OF this w] obtain e u where
    c: "client_send_message ?m (th_client th) = (Inr True, (th_client th)\<lparr>m_fd := e\<rparr>)" "wr_ok e"
    by blast
  show ?thesis
  proof (rule that)
    show "session_step False th s =
        (Goes_on (th\<lparr>th_client := (th_client th)\<lparr>m_fd := e\<rparr>, th_phase := Displaying\<rparr>), s1)"
      using c d(1) ph id run by (simp add: session_step.simps display_step_def display_iteration_def)
  qed (use d c in \<open>simp_all split: option.splits\<close>)
qed

text \<open>Events in which no other session takes a step.\<close>

definition only_runs :: "client_id \<Rightarrow> event \<Rightarrow> bool" where
  "only_runs i ev = (case ev of Running j expired \<Rightarrow> j = i \<and> \<not> expired | Accepting _ \<Rightarrow> True)"

lemma accept_server [simp]:
  "p_server (server_loop_iteration a p) = p_server p" "p_undefined (server_loop_iteration a p) = p_undefined p"
  by (cases a; auto simp: Let_def split: creation.splits prod.splits)+

lemma caught_up_run:
  assumes "program_ok base p" and "\<not> p_undefined p" and "list_all (only_runs i) evs"
    and "p_threads p i = Some th" and "th_phase th = Displaying" and "wr_ok (m_fd (th_client th))"
    and "list_all frame_fits (queue_of (p_server p) i)"
  shows "\<not> p_undefined (program_run evs p) \<and>
    (\<exists>th'. p_threads (program_run evs p) i = Some th' \<and> th_phase th' = Displaying) \<and>
    queue_of (p_server (program_run evs p)) i = drop (own_steps i evs) (queue_of (p_server p) i) \<and>
    m_orders (p_server (program_run evs p)) = m_orders (p_server p)"
  using assms
proof (induction evs arbitrary: p th)
  case (Cons ev evs)
  note P = sessions_okD(2) [OF program_ok_sessions [OF Cons.prems(1)] Cons.prems(4)]
  have ok: "program_ok base (program_step ev p)"
    using program_ok_step [OF Cons.prems(1)] by simp
  show ?case
  proof (cases ev)
    case (Accepting a)
    then have "p_threads (program_step ev p) i = Some th"
      using other_event(1) [of i p ev] P Cons.prems(4) by simp
    from Cons.IH [OF ok _ _ this Cons.prems(5,6)] Cons.prems(2,3,7) Accepting show ?thesis
      by (simp add: program_step.simps)
  next
    case (Running j b)
    then have ev: "ev = Running i False" using Cons.prems(3) by (simp add: only_runs_def)
    have c: "m_running (th_client th)" "c_id (th_client th) = i" using P by (auto simp: thread_ok_def)
    have q: "queues_ok (p_server p)"
      using sessions_okD(1) [OF program_ok_sessions [OF Cons.prems(1)]] server_invD(3)
      by (auto simp: wf_server_def)
    obtain th' s' where step: "session_step False th (p_server p) = (Goes_on th', s')"
      "th_phase th' = Displaying" "wr_ok (m_fd (th_client th'))"
      "queue_of s' i = tl (queue_of (p_server p) i)" "m_orders s' = m_orders (p_server p)"
      using display_step_delivers [OF c(1) Cons.prems(5) c(2) Cons.prems(6) q Cons.prems(7)] by blast
    have eq: "program_step ev p = p\<lparr>p_server := s', p_threads := (p_threads p)(i := Some th')\<rparr>"
      using step(1) Cons.prems(2,4) by (simp add: ev program_step.simps thread_step_def)
    have "list_all frame_fits (queue_of s' i)"
      using Cons.prems(7) step(4) by (cases "queue_of (p_server p) i") simp_all
    moreover have "\<not> p_undefined (program_step ev p)" "p_threads (program_step ev p) i = Some th'"
      "p_server (program_step ev p) = s'"
      using Cons.prems(2) by (simp_all add: eq)
    moreover have "own_steps i (ev # evs) = Suc (own_steps i evs)" by (simp add: ev)
    ultimately show ?thesis
      using Cons.IH [OF ok, of th'] Cons.prems(3) step(2-5) by (simp add: drop_Suc)
  qed
qed (auto simp: own_steps_def)

text \<open>
  C14: a display catches up. In any state of the running server take a session in its display
  loop on a working connection, all of whose queued messages fit into a frame, and let its thread take a step for each of
  them, with none of its waits timing out, while no other session takes one: it is still in its loop, its queue is
  empty, and the display program, run on the bytes the session has written since its login,
  shows exactly the orders the server had.
\<close>

theorem display_catches_up:
  assumes "server_main argv evs0 os = Runs p" and "distinct (os_fds os)" and "\<not> p_undefined p"
    and "p_threads p i = Some th" and "th_phase th = Displaying" and "wr_ok (m_fd (th_client th))"
    and "list_all frame_fits (queue_of (p_server p) i)"
    and "list_all (only_runs i) evs" and "length (queue_of (p_server p) i) \<le> own_steps i evs"
    and "shows_orders con []"
  shows "\<exists>p' th'. server_main argv (evs0 @ evs) os = Runs p' \<and>
    p_threads p' i = Some th' \<and> th_phase th' = Displaying \<and> queue_of (p_server p') i = [] \<and>
    (case display_main_loop (plain_fd (drop (th_base th') (fd_out (m_fd (th_client th'))))) [] con of
       (_, _, shown, con') \<Rightarrow> shown = m_orders (p_server p) \<and> shows_orders con' shown)"
proof -
  obtain fd where ok: "program_ok (fd # os_fds os) p"
    using server_main_ok [OF assms(1,2)] by blast
  let ?p = "program_run evs p"
  obtain th' where th': "p_threads ?p i = Some th'" "th_phase th' = Displaying"
    "queue_of (p_server ?p) i = []" "m_orders (p_server ?p) = m_orders (p_server p)"
    using caught_up_run [OF ok assms(3,8,4-7)] assms(9) by auto
  have "sessions_ok ?p" using program_run_ok(1) [OF ok] by (rule program_ok_sessions)
  from delivered_shown [OF this th'(1,2), of "plain_fd (drop (th_base th') (fd_out (m_fd (th_client th'))))",
      OF _ _ assms(10)] th' show ?thesis
    by (intro exI [of _ ?p] exI [of _ th'] conjI server_main_continues [OF assms(1)])
      (auto split: prod.splits)
qed

text \<open>The events of \<open>test_events\<close> up to the creation of the order, before the display is told.\<close>

lemma display_catches_up_witness:
  "\<exists>p p' th'. server_main [''server'', ''5000''] (take 7 test_events) test_os = Runs p \<and>
     map fst (m_orders (p_server p)) = [1000] \<and> length (queue_of (p_server p) 0) = 1 \<and>
     server_main [''server'', ''5000'']
       (take 7 test_events @ [Accepting (Accept_fails 24), Running 0 False]) test_os = Runs p' \<and>
     p_threads p' 0 = Some th' \<and> queue_of (p_server p') 0 = [] \<and>
     (case display_main_loop (plain_fd (drop (th_base th') (fd_out (m_fd (th_client th'))))) []
        \<lparr>con_in = [], con_out = clear_screen, con_err = []\<rparr> of
        (_, _, shown, con') \<Rightarrow> shown = m_orders (p_server p) \<and> shows_orders con' shown)"
proof -
  have "case server_main [''server'', ''5000''] (take 7 test_events) test_os of
      Runs p \<Rightarrow> \<not> p_undefined p \<and> map fst (m_orders (p_server p)) = [1000] \<and>
        length (queue_of (p_server p) 0) = 1 \<and> list_all frame_fits (queue_of (p_server p) 0) \<and>
        (case p_threads p 0 of
           Some th \<Rightarrow> th_phase th = Displaying \<and> fd_wr (m_fd (th_client th)) = []
         | None \<Rightarrow> False)
    | _ \<Rightarrow> False"
    by code_simp
  then obtain p th where p: "server_main [''server'', ''5000''] (take 7 test_events) test_os = Runs p"
      "\<not> p_undefined p" "map fst (m_orders (p_server p)) = [1000]"
      "length (queue_of (p_server p) 0) = 1" "list_all frame_fits (queue_of (p_server p) 0)"
      "p_threads p 0 = Some th" "th_phase th = Displaying" "wr_ok (m_fd (th_client th))"
    by (auto split: server_result.splits option.splits simp: wr_ok_def)
  let ?con = "\<lparr>con_in = [], con_out = clear_screen, con_err = []\<rparr>"
  have con: "shows_orders ?con []" by (simp add: shows_orders_def render_def)
  have e: "list_all (only_runs 0) [Accepting (Accept_fails 24), Running 0 False]"
    "length (queue_of (p_server p) 0) \<le> own_steps 0 [Accepting (Accept_fails 24), Running 0 False]"
    by (simp_all add: only_runs_def p(4))
  from display_catches_up [OF p(1) test_os_distinct p(2,6-8,5) e con] p(1,3,4) show ?thesis
    by (elim exE conjE, intro exI conjI)
qed

end
