(* ===== verification/Rio_Buffered.thy ===== *)
theory Rio_Buffered
  imports Rio
begin

text \<open>
  The buffered readers of the robust I/O package, \<open>src/csapp.cpp\<close>: \<open>rio_readinitb\<close>, \<open>rio_read\<close>,
  \<open>rio_readnb\<close> and \<open>rio_readlineb\<close>, over the descriptors of \<open>Rio\<close>. What remains to be read is
  the unread part of the buffer followed by the input of the descriptor (\<open>rest\<close>); each function
  is shown to do on \<open>rest\<close> what its comment says, under any short and interrupted reads, for sizes
  in the range of \<open>int\<close>; the code narrows a size to \<open>int\<close>, and larger ones wrap.
\<close>

record rio_t =
  rio_fd :: fd
  rio_cnt :: int
  rio_bufptr :: nat        \<comment> \<open>as an index into the buffer\<close>
  rio_buf :: string
  rio_overrun :: bool      \<comment> \<open>a negative count was given to \<open>memcpy\<close>\<close>

definition rio_bufsize :: nat where
  "rio_bufsize = 8192"

definition rio_readinitb :: "fd \<Rightarrow> rio_t \<Rightarrow> rio_t" where
  "rio_readinitb fd rp = rp\<lparr>rio_fd := fd, rio_cnt := 0, rio_bufptr := 0\<rparr>"

subsection \<open>rio\_read\<close>

text \<open>The loop that refills the buffer; \<open>Some r\<close> is a \<open>return r\<close> from inside it.\<close>

definition rio_filled :: "int \<Rightarrow> string \<Rightarrow> fd \<Rightarrow> rio_t \<Rightarrow> rio_t" where
  "rio_filled r bs d rp =
     rp\<lparr>rio_fd := d, rio_cnt := r, rio_buf := bs @ drop (length bs) (rio_buf rp)\<rparr>"

function rio_refill :: "rio_t \<Rightarrow> int option \<times> rio_t" where
  "rio_refill rp =
     (if rio_cnt rp \<le> 0 then
        (case sys_read (rio_fd rp) rio_bufsize of (r, bs, d) \<Rightarrow>
           if r < 0 then
             (if fd_errno d \<noteq> E_INTR then (Some (-1), rio_filled r bs d rp)
              else rio_refill (rio_filled r bs d rp))
           else if r = 0 then (Some 0, rio_filled r bs d rp)
           else (None, (rio_filled r bs d rp)\<lparr>rio_bufptr := 0\<rparr>))
      else (None, rp))"
  by pat_completeness auto
termination
  by (relation "measure (\<lambda>rp. length (fd_rd (rio_fd rp)))")
    (auto simp: rio_filled_def rio_bufsize_def dest: sys_read_measure(1) [OF sym])

declare rio_refill.simps [simp del]

text \<open>
  The size is converted to \<open>int\<close>. A negative count, converted back for \<open>memcpy\<close>, is a huge one:
  undefined behaviour, which \<open>rio_overrun\<close> notes; the state after it is not meaningful.
\<close>

definition rio_read :: "rio_t \<Rightarrow> nat \<Rightarrow> int \<times> string \<times> rio_t" where
  "rio_read rp n =
     (case rio_refill rp of
        (Some r, rp1) \<Rightarrow> (r, [], rp1)
      | (None, rp1) \<Rightarrow>
          let cnt = (if rio_cnt rp1 < c_int (int n) then rio_cnt rp1 else c_int (int n)) in
          (cnt, take (nat cnt) (drop (rio_bufptr rp1) (rio_buf rp1)),
           rp1\<lparr>rio_bufptr := rio_bufptr rp1 + nat cnt, rio_cnt := rio_cnt rp1 - cnt,
               rio_overrun := rio_overrun rp1 \<or> cnt < 0\<rparr>))"

text \<open>The bytes still to be read, and the invariant of the buffer.\<close>

definition rest :: "rio_t \<Rightarrow> string" where
  "rest rp = take (nat (rio_cnt rp)) (drop (rio_bufptr rp) (rio_buf rp)) @ fd_in (rio_fd rp)"

definition rio_ok :: "rio_t \<Rightarrow> bool" where
  "rio_ok rp \<longleftrightarrow> nat (rio_cnt rp) + rio_bufptr rp \<le> length (rio_buf rp) \<or> rio_cnt rp \<le> 0"

lemma rio_init: "rio_ok (rio_readinitb d rp) \<and> rest (rio_readinitb d rp) = fd_in d"
  by (simp add: rio_readinitb_def rio_ok_def rest_def)

lemma rio_refill_result:
  assumes "rio_ok rp" and "rio_refill rp = (r, rp')"
  shows "rio_ok rp' \<and> rest rp' = rest rp \<and> (rd_ok (rio_fd rp) \<longrightarrow> rd_ok (rio_fd rp')) \<and>
    (r = None \<and> 0 < rio_cnt rp' \<or> r = Some 0 \<and> rest rp' = [] \<or> r = Some (-1) \<and> \<not> rd_ok (rio_fd rp)) \<and>
    fd_out (rio_fd rp') = fd_out (rio_fd rp) \<and> rio_overrun rp' = rio_overrun rp"
  using assms
proof (induction rp rule: rio_refill.induct)
  case (1 rp)
  show ?case
  proof (cases "rio_cnt rp \<le> 0")
    case False
    with "1.prems" show ?thesis by (simp add: rio_refill.simps [of rp])
  next
    case True
    have rest: "rest rp = fd_in (rio_fd rp)" using True by (simp add: rest_def)
    obtain k bs d where sr: "sys_read (rio_fd rp) rio_bufsize = (k, bs, d)" by (metis prod_cases3)
    have pos: "0 < rio_bufsize" by (simp add: rio_bufsize_def)
    let ?f = "rio_filled k bs d rp"
    have eq: "(if k < 0 then (if fd_errno d \<noteq> E_INTR then (Some (-1), ?f) else rio_refill ?f)
        else if k = 0 then (Some 0, ?f) else (None, ?f\<lparr>rio_bufptr := 0\<rparr>)) = (r, rp')"
      using "1.prems"(2) True sr by (subst (asm) rio_refill.simps) simp
    from sys_read_spec [OF sr pos] consider
        (fail) e es where "k = -1" "bs = []" "fd_rd (rio_fd rp) = Rd_Fail e # es"
          "d = (rio_fd rp)\<lparr>fd_rd := es, fd_errno := e\<rparr>"
      | (data) "k = int (length bs)" "bs = [] \<longrightarrow> fd_in (rio_fd rp) = []"
          "fd_in (rio_fd rp) = bs @ fd_in d" "fd_out d = fd_out (rio_fd rp)"
          "set (fd_rd d) \<subseteq> set (fd_rd (rio_fd rp))"
      by blast
    then show ?thesis
    proof cases
      case fail
      have f: "rio_ok ?f" "rest ?f = rest rp" "rio_fd ?f = d" "rio_overrun ?f = rio_overrun rp"
        using fail rest by (simp_all add: rio_filled_def rio_ok_def rest_def)
      show ?thesis
      proof (cases "e = E_INTR")
        case intr: True
        have "rio_refill ?f = (r, rp')" using eq fail intr by simp
        from "1.IH" [OF True sr [symmetric] refl _ _ f(1) this] fail intr f show ?thesis
          by (auto simp: rd_ok_def)
      next
        case False
        then show ?thesis using eq fail f by (auto simp: rd_ok_def)
      qed
    next
      case data
      have ok: "rd_ok (rio_fd rp) \<longrightarrow> rd_ok d" using data(5) rd_ok_subset by blast
      show ?thesis
        using eq data ok rest by (auto simp: rio_filled_def rio_ok_def rest_def split: if_splits)
    qed
  qed
qed

lemma rio_read_result:
  assumes "rio_ok rp" and "0 < n" and "n < 2 ^ 31" and "rio_read rp n = (r, bs, rp')"
  shows "rio_ok rp' \<and> rest rp = bs @ rest rp' \<and> length bs \<le> n \<and> rio_overrun rp' = rio_overrun rp \<and>
    (rd_ok (rio_fd rp) \<longrightarrow> rd_ok (rio_fd rp')) \<and>
    (r = int (length bs) \<and> (bs = [] \<longrightarrow> rest rp = []) \<or> r = -1 \<and> bs = [] \<and> \<not> rd_ok (rio_fd rp))"
proof -
  obtain q rp1 where f: "rio_refill rp = (q, rp1)" by (metis prod.exhaust)
  note F = rio_refill_result [OF assms(1) f]
  show ?thesis
  proof (cases q)
    case (Some k)
    with F assms(4) f show ?thesis by (auto simp: rio_read_def)
  next
    case None
    define cnt where "cnt = (if rio_cnt rp1 < int n then nat (rio_cnt rp1) else n)"
    have narrow: "c_int (int n) = int n" using assms(3) by (intro c_int_id) simp_all
    have pos: "0 < rio_cnt rp1" and fit: "nat (rio_cnt rp1) + rio_bufptr rp1 \<le> length (rio_buf rp1)"
      using F None by (auto simp: rio_ok_def)
    have cnt: "(if rio_cnt rp1 < int n then rio_cnt rp1 else int n) = int cnt"
      using pos by (simp add: cnt_def)
    have "rio_read rp n = (int cnt, take (nat (int cnt)) (drop (rio_bufptr rp1) (rio_buf rp1)),
        rp1\<lparr>rio_bufptr := rio_bufptr rp1 + nat (int cnt), rio_cnt := rio_cnt rp1 - int cnt,
          rio_overrun := rio_overrun rp1 \<or> int cnt < 0\<rparr>)"
      unfolding rio_read_def f None by (simp only: prod.case option.case Let_def narrow cnt)
    then have r: "r = int cnt" "bs = take cnt (drop (rio_bufptr rp1) (rio_buf rp1))"
      "rp' = rp1\<lparr>rio_bufptr := rio_bufptr rp1 + cnt, rio_cnt := rio_cnt rp1 - int cnt,
        rio_overrun := rio_overrun rp1\<rparr>"
      using assms(4) by simp_all
    have c: "0 < cnt" "cnt \<le> n" "cnt \<le> nat (rio_cnt rp1)"
      using pos assms(2) by (auto simp: cnt_def)
    have len: "length bs = cnt" using r(2) c(3) fit by simp
    have split: "take (nat (rio_cnt rp1)) (drop (rio_bufptr rp1) (rio_buf rp1)) =
        bs @ take (nat (rio_cnt rp1) - cnt) (drop (rio_bufptr rp1 + cnt) (rio_buf rp1))"
    proof -
      have "nat (rio_cnt rp1) = cnt + (nat (rio_cnt rp1) - cnt)" using c(3) by simp
      then show ?thesis by (metis add.commute drop_drop r(2) take_add)
    qed
    have "nat (rio_cnt rp1 - int cnt) = nat (rio_cnt rp1) - cnt" using pos by simp
    with split have "rest rp1 = bs @ rest rp'" by (simp add: rest_def r(3))
    moreover have "rio_ok rp'"
      using fit c(3) pos by (auto simp: rio_ok_def r(3))
    ultimately show ?thesis
      using F None r(1,3) len c by auto
  qed
qed

subsection \<open>rio\_readnb\<close>

text \<open>
  The two callers loop until \<open>rio_read\<close> has delivered enough; each pass takes a byte of \<open>rest\<close>.
\<close>

function rio_readnb_loop :: "nat \<Rightarrow> nat \<Rightarrow> string \<Rightarrow> rio_t \<Rightarrow> int \<times> string \<times> rio_t" where
  "rio_readnb_loop n nleft usrbuf rp =
     (if 0 < nleft then
        (case rio_read rp nleft of (nread, bs, rp1) \<Rightarrow>
           if nread < 0 then (-1, usrbuf, rp1)
           else if nread = 0 then (int (n - nleft), usrbuf, rp1)
           else rio_readnb_loop n (nleft - nat nread) (usrbuf @ bs) rp1)
      else (int (n - nleft), usrbuf, rp))"
  by pat_completeness auto
termination
  by (relation "measure (\<lambda>(n, nleft, usrbuf, rp). nleft)") auto

declare rio_readnb_loop.simps [simp del]

definition rio_readnb :: "rio_t \<Rightarrow> nat \<Rightarrow> int \<times> string \<times> rio_t" where
  "rio_readnb rp n = rio_readnb_loop n n [] rp"

text \<open>What a reader may do: deliver a prefix of what remains, and fail only if a read does.\<close>

definition reads :: "rio_t \<Rightarrow> string \<Rightarrow> rio_t \<Rightarrow> bool" where
  "reads rp bs rp' \<longleftrightarrow>
     rio_ok rp' \<and> rest rp = bs @ rest rp' \<and> rio_overrun rp' = rio_overrun rp \<and>
     (rd_ok (rio_fd rp) \<longrightarrow> rd_ok (rio_fd rp'))"

lemma reads_refl: "rio_ok rp \<Longrightarrow> reads rp [] rp"
  by (simp add: reads_def)

lemma reads_trans: "reads rp bs rp1 \<Longrightarrow> reads rp1 cs rp2 \<Longrightarrow> reads rp (bs @ cs) rp2"
  by (auto simp: reads_def)

lemma rio_read_reads:
  assumes "rio_ok rp" and "0 < n" and "n < 2 ^ 31" and "rio_read rp n = (r, bs, rp')"
  shows "reads rp bs rp'" and "length bs \<le> n"
    and "r = int (length bs) \<and> (bs = [] \<longrightarrow> rest rp = []) \<or> r = -1 \<and> bs = [] \<and> \<not> rd_ok (rio_fd rp)"
  using rio_read_result [OF assms] by (auto simp: reads_def)

lemma rio_readnb_loop_result:
  assumes "rio_ok rp" and "length buf + nleft = n" and "n < 2 ^ 31" and "rio_readnb_loop n nleft buf rp = (r, bs, rp')"
  shows "\<exists>t. bs = buf @ t \<and> reads rp t rp' \<and> length bs \<le> n \<and>
    (r = int (length bs) \<and> (length bs = n \<or> rest rp' = []) \<or> r = -1 \<and> \<not> rd_ok (rio_fd rp))"
  using assms
proof (induction n nleft buf rp rule: rio_readnb_loop.induct)
  case (1 n nleft buf rp)
  show ?case
  proof (cases "0 < nleft")
    case False
    with "1.prems" show ?thesis by (simp add: rio_readnb_loop.simps [of n nleft] reads_refl)
  next
    case True
    obtain k t rp1 where rr: "rio_read rp nleft = (k, t, rp1)" by (metis prod_cases3)
    have small: "nleft < 2 ^ 31" using "1.prems"(2,3) by simp
    note R = rio_read_reads [OF "1.prems"(1) True small rr]
    have ok1: "rio_ok rp1" using R(1) by (simp add: reads_def)
    have eq: "(if k < 0 then (-1, buf, rp1) else if k = 0 then (int (n - nleft), buf, rp1)
        else rio_readnb_loop n (nleft - nat k) (buf @ t) rp1) = (r, bs, rp')"
      using "1.prems"(4) True rr by (subst (asm) rio_readnb_loop.simps) simp
    show ?thesis
    proof (cases "t = []")
      case False
      then have k: "k = int (length t)" "0 < length t" using R(3) by auto
      then have "rio_readnb_loop n (nleft - nat k) (buf @ t) rp1 = (r, bs, rp')" using eq by simp
      from "1.IH" [OF True rr [symmetric] refl _ _ ok1 _ "1.prems"(3) this] k R(2) "1.prems"(2)
      obtain u where u: "bs = (buf @ t) @ u" "reads rp1 u rp'" "length bs \<le> n"
        "r = int (length bs) \<and> (length bs = n \<or> rest rp' = []) \<or> r = -1 \<and> \<not> rd_ok (rio_fd rp1)"
        by auto
      with R(1) reads_trans [OF R(1) u(2)] show ?thesis
        by (intro exI [of _ "t @ u"]) (auto simp: reads_def)
    next
      case True
      with R eq "1.prems"(2) show ?thesis
        by (intro exI [of _ "[]"]) (auto simp: reads_def split: if_splits)
    qed
  qed
qed

subsection \<open>rio\_readlineb\<close>

text \<open>
  \<open>usrbuf\<close> is what has been stored; the terminating 0 is the last character where it is stored.
  \<open>Some r\<close> is a \<open>return\<close> from inside the loop, otherwise the loop has ended with counter \<open>n\<close>.
\<close>

function readline_loop :: "nat \<Rightarrow> nat \<Rightarrow> string \<Rightarrow> rio_t \<Rightarrow> int option \<times> nat \<times> string \<times> rio_t" where
  "readline_loop maxlen n usrbuf rp =
     (if int n < c_int (int maxlen) then
        (case rio_read rp 1 of (rc, c, rp1) \<Rightarrow>
           if rc = 1 then
             (if c = [CHR 0x0A] then (None, n + 1, usrbuf @ c, rp1)
              else readline_loop maxlen (n + 1) (usrbuf @ c) rp1)
           else if rc = 0 then
             (if n = 1 then (Some 0, n, usrbuf, rp1) else (None, n, usrbuf, rp1))
           else (Some (-1), n, usrbuf, rp1))
      else (None, n, usrbuf, rp))"
  by pat_completeness auto
termination
  by (relation "measure (\<lambda>(maxlen, n, usrbuf, rp). nat (c_int (int maxlen)) - n)") auto

declare readline_loop.simps [simp del]

definition rio_readlineb :: "rio_t \<Rightarrow> nat \<Rightarrow> int \<times> string \<times> rio_t" where
  "rio_readlineb rp maxlen =
     (case readline_loop maxlen 1 [] rp of
        (Some r, _, usrbuf, rp1) \<Rightarrow> (r, usrbuf, rp1)
      | (None, n, usrbuf, rp1) \<Rightarrow> (int n - 1, usrbuf @ [CHR 0x00], rp1))"

text \<open>The specification: the next line with its newline, but at most \<open>m\<close> characters.\<close>

fun line_upto :: "nat \<Rightarrow> string \<Rightarrow> string" where
  "line_upto m [] = []"
| "line_upto 0 (c # cs) = []"
| "line_upto (Suc m) (c # cs) = (if c = CHR 0x0A then [c] else c # line_upto m cs)"

lemma line_upto_0 [simp]: "line_upto 0 s = []"
  by (cases s) simp_all

lemma length_line_upto: "length (line_upto m s) \<le> m"
  by (induction m s rule: line_upto.induct) simp_all

lemma readline_loop_result:
  assumes "rio_ok rp" and "rd_ok (rio_fd rp)" and "1 \<le> n" and "n \<le> maxlen"
    and "maxlen < 2 ^ 31" and "readline_loop maxlen n buf rp = (q, n', buf', rp')"
  shows "let line = line_upto (maxlen - n) (rest rp) in
    buf' = buf @ line \<and> reads rp line rp' \<and>
    (if line = [] \<and> n = 1 \<and> n < maxlen then q = Some 0 else q = None \<and> n' = n + length line)"
  using assms
proof (induction maxlen n buf rp rule: readline_loop.induct)
  case (1 maxlen n buf rp)
  have narrow: "c_int (int maxlen) = int maxlen"
    using "1.prems"(5) by (intro c_int_id) simp_all
  have bound: "int n < c_int (int maxlen) \<longleftrightarrow> n < maxlen"
    by (simp add: narrow)
  show ?case
  proof (cases "n < maxlen")
    case False
    then have "(q, n', buf', rp') = (None, n, buf, rp)"
      using "1.prems"(6) by (subst (asm) readline_loop.simps) (simp add: narrow)
    with False "1.prems"(1,4) show ?thesis by (simp add: reads_refl)
  next
    case True
    obtain k c rp1 where rr: "rio_read rp 1 = (k, c, rp1)" by (metis prod_cases3)
    note R = rio_read_reads [OF "1.prems"(1) _ _ rr, simplified]
    have ok1: "rio_ok rp1" "rd_ok (rio_fd rp1)" using R(1) "1.prems"(2) by (simp_all add: reads_def)
    have m: "maxlen - n = Suc (maxlen - Suc n)" using True by simp
    have eq: "(if k = 1 then (if c = [CHR 0x0A] then (None, n + 1, buf @ c, rp1)
              else readline_loop maxlen (n + 1) (buf @ c) rp1)
           else if k = 0 then (if n = 1 then (Some 0, n, buf, rp1) else (None, n, buf, rp1))
           else (Some (-1), n, buf, rp1)) = (q, n', buf', rp')"
      using "1.prems"(6) True rr by (subst (asm) readline_loop.simps) (simp add: narrow)
    show ?thesis
    proof (cases "c = []")
      case eof: True
      then have "k = 0" "rest rp = []" using R(3) "1.prems"(2) by auto
      with eq eof R(1) True show ?thesis
        by (auto split: if_splits)
    next
      case False
      then obtain x where x: "c = [x]" "k = 1" using R(2,3) by (cases c) auto
      then have rest: "rest rp = x # rest rp1" using R(1) by (simp add: reads_def)
      show ?thesis
      proof (cases "x = CHR 0x0A")
        case nl: True
        have "q = None" "n' = n + 1" "buf' = buf @ [x]" "rp' = rp1" using eq x nl by simp_all
        with R(1) rest x m nl show ?thesis by simp
      next
        case other: False
        then have "readline_loop maxlen (n + 1) (buf @ c) rp1 = (q, n', buf', rp')" using eq x by simp
        from "1.IH" [OF bound [THEN iffD2, OF True] rr [symmetric] refl _ _ ok1 _ _ "1.prems"(5) this] x other True "1.prems"(3)
        have "let line = line_upto (maxlen - (n + 1)) (rest rp1) in
          buf' = (buf @ c) @ line \<and> reads rp1 line rp' \<and> q = None \<and> n' = n + 1 + length line"
          by (simp add: Let_def)
        with rest m other x reads_trans [OF R(1)] show ?thesis by (simp add: Let_def)
      qed
    qed
  qed
qed

text \<open>
  C31: buffered and unbuffered reading agree with reading from a plain string, for sizes an
  \<open>int\<close> holds. Under any short and interrupted reads that do not fail, \<open>rio_readlineb\<close> stores
  the next line of what remains, with its newline, or \<open>maxlen - 1\<close> characters of it, and a
  terminating 0, and returns its length, or 0 with nothing stored at the end of the input; and
  \<open>rio_readnb\<close> delivers the next \<open>n\<close> characters, fewer only at the end. Both leave exactly the
  rest for the next call, and copy no negative count.
\<close>

theorem buffered_reading:
  assumes "rio_ok rp" and "rd_ok (rio_fd rp)" and "1 \<le> maxlen" and "maxlen < 2 ^ 31" and "n < 2 ^ 31"
  shows "(case rio_readlineb rp maxlen of (r, usrbuf, rp') \<Rightarrow>
       let line = line_upto (maxlen - 1) (rest rp) in
       r = int (length line) \<and> rest rp = line @ rest rp' \<and> rio_ok rp' \<and> rd_ok (rio_fd rp') \<and>
       rio_overrun rp' = rio_overrun rp \<and>
       usrbuf = (if line = [] \<and> 1 < maxlen then [] else line @ [CHR 0x00])) \<and>
    (case rio_readnb rp n of (r, bs, rp') \<Rightarrow>
       bs = take n (rest rp) \<and> r = int (length bs) \<and> rest rp' = drop n (rest rp) \<and>
       rio_ok rp' \<and> rd_ok (rio_fd rp') \<and> rio_overrun rp' = rio_overrun rp)"
proof (rule conjI)
  obtain q n' buf rp' where l: "readline_loop maxlen 1 [] rp = (q, n', buf, rp')" by (metis prod_cases4)
  from readline_loop_result [OF assms(1,2) _ assms(3,4) l] assms(2)
  show "case rio_readlineb rp maxlen of (r, usrbuf, rp') \<Rightarrow>
       let line = line_upto (maxlen - 1) (rest rp) in
       r = int (length line) \<and> rest rp = line @ rest rp' \<and> rio_ok rp' \<and> rd_ok (rio_fd rp') \<and>
       rio_overrun rp' = rio_overrun rp \<and>
       usrbuf = (if line = [] \<and> 1 < maxlen then [] else line @ [CHR 0x00])"
    unfolding rio_readlineb_def l by (auto simp: Let_def reads_def split: if_splits)
next
  obtain r bs rp' where l: "rio_readnb rp n = (r, bs, rp')" by (metis prod_cases3)
  then have "bs = [] @ bs \<and> reads rp bs rp' \<and> length bs \<le> n \<and>
    (r = int (length bs) \<and> (length bs = n \<or> rest rp' = []) \<or> r = -1 \<and> \<not> rd_ok (rio_fd rp))"
    using rio_readnb_loop_result [OF assms(1) _ assms(5), of "[]" n r bs rp'] by (auto simp: rio_readnb_def)
  with assms(2) show "case rio_readnb rp n of (r, bs, rp') \<Rightarrow>
       bs = take n (rest rp) \<and> r = int (length bs) \<and> rest rp' = drop n (rest rp) \<and>
       rio_ok rp' \<and> rd_ok (rio_fd rp') \<and> rio_overrun rp' = rio_overrun rp"
    by (auto simp: l reads_def)
qed

definition two_lines :: rio_t where
  "two_lines = rio_readinitb
     \<lparr>fd_in = ''ab'' @ [CHR 0x0A] @ ''c'', fd_rd = [Rd_Some 1, Rd_Fail E_INTR, Rd_Some 9], fd_out = [],
      fd_wr = [], fd_errno = E_NONE\<rparr>
     \<lparr>rio_fd = \<lparr>fd_in = [], fd_rd = [], fd_out = [], fd_wr = [], fd_errno = E_NONE\<rparr>, rio_cnt = 0,
      rio_bufptr = 0, rio_buf = replicate 8192 (CHR 0x00), rio_overrun = False\<rparr>"

lemma buffered_reading_witness:
  "fst (rio_readlineb two_lines 100) = 3 \<and> fst (snd (rio_readnb two_lines 2)) = ''ab''"
proof -
  have "rio_ok two_lines" "rest two_lines = ''ab'' @ [CHR 0x0A] @ ''c''"
    unfolding two_lines_def by (simp_all add: rio_init)
  moreover have line: "line_upto 99 (''ab'' @ [CHR 0x0A] @ ''c'') = ''ab'' @ [CHR 0x0A]"
    by code_simp
  moreover have "rd_ok (rio_fd two_lines)"
    by (simp add: two_lines_def rio_readinitb_def rd_ok_def)
  ultimately show ?thesis
    using buffered_reading [of two_lines 100 2] line
    by (auto simp: Let_def split: prod.splits)
qed

subsection \<open>Sizes that do not fit an int\<close>

text \<open>
  Outside these bounds the functions do not do what their comments say. With \<open>2 ^ 32\<close> (and any
  other multiple) \<open>rio_readnb\<close> reports the end of the input although data remains; with a size whose
  \<open>int\<close> is negative it hands \<open>memcpy\<close> a negative count; and \<open>rio_readlineb\<close> with such a \<open>maxlen\<close>
  stores an empty line and returns 0.
\<close>

lemma rio_read_data:
  assumes "rio_ok rp" and "rd_ok (rio_fd rp)" and "rest rp \<noteq> []"
  obtains rp1 where "rio_refill rp = (None, rp1)" and "rio_ok rp1" and "rest rp1 = rest rp"
    and "0 < rio_cnt rp1" and "rio_overrun rp1 = rio_overrun rp"
proof -
  obtain q rp1 where f: "rio_refill rp = (q, rp1)" by (metis prod.exhaust)
  from rio_refill_result [OF assms(1) f] assms(2,3) that f show ?thesis by auto
qed

lemma readnb_wraps_to_zero:
  assumes "rio_ok rp" and "rd_ok (rio_fd rp)" and "rest rp \<noteq> []" and "0 < n" and "c_int (int n) = 0"
  shows "case rio_readnb rp n of (r, bs, rp') \<Rightarrow> r = 0 \<and> bs = [] \<and> rest rp' = rest rp"
proof -
  obtain rp1 where "rio_refill rp = (None, rp1)" "rest rp1 = rest rp" "0 < rio_cnt rp1"
    using rio_read_data [OF assms(1-3)] .
  with assms(4,5) show ?thesis
    by (subst rio_readnb_def, subst rio_readnb_loop.simps) (simp add: rio_read_def rest_def)
qed

lemma readnb_wraps_negative:
  assumes "rio_ok rp" and "rd_ok (rio_fd rp)" and "rest rp \<noteq> []" and "0 < n" and "c_int (int n) < 0"
  shows "case rio_readnb rp n of (r, bs, rp') \<Rightarrow> rio_overrun rp'"
proof -
  obtain rp1 where "rio_refill rp = (None, rp1)" "0 < rio_cnt rp1"
    using rio_read_data [OF assms(1-3)] .
  with assms(4,5) show ?thesis
    by (subst rio_readnb_def, subst rio_readnb_loop.simps) (simp add: rio_read_def Let_def)
qed

lemma readlineb_wraps:
  "c_int (int maxlen) \<le> 1 \<Longrightarrow> rio_readlineb rp maxlen = (0, [CHR 0x00], rp)"
  by (subst rio_readlineb_def, subst readline_loop.simps) simp

lemma narrowed_sizes: "c_int (2 ^ 32) = 0" "c_int (2 ^ 31) = - (2 ^ 31)"
  by (simp_all add: c_int_def signed_take_bit_eq_if_positive signed_take_bit_eq_if_negative)

end
