(* ===== verification/Csapp_Wrappers.thy ===== *)
theory Csapp_Wrappers
  imports Network Rio_Buffered
begin

text \<open>
  The wrappers of \<open>src/csapp.cpp\<close> around system and library calls: each makes the call, and when
  the call reports an error prints it and exits. A wrapped call is a parameter: a function of
  its arguments and the state \<open>os\<close>, with what it returns and, where it fills in memory, what it
  stores. A null pointer is \<open>None\<close>. A wrapper's result is the exit status (\<open>Inl\<close>) or what it
  returns.
\<close>

definition negative :: "int \<Rightarrow> bool" where
  "negative rc \<longleftrightarrow> rc < 0"

definition nonzero :: "int \<Rightarrow> bool" where
  "nonzero rc \<longleftrightarrow> rc \<noteq> 0"

text \<open>\<open>if ((rc = call) bad) unix_error(msg); return rc\<close>, where \<open>value\<close> is the part returned.\<close>

definition checked ::
  "('r \<Rightarrow> bool) \<Rightarrow> string \<Rightarrow> ('r \<Rightarrow> 'b) \<Rightarrow> (os \<Rightarrow> 'r \<times> os) \<Rightarrow> os \<Rightarrow> (int + 'b) \<times> os" where
  "checked bad msg value call os =
     (case call os of (rc, os1) \<Rightarrow> if bad rc then unix_error msg os1 else (Inr (value rc), os1))"

text \<open>The same with the error code as the result, \<open>posix_error\<close> and \<open>gai_error\<close>.\<close>

definition checked_code ::
  "(int \<Rightarrow> string \<Rightarrow> os \<Rightarrow> (int + 'b) \<times> os) \<Rightarrow> string \<Rightarrow> (int \<times> 'r \<Rightarrow> 'b) \<Rightarrow> (os \<Rightarrow> (int \<times> 'r) \<times> os) \<Rightarrow>
     os \<Rightarrow> (int + 'b) \<times> os" where
  "checked_code report msg value call os =
     (case call os of (rc, os1) \<Rightarrow>
        if fst rc \<noteq> 0 then report (fst rc) msg os1 else (Inr (value rc), os1))"

subsection \<open>Processes\<close>

definition Fork where
  "Fork fork = checked negative ''Fork error'' id fork"

definition Execve where
  "Execve execve filename argv envp = checked negative ''Execve error'' (\<lambda>_. ()) (execve filename argv envp)"

definition Wait where
  "Wait wait = checked (negative \<circ> fst) ''Wait error'' id wait"

definition Waitpid where
  "Waitpid waitpid pid options = checked (negative \<circ> fst) ''Waitpid error'' id (waitpid pid options)"

definition Kill where
  "Kill kill pid signum = checked negative ''Kill error'' (\<lambda>_. ()) (kill pid signum)"

definition Setpgid where
  "Setpgid setpgid pid pgid = checked negative ''Setpgid error'' (\<lambda>_. ()) (setpgid pid pgid)"

subsection \<open>Signals\<close>

definition Signal where
  "Signal sigaction signum handler = checked (negative \<circ> fst) ''Signal error'' snd (sigaction signum handler)"

definition Sigprocmask where
  "Sigprocmask sigprocmask how sigs = checked (negative \<circ> fst) ''Sigprocmask error'' snd (sigprocmask how sigs)"

definition Sigemptyset where
  "Sigemptyset sigemptyset = checked (negative \<circ> fst) ''Sigemptyset error'' snd sigemptyset"

definition Sigfillset where
  "Sigfillset sigfillset = checked (negative \<circ> fst) ''Sigfillset error'' snd sigfillset"

definition Sigaddset where
  "Sigaddset sigaddset sigs signum = checked (negative \<circ> fst) ''Sigaddset error'' snd (sigaddset sigs signum)"

definition Sigdelset where
  "Sigdelset sigdelset sigs signum = checked (negative \<circ> fst) ''Sigdelset error'' snd (sigdelset sigs signum)"

definition Sigismember where
  "Sigismember sigismember sigs signum = checked negative ''Sigismember error'' id (sigismember sigs signum)"

subsection \<open>Files\<close>

definition Open where
  "Open open pathname flags mode = checked negative ''Open error'' id (open pathname flags mode)"

definition Read where
  "Read read fd count = checked (negative \<circ> fst) ''Read error'' id (read fd count)"

definition Write where
  "Write write fd buf count = checked negative ''Write error'' id (write fd buf count)"

definition Lseek where
  "Lseek lseek fildes offset whence = checked negative ''Lseek error'' id (lseek fildes offset whence)"

definition Close where
  "Close close fd = checked negative ''Close error'' (\<lambda>_. ()) (close fd)"

definition Select where
  "Select select n readfds writefds exceptfds timeout = checked (negative \<circ> fst) ''Select error'' id (select n readfds writefds exceptfds timeout)"

definition Dup2 where
  "Dup2 dup2 fd1 fd2 = checked negative ''Dup2 error'' id (dup2 fd1 fd2)"

definition Stat where
  "Stat stat filename = checked (negative \<circ> fst) ''Stat error'' snd (stat filename)"

definition Fstat where
  "Fstat fstat fd = checked (negative \<circ> fst) ''Fstat error'' snd (fstat fd)"

subsection \<open>Directories and memory\<close>

definition Opendir where
  "Opendir opendir name = checked Option.is_none ''opendir error'' the (opendir name)"

definition Closedir where
  "Closedir closedir dirp = checked negative ''closedir error'' id (closedir dirp)"

definition Mmap where
  "Mmap mmap addr len prot flags fd offset = checked Option.is_none ''mmap error'' the (mmap addr len prot flags fd offset)"

definition Munmap where
  "Munmap munmap start len = checked negative ''munmap error'' (\<lambda>_. ()) (munmap start len)"

definition Malloc where
  "Malloc malloc bytes = checked Option.is_none ''Malloc error'' the (malloc bytes)"

definition Realloc where
  "Realloc realloc ptr bytes = checked Option.is_none ''Realloc error'' the (realloc ptr bytes)"

definition Calloc where
  "Calloc calloc nmemb bytes = checked Option.is_none ''Calloc error'' the (calloc nmemb bytes)"

subsection \<open>Standard I/O\<close>

definition Fclose where
  "Fclose fclose fp = checked nonzero ''Fclose error'' (\<lambda>_. ()) (fclose fp)"

definition Fdopen where
  "Fdopen fdopen fd type = checked Option.is_none ''Fdopen error'' the (fdopen fd type)"

definition Fopen where
  "Fopen fopen filename mode = checked Option.is_none ''Fopen error'' the (fopen filename mode)"

definition Fputs where
  "Fputs fputs ptr stream = checked (\<lambda>rc. rc = -1) ''Fputs error'' (\<lambda>_. ()) (fputs ptr stream)"

definition Fread where
  "Fread fread bytes nmemb stream = checked (\<lambda>(n, data, ferror). n < nmemb \<and> ferror) ''Fread error'' (\<lambda>(n, data, ferror). (n, data)) (fread bytes nmemb stream)"

definition Fwrite where
  "Fwrite fwrite ptr bytes nmemb stream = checked (\<lambda>n. n < nmemb) ''Fwrite error'' (\<lambda>_. ()) (fwrite ptr bytes nmemb stream)"

subsection \<open>Sockets\<close>

definition Socket where
  "Socket socket domain type protocol = checked negative ''Socket error'' id (socket domain type protocol)"

definition Setsockopt where
  "Setsockopt setsockopt s level optname optval = checked negative ''Setsockopt error'' (\<lambda>_. ()) (setsockopt s level optname optval)"

definition Bind where
  "Bind bind sockfd addr = checked negative ''Bind error'' (\<lambda>_. ()) (bind sockfd addr)"

definition Listen where
  "Listen listen s backlog = checked negative ''Listen error'' (\<lambda>_. ()) (listen s backlog)"

definition Accept where
  "Accept accept s = checked (negative \<circ> fst) ''Accept error'' id (accept s)"

definition Connect where
  "Connect connect sockfd addr = checked negative ''Connect error'' (\<lambda>_. ()) (connect sockfd addr)"

definition Inet_ntop where
  "Inet_ntop inet_ntop af src bytes = checked Option.is_none ''Inet_ntop error'' the (inet_ntop af src bytes)"

subsection \<open>Semaphores\<close>

definition Sem_init where
  "Sem_init sem_init sem pshared val = checked negative ''Sem_init error'' (\<lambda>_. ()) (sem_init sem pshared val)"

definition P_sem where
  "P_sem sem_wait sem = checked negative ''P error'' (\<lambda>_. ()) (sem_wait sem)"

definition V_sem where
  "V_sem sem_post sem = checked negative ''V error'' (\<lambda>_. ()) (sem_post sem)"

subsection \<open>Threads and addresses\<close>

definition Pthread_create where
  "Pthread_create pthread_create attrp routine argp =
     checked_code posix_error ''Pthread_create error'' snd (pthread_create attrp routine argp)"

definition Pthread_cancel where
  "Pthread_cancel pthread_cancel tid =
     checked_code posix_error ''Pthread_cancel error'' snd (pthread_cancel tid)"

definition Pthread_join where
  "Pthread_join pthread_join tid = checked_code posix_error ''Pthread_join error'' snd (pthread_join tid)"

definition Pthread_detach where
  "Pthread_detach pthread_detach tid =
     checked_code posix_error ''Pthread_detach error'' snd (pthread_detach tid)"

definition Getaddrinfo where
  "Getaddrinfo getaddrinfo node service hints =
     checked_code gai_error ''Getaddrinfo error'' snd (getaddrinfo node service hints)"

definition Getnameinfo where
  "Getnameinfo getnameinfo sa hostlen servlen flags =
     checked_code gai_error ''Getnameinfo error'' snd (getnameinfo sa hostlen servlen flags)"

definition Gethostbyname where
  "Gethostbyname gethostbyname name os =
     (case gethostbyname name os of
        (None, os1) \<Rightarrow> app_error ''Gethostbyname error'' os1
      | (Some p, os1) \<Rightarrow> (Inr p, os1))"

definition Gethostbyaddr where
  "Gethostbyaddr gethostbyaddr addr type os =
     (case gethostbyaddr addr type os of
        (None, os1) \<Rightarrow> app_error ''Gethostbyaddr error'' os1
      | (Some p, os1) \<Rightarrow> (Inr p, os1))"

definition Inet_pton :: "('f \<Rightarrow> 's \<Rightarrow> os \<Rightarrow> (int \<times> 'd) \<times> os) \<Rightarrow> 'f \<Rightarrow> 's \<Rightarrow> os \<Rightarrow> (int + 'd) \<times> os" where
  "Inet_pton inet_pton af src os =
     (case inet_pton af src os of ((rc, dst), os1) \<Rightarrow>
        if rc = 0 then app_error ''inet_pton error: invalid dotted-decimal address'' os1
        else if rc < 0 then unix_error ''Inet_pton error'' os1
        else (Inr dst, os1))"

subsection \<open>Calls passed on\<close>

text \<open>These wrappers check nothing.\<close>

definition passed_on :: "(os \<Rightarrow> 'r \<times> os) \<Rightarrow> os \<Rightarrow> (int + 'r) \<times> os" where
  "passed_on call os = (case call os of (rc, os1) \<Rightarrow> (Inr rc, os1))"

definition Pause :: "(os \<Rightarrow> int \<times> os) \<Rightarrow> os \<Rightarrow> (int + unit) \<times> os" where
  "Pause pause os = (case passed_on pause os of (_, os1) \<Rightarrow> (Inr (), os1))"

definition Alarm where
  "Alarm alarm seconds = passed_on (alarm seconds)"

definition Getpgrp where
  "Getpgrp getpgrp = passed_on getpgrp"

definition Free where
  "Free free ptr = passed_on (free ptr)"

definition Freeaddrinfo where
  "Freeaddrinfo freeaddrinfo res = passed_on (freeaddrinfo res)"

definition Pthread_self where
  "Pthread_self pthread_self = passed_on pthread_self"

definition Pthread_once where
  "Pthread_once pthread_once once_control init_function =
     (\<lambda>os. case passed_on (pthread_once once_control init_function) os of (_, os1) \<Rightarrow> (Inr (), os1))"

subsection \<open>Wrappers that do more\<close>

text \<open>The end of a directory is a null pointer with \<open>errno\<close> still 0.\<close>

definition Readdir :: "('d \<Rightarrow> os \<Rightarrow> 'e option \<times> os) \<Rightarrow> 'd \<Rightarrow> os \<Rightarrow> (int + 'e option) \<times> os" where
  "Readdir readdir dirp os =
     (case readdir dirp (os\<lparr>os_errno := 0\<rparr>) of (dep, os1) \<Rightarrow>
        if dep = None \<and> os_errno os1 \<noteq> 0 then unix_error ''readdir error'' os1 else (Inr dep, os1))"

text \<open>\<open>fgets\<close> answers with null at the end of the file and on errors, which \<open>ferror\<close> tells apart.\<close>

definition Fgets ::
  "(nat \<Rightarrow> 'f \<Rightarrow> os \<Rightarrow> (string option \<times> bool) \<times> os) \<Rightarrow> nat \<Rightarrow> 'f \<Rightarrow> os \<Rightarrow> (int + string option) \<times> os" where
  "Fgets fgets n stream os =
     (case fgets n stream os of ((rptr, ferror), os1) \<Rightarrow>
        if rptr = None \<and> ferror then app_error ''Fgets error'' os1 else (Inr rptr, os1))"

definition Sigsuspend :: "('s \<Rightarrow> os \<Rightarrow> int \<times> os) \<Rightarrow> 's \<Rightarrow> os \<Rightarrow> (int + int) \<times> os" where
  "Sigsuspend sigsuspend sigs os =
     (case sigsuspend sigs os of (rc, os1) \<Rightarrow>
        if os_errno os1 \<noteq> eintr then unix_error ''Sigsuspend error'' os1 else (Inr rc, os1))"

text \<open>An interrupted \<open>sleep\<close> returns the seconds left; the loop may never see 0.\<close>

partial_function (option) Sleep :: "(nat \<Rightarrow> os \<Rightarrow> nat \<times> os) \<Rightarrow> nat \<Rightarrow> os \<Rightarrow> (nat \<times> os) option" where
  "Sleep sleep remaining os =
     (case sleep remaining os of (rc, os1) \<Rightarrow>
        if rc \<noteq> 0 then Sleep sleep rc os1 else Some (rc, os1))"

subsection \<open>Robust I/O\<close>

text \<open>The value \<open>errno\<close> has for the outcomes that \<open>Rio\<close> distinguishes.\<close>

fun errno_code :: "errno \<Rightarrow> int" where
  "errno_code E_NONE = 0"
| "errno_code E_INTR = eintr"
| "errno_code E_IO = 5"
| "errno_code E_PIPE = 32"

definition Rio_readn :: "fd \<Rightarrow> nat \<Rightarrow> os \<Rightarrow> (int + int \<times> string \<times> fd) \<times> os" where
  "Rio_readn d n = checked (negative \<circ> fst) ''Rio_readn error'' id
     (\<lambda>os. case rio_readn d n of (r, bs, d1) \<Rightarrow> ((r, bs, d1), os\<lparr>os_errno := errno_code (fd_errno d1)\<rparr>))"

definition Rio_writen :: "fd \<Rightarrow> string \<Rightarrow> os \<Rightarrow> (int + fd) \<times> os" where
  "Rio_writen d buf = checked (\<lambda>(r, d1). r \<noteq> c_int (int (length buf))) ''Rio_writen error'' snd
     (\<lambda>os. case rio_writen d buf of (r, d1) \<Rightarrow> ((r, d1), os\<lparr>os_errno := errno_code (fd_errno d1)\<rparr>))"

definition Rio_readinitb :: "rio_t \<Rightarrow> fd \<Rightarrow> rio_t" where
  "Rio_readinitb rp d = rio_readinitb d rp"

definition Rio_readnb :: "rio_t \<Rightarrow> nat \<Rightarrow> os \<Rightarrow> (int + int \<times> string \<times> rio_t) \<times> os" where
  "Rio_readnb rp n = checked (negative \<circ> fst) ''Rio_readnb error'' id
     (\<lambda>os. case rio_readnb rp n of (r, bs, rp1) \<Rightarrow>
        ((r, bs, rp1), os\<lparr>os_errno := errno_code (fd_errno (rio_fd rp1))\<rparr>))"

definition Rio_readlineb :: "rio_t \<Rightarrow> nat \<Rightarrow> os \<Rightarrow> (int + int \<times> string \<times> rio_t) \<times> os" where
  "Rio_readlineb rp maxlen = checked (negative \<circ> fst) ''Rio_readlineb error'' id
     (\<lambda>os. case rio_readlineb rp maxlen of (r, bs, rp1) \<Rightarrow>
        ((r, bs, rp1), os\<lparr>os_errno := errno_code (fd_errno (rio_fd rp1))\<rparr>))"

subsection \<open>What the wrappers promise\<close>

text \<open>
  A caller of a wrapper needs no error check: it gets the value of a call that did not report
  an error, or the process ends, with status 0, after printing the error that the call left in
  \<open>errno\<close>.
\<close>

lemma checked_result:
  assumes "checked bad msg value call os = (r, os')"
  shows "case r of
      Inr v \<Rightarrow> \<exists>rc. call os = (rc, os') \<and> \<not> bad rc \<and> v = value rc
    | Inl code \<Rightarrow> code = 0 \<and> (\<exists>rc os1. call os = (rc, os1) \<and> bad rc \<and>
        os_err os' = os_err os1 @ msg @ '': '' @ os_strerror os1 (os_errno os1) @ newline)"
  using assms
  by (auto simp: checked_def unix_error_def put_stderr_def split: prod.splits if_splits)

lemma Readdir_end:
  "readdir dirp (os\<lparr>os_errno := 0\<rparr>) = (None, os1) \<Longrightarrow> os_errno os1 = 0 \<Longrightarrow>
     Readdir readdir dirp os = (Inr None, os1)"
  by (simp add: Readdir_def)

text \<open>
  \<open>Sleep\<close> returns, and returns 0, when every interrupted sleep has made some progress.
\<close>

lemma Sleep_returns:
  assumes "\<And>n os. fst (sleep n os) < n \<or> fst (sleep n os) = 0"
  shows "\<exists>os'. Sleep sleep n os = Some (0, os')"
proof (induction n arbitrary: os rule: less_induct)
  case (less n)
  obtain rc os1 where s: "sleep n os = (rc, os1)" by (metis prod.exhaust)
  show ?case
  proof (cases "rc = 0")
    case True
    with s show ?thesis by (subst Sleep.simps) simp
  next
    case False
    with assms [of n os] s have "rc < n" by simp
    from less [OF this, of os1] False s show ?thesis by (subst Sleep.simps) simp
  qed
qed

text \<open>With reads that are only ever interrupted, the reading wrappers return, with the next bytes.\<close>

lemma Rio_readnb_returns:
  assumes "rio_ok rp" and "rd_ok (rio_fd rp)" and "n < 2 ^ 31"
  shows "\<exists>rp' os'. Rio_readnb rp n os = (Inr (int (length (take n (rest rp))), take n (rest rp), rp'), os')"
proof -
  obtain r bs rp1 where l: "rio_readnb rp n = (r, bs, rp1)" by (metis prod_cases3)
  then have "bs = [] @ bs \<and> reads rp bs rp1 \<and> length bs \<le> n \<and>
    (r = int (length bs) \<and> (length bs = n \<or> rest rp1 = []) \<or> r = -1 \<and> \<not> rd_ok (rio_fd rp))"
    using rio_readnb_loop_result [OF assms(1), of "[]" n n r bs rp1] assms(3) by (auto simp: rio_readnb_def)
  then have "bs = take n (rest rp)" "r = int (length bs)"
    using assms(2) by (auto simp: reads_def)
  with l show ?thesis by (simp add: Rio_readnb_def checked_def negative_def)
qed

end
