(* ===== verification/Sio.thy ===== *)
theory Sio
  imports Framing
begin

text \<open>
  The signal-safe output functions of \<open>src/csapp.cpp\<close>. A C string is its characters without the
  terminating 0. \<open>sio_ltoa\<close>, digits in the order of increasing weight and then reversed in
  place, is shown to be \<open>std::to_string\<close> for every \<open>long\<close> but the smallest, whose negation
  overflows.
\<close>

definition long_max :: int where
  "long_max = 2 ^ 63 - 1"

definition long_min :: int where
  "long_min = - (2 ^ 63)"

subsection \<open>Private functions\<close>

function sio_reverse_loop :: "nat \<Rightarrow> int \<Rightarrow> string \<Rightarrow> string" where
  "sio_reverse_loop i j s =
     (if int i < j then
        let c = s ! i; s1 = s[i := s ! nat j]; s2 = s1[nat j := c]
        in sio_reverse_loop (i + 1) (j - 1) s2
      else s)"
  by pat_completeness auto
termination
  by (relation "measure (\<lambda>(i, j, s). nat (j - int i))") auto

declare sio_reverse_loop.simps [simp del]

definition sio_reverse :: "string \<Rightarrow> string" where
  "sio_reverse s = sio_reverse_loop 0 (int (length s) - 1) s"

definition base_digit :: "int \<Rightarrow> char" where
  "base_digit c = (if c < 10 then char_of (nat c + 48) else char_of (nat (c - 10) + 97))"

text \<open>The digit loop; it would not end for a base of 1, hence the option.\<close>

partial_function (option) ltoa_digits :: "int \<Rightarrow> int \<Rightarrow> string \<Rightarrow> string option" where
  "ltoa_digits v b s =
     (let s1 = s @ [base_digit (v mod b)]; v1 = v div b
      in if v1 > 0 then ltoa_digits v1 b s1 else Some s1)"

definition sio_ltoa :: "int \<Rightarrow> int \<Rightarrow> string res option" where
  "sio_ltoa v b =
     (if v = long_min then Some (Inl (Fatal ''signed integer overflow''))
      else
        let neg = v < 0; v1 = (if neg then - v else v) in
        map_option (\<lambda>s. Inr (sio_reverse (if neg then s @ ''-'' else s))) (ltoa_digits v1 b []))"

fun sio_strlen :: "string \<Rightarrow> nat" where
  "sio_strlen [] = 0"
| "sio_strlen (c # cs) = (if c \<noteq> CHR 0x00 then 1 + sio_strlen cs else 0)"

subsection \<open>Public functions\<close>

definition sio_puts :: "string \<Rightarrow> fd \<Rightarrow> int \<times> fd" where
  "sio_puts s d = sys_write d (take (sio_strlen (s @ [CHR 0x00])) s)"

definition sio_putl :: "int \<Rightarrow> fd \<Rightarrow> (int \<times> fd) res option" where
  "sio_putl v d = map_option (\<lambda>r. bindR r (\<lambda>s. Inr (sio_puts s d))) (sio_ltoa v 10)"

text \<open>The process exits: \<open>Inl\<close> with its status.\<close>

definition sio_error :: "string \<Rightarrow> fd \<Rightarrow> (int + 'a) \<times> fd" where
  "sio_error s d = (case sio_puts s d of (_, d1) \<Rightarrow> (Inl 1, d1))"

definition Sio_puts :: "string \<Rightarrow> fd \<Rightarrow> (int + int) \<times> fd" where
  "Sio_puts s d =
     (case sio_puts s d of (n, d1) \<Rightarrow>
        if n < 0 then sio_error ''Sio_puts error'' d1 else (Inr n, d1))"

definition Sio_putl :: "int \<Rightarrow> fd \<Rightarrow> ((int + int) \<times> fd) res option" where
  "Sio_putl v d =
     map_option (\<lambda>r. bindR r (\<lambda>(n, d1).
        Inr (if n < 0 then sio_error ''Sio_putl error'' d1 else (Inr n, d1)))) (sio_putl v d)"

definition Sio_error :: "string \<Rightarrow> fd \<Rightarrow> (int + 'a) \<times> fd" where
  "Sio_error s d = sio_error s d"

subsection \<open>Reversal in place\<close>

text \<open>What is left to do after \<open>i\<close> steps: the middle part.\<close>

lemma sio_reverse_loop_mid:
  "length a = i \<Longrightarrow>
     sio_reverse_loop i (int (i + length m) - 1) (a @ m @ c) = a @ rev m @ c"
proof (induction "length m" arbitrary: i a m c rule: less_induct)
  case less
  show ?case
  proof (cases "length m \<le> 1")
    case True
    then have "rev m = m" by (cases m) auto
    with True show ?thesis by (simp add: sio_reverse_loop.simps [of i])
  next
    case False
    then obtain x n where n: "m = x # n" "n \<noteq> []" by (cases m) auto
    define m' where "m' = butlast n"
    define y where "y = last n"
    have m: "m = x # m' @ [y]" using n by (simp add: m'_def y_def)
    let ?j = "i + length m' + 1" and ?s = "a @ m @ c"
    have j: "int (i + length m) - 1 = int ?j" by (simp add: m)
    have at: "?s ! i = x" "?s ! ?j = y"
      using less.prems by (simp_all add: m nth_append)
    have upd: "?s[i := y, ?j := x] = (a @ [y]) @ m' @ (x # c)"
      using less.prems by (simp add: m list_update_append)
    have "sio_reverse_loop i (int ?j) ?s = sio_reverse_loop (i + 1) (int ?j - 1) (?s[i := y, ?j := x])"
      by (subst sio_reverse_loop.simps) (simp only: at nat_int Let_def, simp)
    also have "\<dots> = sio_reverse_loop (i + 1) (int (i + 1 + length m') - 1) ((a @ [y]) @ m' @ (x # c))"
      unfolding upd by simp
    also have "\<dots> = (a @ [y]) @ rev m' @ (x # c)"
      using less.prems by (intro less.hyps) (simp_all add: m)
    finally show ?thesis unfolding j by (simp add: m)
  qed
qed

lemma sio_reverse_rev: "sio_reverse s = rev s"
  using sio_reverse_loop_mid [of "[]" 0 s "[]"] by (simp add: sio_reverse_def)

subsection \<open>Conversion\<close>

lemma base_digit_dec: "0 \<le> c \<Longrightarrow> c < 10 \<Longrightarrow> base_digit c = digit_char (nat c)"
  by (simp add: base_digit_def digit_char_def add.commute)

lemma ltoa_digits_dec:
  "ltoa_digits (int n) 10 s = Some (s @ rev (dec_digits n))"
proof (induction n arbitrary: s rule: dec_digits.induct)
  case (1 n)
  have d: "base_digit (int n mod 10) = digit_char (n mod 10)"
    by (subst base_digit_dec) (simp_all add: nat_mod_distrib)
  have q: "int n div 10 = int (n div 10)" by simp
  show ?case
  proof (cases "n < 10")
    case True
    then show ?thesis
      using d by (subst ltoa_digits.simps, subst dec_digits.simps) (simp add: Let_def)
  next
    case False
    have "ltoa_digits (int n) 10 s = ltoa_digits (int (n div 10)) 10 (s @ [digit_char (n mod 10)])"
    proof -
      have "0 < n div 10" using False by simp
      with d show ?thesis by (subst ltoa_digits.simps) (simp add: Let_def q del: of_nat_div)
    qed
    also have "\<dots> = Some ((s @ [digit_char (n mod 10)]) @ rev (dec_digits (n div 10)))"
      using False by (rule "1.IH")
    finally have "ltoa_digits (int n) 10 s =
        Some ((s @ [digit_char (n mod 10)]) @ rev (dec_digits (n div 10)))" .
    moreover have "dec_digits n = dec_digits (n div 10) @ [digit_char (n mod 10)]"
      using False by (subst dec_digits.simps) simp
    ultimately show ?thesis by simp
  qed
qed

lemma sio_ltoa_to_string:
  assumes "v \<noteq> long_min"
  shows "sio_ltoa v 10 = Some (Inr (to_string v))"
proof -
  have "ltoa_digits (int (nat \<bar>v\<bar>)) 10 [] = Some (rev (dec_digits (nat \<bar>v\<bar>)))"
    by (simp only: ltoa_digits_dec append_Nil)
  with assms show ?thesis
    by (cases "v < 0") (simp_all add: sio_ltoa_def sio_reverse_rev to_string_def)
qed

lemma sio_strlen_text: "CHR 0x00 \<notin> set s \<Longrightarrow> sio_strlen (s @ [CHR 0x00]) = length s"
  by (induction s) auto

lemma to_string_no_nul: "CHR 0x00 \<notin> set (to_string v)"
proof -
  have "CHR 0x00 \<notin> set (dec_digits n)" for n
    using dec_digits_digits [of n] by (auto simp: is_digit_def)
  then show ?thesis by (simp add: to_string_def)
qed

lemma to_string_long:
  assumes "long_min < v" and "v \<le> long_max"
  shows "length (to_string v) \<le> 20"
proof -
  have "nat \<bar>v\<bar> < 10 ^ Suc 18"
    using assms by (simp add: long_min_def long_max_def)
  from length_dec_digits_le [OF this] show ?thesis
    by (cases "v < 0") (simp_all add: to_string_def)
qed

text \<open>
  The signal-safe printing of a \<open>long\<close> is \<open>std::to_string\<close>. For every value but the
  smallest, \<open>sio_putl\<close> hands exactly the decimal text of the value to one \<open>write\<close>, and the text
  with its terminator fits the buffer of 128 characters; for the smallest value, negating it
  is signed overflow.
\<close>

theorem sio_putl_is_to_string:
  assumes "long_min \<le> v" and "v \<le> long_max"
  shows "sio_putl v d =
      Some (if v = long_min then Inl (Fatal ''signed integer overflow'')
            else Inr (sys_write d (to_string v))) \<and>
    (v \<noteq> long_min \<longrightarrow> length (to_string v) + 1 \<le> 128)"
proof (cases "v = long_min")
  case True
  then show ?thesis by (simp add: sio_putl_def sio_ltoa_def)
next
  case False
  then have "sio_putl v d = Some (Inr (sys_write d (to_string v)))"
    by (simp add: sio_putl_def sio_ltoa_to_string sio_puts_def sio_strlen_text to_string_no_nul)
  moreover have "length (to_string v) \<le> 20"
    using assms False by (intro to_string_long) simp_all
  ultimately show ?thesis using False by simp
qed

lemma sio_putl_is_to_string_witness:
  "sio_putl (-1080) (plain_fd []) = Some (Inr (sys_write (plain_fd []) ''-1080'')) \<and>
   sio_putl long_min (plain_fd []) = Some (Inl (Fatal ''signed integer overflow''))"
proof -
  have "to_string (-1080) = ''-1080''" by code_simp
  then show ?thesis
    using sio_putl_is_to_string [of "-1080" "plain_fd []"] sio_putl_is_to_string [of long_min "plain_fd []"]
    by (simp add: long_min_def long_max_def)
qed

end
