(* ===== verification/Tmp_File.thy ===== *)
theory Tmp_File
  imports Network Framing
begin

text \<open>
  The class \<open>TmpFile\<close> of \<open>src/io_tests.cpp\<close>, and the part of the file system it uses: the
  regular files with their contents, the open descriptors, the outcomes of the coming calls of
  \<open>mkstemp\<close>, \<open>open\<close> and \<open>unlink\<close> (all succeed when the list is used up), the outcomes of the reads and
  writes through each descriptor that will be opened (all complete when the list is used up), and the
  suffixes \<open>mkstemp\<close> tries. A read or write fails when the descriptor is not open for it.
  An operation of a \<open>TmpFile\<close> returns its result, or what it throws, with the object and the
  disk after it.
\<close>

subsection \<open>The file system\<close>

record open_file =
  open_name :: string
  open_writable :: bool
  open_fd :: fd

record disk =
  disk_files :: "(string \<times> string) list"
  disk_open :: "(nat \<times> open_file) list"
  disk_calls :: "call list"
  disk_io :: "(rd_event list \<times> wr_event list) list"
  disk_suffixes :: "string list"

definition disk_call :: "disk \<Rightarrow> bool \<times> disk" where
  "disk_call dk =
     (case disk_calls dk of
        [] \<Rightarrow> (True, dk)
      | c # cs \<Rightarrow> (c = Call_Ok, dk\<lparr>disk_calls := cs\<rparr>))"

text \<open>\<open>/dev/null\<close> always exists and is always empty.\<close>

definition dev_null :: string where
  "dev_null = ''/dev/null''"

definition file_content :: "string \<Rightarrow> disk \<Rightarrow> string option" where
  "file_content name dk = (if name = dev_null then Some [] else map_of (disk_files dk) name)"

definition disk_fds :: "disk \<Rightarrow> nat list" where
  "disk_fds dk = List.map fst (disk_open dk)"

definition next_io :: "disk \<Rightarrow> (rd_event list \<times> wr_event list) \<times> disk" where
  "next_io dk =
     (case disk_io dk of [] \<Rightarrow> (([], []), dk) | io # ios \<Rightarrow> (io, dk\<lparr>disk_io := ios\<rparr>))"

definition open_as :: "string \<Rightarrow> bool \<Rightarrow> string \<Rightarrow> disk \<Rightarrow> int \<times> disk" where
  "open_as name writable content dk =
     (case next_io dk of ((rd, wr), dk1) \<Rightarrow>
        let n = free_fd (disk_fds dk1); d = (plain_fd content)\<lparr>fd_rd := rd, fd_wr := wr\<rparr> in
        (int n, dk1\<lparr>disk_open :=
           (n, \<lparr>open_name = name, open_writable = writable, open_fd = d\<rparr>) # disk_open dk1\<rparr>))"

text \<open>\<open>open\<close> without \<open>O_CREAT\<close>, for writing only or reading only.\<close>

definition sys_open :: "string \<Rightarrow> bool \<Rightarrow> disk \<Rightarrow> int \<times> disk" where
  "sys_open name writable dk =
     (case disk_call dk of (ok, dk1) \<Rightarrow>
        case file_content name dk1 of
          Some content \<Rightarrow> if ok then open_as name writable content dk1 else (-1, dk1)
        | None \<Rightarrow> (-1, dk1))"

text \<open>The six letters \<open>X\<close> at the end of the template become the first suffix that gives a new name.\<close>

definition temp_name :: "string \<Rightarrow> disk \<Rightarrow> string option" where
  "temp_name template dk =
     List.find (\<lambda>name. file_content name dk = None)
       (List.map (\<lambda>s. take (length template - 6) template @ s) (disk_suffixes dk))"

definition sys_mkstemp :: "string \<Rightarrow> disk \<Rightarrow> int \<times> string \<times> disk" where
  "sys_mkstemp template dk =
     (case disk_call dk of (ok, dk1) \<Rightarrow>
        case temp_name template dk1 of
          Some name \<Rightarrow>
            if ok
            then (case open_as name True [] (dk1\<lparr>disk_files := (name, []) # disk_files dk1\<rparr>) of
                    (fd, dk2) \<Rightarrow> (fd, name, dk2))
            else (-1, template, dk1)
        | None \<Rightarrow> (-1, template, dk1))"

definition disk_close :: "int \<Rightarrow> disk \<Rightarrow> disk" where
  "disk_close fd dk = dk\<lparr>disk_open := filter (\<lambda>p. fst p \<noteq> nat fd) (disk_open dk)\<rparr>"

definition sys_unlink :: "string \<Rightarrow> disk \<Rightarrow> disk" where
  "sys_unlink name dk =
     (case disk_call dk of (ok, dk1) \<Rightarrow>
        if ok then dk1\<lparr>disk_files := filter (\<lambda>p. fst p \<noteq> name) (disk_files dk1)\<rparr> else dk1)"

text \<open>
  Reading and writing through a descriptor. A write goes over the content from its start, as the
  descriptor has written from there; a descriptor that is not open for writing, or not open, fails.
\<close>

definition written :: "fd \<Rightarrow> string \<Rightarrow> string" where
  "written d content = fd_out d @ drop (length (fd_out d)) content"

definition for_use :: "bool \<Rightarrow> fd \<Rightarrow> fd" where
  "for_use writable d = (if writable then d\<lparr>fd_rd := [Rd_Fail E_IO]\<rparr> else d\<lparr>fd_wr := [Wr_Fail E_IO]\<rparr>)"

definition with_fd :: "int \<Rightarrow> (fd \<Rightarrow> 'r \<times> fd) \<Rightarrow> disk \<Rightarrow> 'r \<times> disk" where
  "with_fd fd f dk =
     (case map_of (disk_open dk) (nat fd) of
        None \<Rightarrow> (fst (f (for_use True (for_use False (plain_fd [])))), dk)
      | Some h \<Rightarrow>
          (case f (for_use (open_writable h) (open_fd h)) of (r, d) \<Rightarrow>
             (r, dk\<lparr>disk_open := List.map (\<lambda>p. if fst p = nat fd then (fst p, h\<lparr>open_fd := d\<rparr>) else p) (disk_open dk),
                    disk_files := List.map (\<lambda>p. if open_writable h \<and> fst p = open_name h
                      then (fst p, written d (snd p)) else p) (disk_files dk)\<rparr>)))"

text \<open>A disk without files, the three standard descriptors open.\<close>

definition disk_init :: disk where
  "disk_init =
     \<lparr>disk_files = [],
      disk_open = List.map (\<lambda>n. (n, \<lparr>open_name = ''/dev/tty'', open_writable = True, open_fd = plain_fd []\<rparr>)) [0, 1, 2],
      disk_calls = [], disk_io = [], disk_suffixes = [''a1B2c3'']\<rparr>"

subsection \<open>TmpFile\<close>

record tmp_file =
  filename :: string
  created :: bool
  writefd :: int
  readfd :: int

type_synonym 'a file_method = "tmp_file \<Rightarrow> disk \<Rightarrow> 'a res \<times> tmp_file \<times> disk"

definition TmpFile :: "disk \<Rightarrow> tmp_file res \<times> disk" where
  "TmpFile dk =
     (case sys_mkstemp ''iotestXXXXXX'' dk of (fd, name, dk1) \<Rightarrow>
        if fd < 0 then (Inl (Std_exception ''could not open temp file''), dk1)
        else (Inr \<lparr>filename = name, created = True, writefd = fd, readfd = -1\<rparr>, dk1))"

definition TmpFile_named :: "string \<Rightarrow> disk \<Rightarrow> tmp_file res \<times> disk" where
  "TmpFile_named fname dk =
     (if \<not> length fname < 20 then (Inl (Fatal ''assert''), dk)
      else
        (case sys_open fname True dk of (fd, dk1) \<Rightarrow>
           if fd < 0 then (Inl (Std_exception (''could not open '' @ [CHR 0x27] @ fname @ [CHR 0x27] @ '' for writing'')), dk1)
           else (Inr \<lparr>filename = fname, created = False, writefd = fd, readfd = -1\<rparr>, dk1)))"

definition TmpFile_destroy :: "tmp_file \<Rightarrow> disk \<Rightarrow> disk" where
  "TmpFile_destroy this dk =
     (let dk1 = (if writefd this \<ge> 0 then disk_close (writefd this) dk else dk);
          dk2 = (if readfd this \<ge> 0 then disk_close (readfd this) dk1 else dk1)
      in if created this then sys_unlink (filename this) dk2 else dk2)"

definition reopen_as_readonly :: "unit file_method" where
  "reopen_as_readonly this dk =
     (if \<not> writefd this \<ge> 0 then (Inl (Fatal ''assert''), this, dk)
      else
        (case sys_open (filename this) False (disk_close (writefd this) dk) of (fd, dk1) \<Rightarrow>
           let this1 = this\<lparr>writefd := fd\<rparr> in
           if fd < 0
           then (Inl (Std_exception (''couldn'' @ [CHR 0x27] @ ''t reopen temp file as read-only?'')), this1, dk1)
           else (Inr (), this1, dk1)))"

definition get_write_fd :: "int file_method" where
  "get_write_fd this dk =
     (if \<not> writefd this \<ge> 0 then (Inl (Fatal ''assert''), this, dk) else (Inr (writefd this), this, dk))"

definition write_string :: "string \<Rightarrow> unit file_method" where
  "write_string s this dk =
     (if \<not> writefd this \<ge> 0 then (Inl (Fatal ''assert''), this, dk)
      else
        (case with_fd (writefd this) (\<lambda>d. rio_writen d s) dk of (n, dk1) \<Rightarrow>
           if n \<noteq> int (length s)
           then (Inl (Std_exception (''couldn'' @ [CHR 0x27] @ ''t write to temp file'')), this, dk1)
           else (Inr (), this, dk1)))"

definition done_writing :: "unit file_method" where
  "done_writing this dk =
     (if \<not> writefd this \<ge> 0 then (Inl (Fatal ''assert''), this, dk)
      else
        (case sys_open (filename this) False (disk_close (writefd this) dk) of (fd, dk1) \<Rightarrow>
           let this1 = this\<lparr>writefd := -1, readfd := fd\<rparr> in
           if fd < 0 then (Inl (Std_exception ''could not re-open temp file for reading''), this1, dk1)
           else (Inr (), this1, dk1)))"

definition get_read_fd :: "int file_method" where
  "get_read_fd this dk =
     (if \<not> readfd this \<ge> 0 then (Inl (Fatal ''assert''), this, dk) else (Inr (readfd this), this, dk))"

lemma read_shrinks:
  assumes "sys_read d 1024 = (n, bs, d1)" and "0 < n"
  shows "length (fd_in d1) < length (fd_in d)"
  using sys_read_spec [OF assms(1)] assms(2) by auto

function read_string_loop :: "string \<Rightarrow> fd \<Rightarrow> string res \<times> fd" where
  "read_string_loop s d =
     (case sys_read d 1024 of (n, buf, d1) \<Rightarrow>
        if n > 0 then read_string_loop (s @ buf) d1
        else if n < 0 then (Inl (Std_exception ''error reading from temp file''), d1)
        else (Inr s, d1))"
  by pat_completeness auto
termination
  by (relation "measure (\<lambda>(s, d). length (fd_in d))") (auto dest: read_shrinks [OF sym])

declare read_string_loop.simps [simp del]

definition read_string :: "string file_method" where
  "read_string this dk =
     (if \<not> readfd this \<ge> 0 then (Inl (Fatal ''assert''), this, dk)
      else (case with_fd (readfd this) (read_string_loop []) dk of (r, dk1) \<Rightarrow> (r, this, dk1)))"

text \<open>\<open>IO::send(s, tf.get_write_fd())\<close> and \<open>IO::receive(tf.get_read_fd(), s)\<close>.\<close>

definition send_to :: "string \<Rightarrow> unit file_method" where
  "send_to s this dk =
     (case get_write_fd this dk of
        (Inl e, r) \<Rightarrow> (Inl e, r)
      | (Inr fd, this1, dk1) \<Rightarrow> (case with_fd fd (io_send s) dk1 of (r, dk2) \<Rightarrow> (r, this1, dk2)))"

definition receive_from :: "string file_method" where
  "receive_from this dk =
     (case get_read_fd this dk of
        (Inl e, r) \<Rightarrow> (Inl e, r)
      | (Inr fd, this1, dk1) \<Rightarrow> (case with_fd fd io_receive dk1 of (r, dk2) \<Rightarrow> (r, this1, dk2)))"

subsection \<open>The destructor undoes everything\<close>

text \<open>
  A disk that was \<open>dk0\<close> before an object created its file, with the descriptors \<open>F\<close> the object
  holds.
\<close>

definition owns :: "disk \<Rightarrow> string \<Rightarrow> nat set \<Rightarrow> disk \<Rightarrow> bool" where
  "owns dk0 name F dk \<longleftrightarrow>
     filter (\<lambda>p. fst p \<noteq> name) (disk_files dk) = disk_files dk0 \<and>
     filter (\<lambda>p. fst p \<notin> F) (disk_open dk) = disk_open dk0 \<and>
     (\<forall>p\<in>set (disk_open dk). fst p \<in> F \<longrightarrow> open_name (snd p) = name)"

lemma owns_close: "owns dk0 name (insert (nat fd) F) dk \<Longrightarrow> owns dk0 name F (disk_close fd dk)"
  by (simp add: owns_def disk_close_def)

lemma next_io_same: "next_io dk = (io, dk') \<Longrightarrow> disk_files dk' = disk_files dk \<and> disk_open dk' = disk_open dk"
  by (auto simp: next_io_def split: list.splits)

lemma owns_open:
  assumes "owns dk0 name F dk" and "open_as name w content dk = (fd, dk')"
  shows "0 \<le> fd \<and> owns dk0 name (insert (nat fd) F) dk'"
proof -
  obtain rd wr dk1 where io: "next_io dk = ((rd, wr), dk1)" by (metis prod.exhaust)
  note same = next_io_same [OF io]
  let ?n = "free_fd (disk_fds dk)"
  have n: "free_fd (disk_fds dk1) = ?n" by (simp add: disk_fds_def same)
  have "?n \<notin> fst ` set (disk_open dk)"
    using free_fd_fresh [of "disk_fds dk"] by (simp add: disk_fds_def)
  then have "filter (\<lambda>p. fst p \<notin> insert ?n F) (disk_open dk) = filter (\<lambda>p. fst p \<notin> F) (disk_open dk)"
    by (intro filter_cong) force+
  moreover have "(?n, h) \<notin> set (disk_open dk)" for h
    using \<open>?n \<notin> _\<close> by force
  ultimately show ?thesis
    using assms io same by (auto simp: owns_def open_as_def Let_def n)
qed

lemma disk_call_same: "disk_call dk = (ok, dk') \<Longrightarrow> disk_files dk' = disk_files dk \<and> disk_open dk' = disk_open dk"
  by (auto simp: disk_call_def split: list.splits)

lemma owns_same:
  "disk_files dk' = disk_files dk \<Longrightarrow> disk_open dk' = disk_open dk \<Longrightarrow> owns dk0 name F dk' = owns dk0 name F dk"
  by (simp add: owns_def)

lemma owns_sys_open:
  assumes "owns dk0 name F dk" and "sys_open name w dk = (fd, dk')"
  shows "fd = -1 \<and> owns dk0 name F dk' \<or> 0 \<le> fd \<and> owns dk0 name (insert (nat fd) F) dk'"
proof -
  obtain ok dk1 where c: "disk_call dk = (ok, dk1)" by fastforce
  then have "owns dk0 name F dk1" using disk_call_same owns_same assms(1) by metis
  with assms(2) c owns_open [OF this] show ?thesis
    by (auto simp: sys_open_def split: option.splits if_splits)
qed

lemma filter_map_entries:
  "(\<And>p. p \<in> set xs \<Longrightarrow> Q p \<Longrightarrow> \<not> P p \<and> \<not> P (fst p, g p)) \<Longrightarrow>
     filter P (List.map (\<lambda>p. if Q p then (fst p, g p) else p) xs) = filter P xs"
  by (induction xs) auto

lemma owns_with_fd:
  assumes "owns dk0 name F dk" and "nat fd \<in> F" and "with_fd fd f dk = (r, dk')"
  shows "owns dk0 name F dk'"
proof (cases "map_of (disk_open dk) (nat fd)")
  case None
  with assms show ?thesis by (simp add: with_fd_def)
next
  case (Some h)
  then have h: "open_name h = name"
    using assms(1,2) map_of_SomeD [OF Some] by (force simp: owns_def)
  obtain d where d: "f (for_use (open_writable h) (open_fd h)) = (r, d)"
    using assms(3) Some by (auto simp: with_fd_def split: prod.splits)
  let ?opens = "List.map (\<lambda>p. if fst p = nat fd then (fst p, h\<lparr>open_fd := d\<rparr>) else p) (disk_open dk)"
  let ?files = "List.map (\<lambda>p. if open_writable h \<and> fst p = open_name h
    then (fst p, written d (snd p)) else p) (disk_files dk)"
  have "filter (\<lambda>p. fst p \<notin> F) ?opens = filter (\<lambda>p. fst p \<notin> F) (disk_open dk)"
    by (rule filter_map_entries) (use assms(2) in auto)
  moreover have "filter (\<lambda>p. fst p \<noteq> name) ?files = filter (\<lambda>p. fst p \<noteq> name) (disk_files dk)"
    by (rule filter_map_entries) (use h in auto)
  moreover have "open_name (snd p) = name" if "p \<in> set ?opens" "fst p \<in> F" for p
    using that assms(1) h by (auto simp: owns_def)
  moreover have "dk' = dk\<lparr>disk_open := ?opens, disk_files := ?files\<rparr>"
    using assms(3) Some d by (simp add: with_fd_def)
  ultimately show ?thesis using assms(1) by (simp add: owns_def)
qed

text \<open>The descriptors an object holds.\<close>

definition held :: "tmp_file \<Rightarrow> nat set" where
  "held this = (if writefd this \<ge> 0 then {nat (writefd this)} else {}) \<union>
     (if readfd this \<ge> 0 then {nat (readfd this)} else {})"

definition tmp_ok :: "disk \<Rightarrow> tmp_file \<Rightarrow> disk \<Rightarrow> bool" where
  "tmp_ok dk0 this dk \<longleftrightarrow> created this \<and> (writefd this \<ge> 0 \<longrightarrow> readfd this < 0) \<and>
     owns dk0 (filename this) (held this) dk"

definition keeps :: "'a file_method \<Rightarrow> bool" where
  "keeps m \<longleftrightarrow> (\<forall>dk0 this dk r this' dk'. tmp_ok dk0 this dk \<longrightarrow> m this dk = (r, this', dk') \<longrightarrow>
     tmp_ok dk0 this' dk')"

lemma keepsI:
  "(\<And>dk0 this dk r this' dk'. tmp_ok dk0 this dk \<Longrightarrow> m this dk = (r, this', dk') \<Longrightarrow> tmp_ok dk0 this' dk') \<Longrightarrow>
     keeps m"
  by (auto simp: keeps_def)

lemma tmp_ok_with_fd:
  assumes "tmp_ok dk0 this dk" and "fd \<ge> 0" and "fd = writefd this \<or> fd = readfd this"
    and "with_fd fd f dk = (r, dk')"
  shows "tmp_ok dk0 this dk'"
  using assms owns_with_fd [OF _ _ assms(4), of dk0 "filename this" "held this"]
  by (auto simp: tmp_ok_def held_def)

text \<open>Closing the descriptor for writing and opening the file again.\<close>

lemma tmp_ok_reopen:
  assumes "tmp_ok dk0 this dk" and "writefd this \<ge> 0"
    and "sys_open (filename this) w (disk_close (writefd this) dk) = (fd, dk')"
  shows "tmp_ok dk0 (this\<lparr>writefd := fd\<rparr>) dk'" and "tmp_ok dk0 (this\<lparr>writefd := -1, readfd := fd\<rparr>) dk'"
proof -
  have "owns dk0 (filename this) {} (disk_close (writefd this) dk)"
    using assms(1,2) by (intro owns_close) (auto simp: tmp_ok_def held_def split: if_splits)
  from owns_sys_open [OF this assms(3)] assms(1,2)
  show "tmp_ok dk0 (this\<lparr>writefd := fd\<rparr>) dk'" and "tmp_ok dk0 (this\<lparr>writefd := -1, readfd := fd\<rparr>) dk'"
    by (auto simp: tmp_ok_def held_def)
qed

lemma keeps_reopen [intro]: "keeps reopen_as_readonly"
  by (rule keepsI) (auto simp: reopen_as_readonly_def Let_def dest: tmp_ok_reopen(1) split: if_splits prod.splits)

lemma keeps_done [intro]: "keeps done_writing"
  by (rule keepsI) (auto simp: done_writing_def Let_def dest: tmp_ok_reopen(2) split: if_splits prod.splits)

lemma keeps_write [intro]: "keeps (write_string s)"
  by (rule keepsI) (auto simp: write_string_def intro: tmp_ok_with_fd split: if_splits prod.splits)

lemma keeps_read [intro]: "keeps read_string"
  by (rule keepsI) (auto simp: read_string_def intro: tmp_ok_with_fd split: if_splits prod.splits)

lemma keeps_send [intro]: "keeps (send_to s)"
  by (rule keepsI)
    (auto simp: send_to_def get_write_fd_def intro: tmp_ok_with_fd split: if_splits prod.splits)

lemma keeps_receive [intro]: "keeps receive_from"
  by (rule keepsI)
    (auto simp: receive_from_def get_read_fd_def intro: tmp_ok_with_fd split: if_splits prod.splits)

lemma TmpFile_ok:
  assumes "TmpFile dk = (r, dk1)"
  shows "case r of Inl e \<Rightarrow> disk_files dk1 = disk_files dk \<and> disk_open dk1 = disk_open dk
    | Inr this \<Rightarrow> tmp_ok dk this dk1"
proof -
  obtain ok dk2 where c: "disk_call dk = (ok, dk2)" by fastforce
  note C = disk_call_same [OF c]
  show ?thesis
  proof (cases "\<exists>name. temp_name ''iotestXXXXXX'' dk2 = Some name \<and> ok")
    case False
    with assms c C show ?thesis
      by (auto simp: TmpFile_def sys_mkstemp_def split: option.splits if_splits)
  next
    case True
    then obtain name where n: "temp_name ''iotestXXXXXX'' dk2 = Some name" and ok by blast
    obtain fd dk3 where o: "open_as name True [] (dk2\<lparr>disk_files := (name, []) # disk_files dk2\<rparr>) = (fd, dk3)"
      by fastforce
    have "file_content name dk2 = None"
      using n by (auto simp: temp_name_def find_Some_iff)
    then have "filter (\<lambda>p. fst p \<noteq> name) (disk_files dk2) = disk_files dk2"
      by (auto simp: file_content_def filter_id_conv map_of_eq_None_iff split: if_splits)
    then have "owns dk name {} (dk2\<lparr>disk_files := (name, []) # disk_files dk2\<rparr>)"
      using C by (simp add: owns_def)
    from owns_open [OF this o] assms c n \<open>ok\<close> o show ?thesis
      by (auto simp: TmpFile_def sys_mkstemp_def tmp_ok_def held_def)
  qed
qed

text \<open>Whether the coming call of \<open>unlink\<close> succeeds; closing a descriptor does not change it.\<close>

definition unlink_succeeds :: "disk \<Rightarrow> bool" where
  "unlink_succeeds dk = fst (disk_call dk)"

lemma unlink_succeeds_close [simp]: "unlink_succeeds (disk_close fd dk) = unlink_succeeds dk"
  by (simp add: disk_call_def unlink_succeeds_def disk_close_def split: list.split)

lemma owns_unlink:
  assumes "owns dk0 name {} dk"
  shows "disk_open (sys_unlink name dk) = disk_open dk0"
    and "filter (\<lambda>p. fst p \<noteq> name) (disk_files (sys_unlink name dk)) = disk_files dk0"
    and "unlink_succeeds dk \<Longrightarrow> disk_files (sys_unlink name dk) = disk_files dk0"
proof -
  obtain ok dk1 where c: "disk_call dk = (ok, dk1)" by fastforce
  with disk_call_same [OF c] assms
  show "disk_open (sys_unlink name dk) = disk_open dk0"
    and "filter (\<lambda>p. fst p \<noteq> name) (disk_files (sys_unlink name dk)) = disk_files dk0"
    and "unlink_succeeds dk \<Longrightarrow> disk_files (sys_unlink name dk) = disk_files dk0"
    by (auto simp: owns_def sys_unlink_def unlink_succeeds_def
        simp flip: \<open>owns dk0 name {} dk\<close> [unfolded owns_def, THEN conjunct1])
qed

lemma destroy_undoes:
  assumes "tmp_ok dk0 this dk"
  shows "disk_open (TmpFile_destroy this dk) = disk_open dk0"
    and "filter (\<lambda>p. fst p \<noteq> filename this) (disk_files (TmpFile_destroy this dk)) = disk_files dk0"
    and "unlink_succeeds dk \<Longrightarrow> disk_files (TmpFile_destroy this dk) = disk_files dk0"
proof -
  obtain dk2 where d: "TmpFile_destroy this dk = sys_unlink (filename this) dk2"
    and o: "owns dk0 (filename this) {} dk2" and u: "unlink_succeeds dk2 = unlink_succeeds dk"
  proof
    let ?dk1 = "if writefd this \<ge> 0 then disk_close (writefd this) dk else dk"
    let ?dk2 = "if readfd this \<ge> 0 then disk_close (readfd this) ?dk1 else ?dk1"
    show "TmpFile_destroy this dk = sys_unlink (filename this) ?dk2"
      using assms by (simp add: TmpFile_destroy_def tmp_ok_def Let_def)
    show "owns dk0 (filename this) {} ?dk2"
      using assms by (auto simp: tmp_ok_def held_def intro: owns_close)
    show "unlink_succeeds ?dk2 = unlink_succeeds dk" by simp
  qed
  from owns_unlink [OF o] u
  show "disk_open (TmpFile_destroy this dk) = disk_open dk0"
    and "filter (\<lambda>p. fst p \<noteq> filename this) (disk_files (TmpFile_destroy this dk)) = disk_files dk0"
    and "unlink_succeeds dk \<Longrightarrow> disk_files (TmpFile_destroy this dk) = disk_files dk0"
    by (simp_all add: d)
qed

subsection \<open>A local object\<close>

datatype tmp_op =
    Reopen_readonly
  | Write_string string
  | Done_writing
  | Send string
  | Receive
  | Read_all

definition no_value :: "'a file_method \<Rightarrow> unit file_method" where
  "no_value m this dk =
     (case m this dk of (r, this1, dk1) \<Rightarrow> (case r of Inl e \<Rightarrow> Inl e | Inr _ \<Rightarrow> Inr (), this1, dk1))"

fun run_op :: "tmp_op \<Rightarrow> unit file_method" where
  "run_op Reopen_readonly = reopen_as_readonly"
| "run_op (Write_string s) = write_string s"
| "run_op Done_writing = done_writing"
| "run_op (Send s) = send_to s"
| "run_op Receive = no_value receive_from"
| "run_op Read_all = no_value read_string"

text \<open>A sequence of operations in the scope of the object ends at the first exception.\<close>

fun run_ops :: "tmp_op list \<Rightarrow> unit file_method" where
  "run_ops [] this dk = (Inr (), this, dk)"
| "run_ops (p # ops) this dk =
     (case run_op p this dk of
        (Inl e, this1, dk1) \<Rightarrow> (Inl e, this1, dk1)
      | (Inr _, this1, dk1) \<Rightarrow> run_ops ops this1 dk1)"

lemma keepsD: "keeps m \<Longrightarrow> tmp_ok dk0 this dk \<Longrightarrow> m this dk = (r, this', dk') \<Longrightarrow> tmp_ok dk0 this' dk'"
  by (auto simp: keeps_def)

lemma keeps_no_value [intro]: "keeps m \<Longrightarrow> keeps (no_value m)"
  by (rule keepsI) (auto simp: no_value_def dest: keepsD split: prod.splits)

lemma keeps_run_op: "keeps (run_op p)"
  by (cases p) auto

lemma keeps_run_ops: "keeps (run_ops ops)"
proof (induction ops)
  case Nil
  show ?case by (rule keepsI) simp
next
  case (Cons p ops)
  show ?case
    by (rule keepsI) (auto dest: keepsD [OF keeps_run_op] keepsD [OF Cons] split: prod.splits sum.splits)
qed

text \<open>The name of the file stays, and was new.\<close>

lemma run_op_filename: "filename (fst (snd (run_op p this dk))) = filename this"
  by (cases p) (auto simp: no_value_def reopen_as_readonly_def write_string_def done_writing_def
      send_to_def receive_from_def get_write_fd_def get_read_fd_def read_string_def Let_def
      split: prod.split sum.split)

lemma run_ops_filename: "run_ops ops this dk = (r, this', dk') \<Longrightarrow> filename this' = filename this"
proof (induction ops arbitrary: this dk)
  case (Cons p ops)
  obtain q this1 dk1 where o: "run_op p this dk = (q, this1, dk1)" by (metis prod_cases3)
  with Cons run_op_filename [of p this dk] show ?case by (auto split: sum.splits)
qed simp

lemma TmpFile_new_name: "TmpFile dk = (Inr this, dk') \<Longrightarrow> file_content (filename this) dk = None"
proof -
  assume a: "TmpFile dk = (Inr this, dk')"
  obtain ok dk1 where c: "disk_call dk = (ok, dk1)" by fastforce
  have "file_content n dk1 = file_content n dk" for n
    using disk_call_same [OF c] by (simp add: file_content_def)
  with a c show ?thesis
    by (auto simp: TmpFile_def sys_mkstemp_def temp_name_def find_Some_iff
        split: prod.splits option.splits if_splits)
qed

text \<open>
  C39: a \<open>TmpFile\<close> cleans up after itself. Whatever a test does with the object, and whichever calls
  of \<open>mkstemp\<close>, \<open>open\<close>, \<open>read\<close> and \<open>write\<close> fail or are short, after its destructor the
  same descriptors are open as before its constructor, also when an operation threw; and the same
  files exist with the same contents, unless \<open>unlink\<close>, whose result the destructor ignores, failed: then
  the object's own file, whose name was new, is left, and nothing else is different. When the constructor
  throws, it has created and opened nothing.
\<close>

theorem tmp_file_cleans_up:
  "case TmpFile dk of
     (Inl e, dk1) \<Rightarrow> disk_files dk1 = disk_files dk \<and> disk_open dk1 = disk_open dk
   | (Inr this, dk1) \<Rightarrow>
       (case run_ops ops this dk1 of (r, this', dk2) \<Rightarrow>
          disk_open (TmpFile_destroy this' dk2) = disk_open dk \<and>
          file_content (filename this) dk = None \<and>
          (if unlink_succeeds dk2 then disk_files (TmpFile_destroy this' dk2) = disk_files dk
           else filter (\<lambda>p. fst p \<noteq> filename this) (disk_files (TmpFile_destroy this' dk2)) = disk_files dk))"
proof (cases "TmpFile dk")
  case (Pair r dk1)
  note ok = TmpFile_ok [OF Pair]
  show ?thesis
  proof (cases r)
    case (Inl e)
    with Pair ok show ?thesis by simp
  next
    case (Inr this)
    obtain q this' dk2 where run: "run_ops ops this dk1 = (q, this', dk2)" by (metis prod_cases3)
    have "tmp_ok dk this' dk2"
      using keeps_run_ops [of ops] ok Inr run unfolding keeps_def by fastforce
    note D = destroy_undoes [OF this]
    have "filename this' = filename this" using run_ops_filename run by metis
    moreover have "file_content (filename this) dk = None" using TmpFile_new_name Pair Inr by metis
    ultimately show ?thesis using D Pair Inr run by simp
  qed
qed

end
