(* ===== verification/Tctest.thy ===== *)
theory Tctest
  imports Sio Tmp_File
begin

text \<open>
  The unit test framework (\<open>include/tctest.h\<close>, \<open>src/tctest.cpp\<close>). Its global variables are a
  record; the code of a test is an action on the record that returns, jumps back to the test
  (\<open>siglongjmp\<close>), throws, or ends the process. Standard output is the stdio buffer in front of
  descriptor 1, because the signal handler writes to the descriptor directly. The macros of
  the header are functions of the code they are expanded around. The optional callbacks are
  pointers to code of the test program: whether they are set is part of the state, and their
  calls are recorded.
\<close>

datatype stop =
    Jumps                 \<comment> \<open>\<open>siglongjmp(tctest\_env, 1)\<close>\<close>
  | Throws exn            \<comment> \<open>an exception derived from \<open>std::exception\<close>, or undefined behaviour\<close>
  | Throws_other          \<comment> \<open>an object of another type\<close>
  | Killed int            \<comment> \<open>a signal without a handler\<close>

datatype callback = On_test_executed string bool | On_complete int int

record tctest =
  tct_assertion_line :: int
  tct_failures :: int
  tct_num_executed :: int
  tct_testname_to_execute :: "string option"
  tct_on_test_executed :: bool
  tct_on_complete :: bool
  tct_calls :: "callback list"
  tct_handled :: "int list"        \<comment> \<open>signals whose handler is \<open>tctest\_signal\_handler\<close>\<close>
  tct_buf :: string                \<comment> \<open>written to \<open>stdout\<close> and not flushed\<close>
  tct_stdout :: fd                 \<comment> \<open>descriptor 1\<close>
  tct_disk :: disk                 \<comment> \<open>the file system and the open descriptors\<close>
  tct_indeterminate :: bool        \<comment> \<open>an indeterminate local variable was read\<close>

type_synonym 'a action = "tctest \<Rightarrow> (stop + 'a) \<times> tctest"

definition ret :: "'a \<Rightarrow> 'a action" where
  "ret x st = (Inr x, st)"

definition andthen :: "'a action \<Rightarrow> ('a \<Rightarrow> 'b action) \<Rightarrow> 'b action" where
  "andthen a f st = (case a st of (Inl s, st1) \<Rightarrow> (Inl s, st1) | (Inr x, st1) \<Rightarrow> f x st1)"

text \<open>Code that only computes or throws.\<close>

definition computes :: "'a res \<Rightarrow> 'a action" where
  "computes r st = (case r of Inl e \<Rightarrow> (Inl (Throws e), st) | Inr x \<Rightarrow> (Inr x, st))"

subsection \<open>Standard output\<close>

definition printf :: "string \<Rightarrow> tctest \<Rightarrow> tctest" where
  "printf text st = st\<lparr>tct_buf := tct_buf st @ text\<rparr>"

definition flush :: "tctest \<Rightarrow> tctest" where
  "flush st = st\<lparr>tct_buf := [],
     tct_stdout := (tct_stdout st)\<lparr>fd_out := fd_out (tct_stdout st) @ tct_buf st\<rparr>\<rparr>"

definition tctest_write :: "string \<Rightarrow> tctest \<Rightarrow> tctest" where
  "tctest_write buf st = st\<lparr>tct_stdout := snd (sys_write (tct_stdout st) buf)\<rparr>"

text \<open>What the user has seen and will see.\<close>

definition transcript :: "tctest \<Rightarrow> string" where
  "transcript st = fd_out (tct_stdout st) @ tct_buf st"

subsection \<open>Signals\<close>

text \<open>The signal numbers are those of Linux; the last entry is the end of the list.\<close>

definition tctest_signal_list :: "(int \<times> string) list" where
  "tctest_signal_list =
     [(8, ''floating point exception''), (11, ''segmentation fault''), (7, ''bus error''),
      (6, ''abort (assert failed?)''), (5, ''trap''), (31, ''bad system call''),
      (-1, ''unknown signal'')]"

fun find_signal :: "(int \<times> string) list \<Rightarrow> int \<Rightarrow> string option" where
  "find_signal [] signum = None"
| "find_signal ((s, msg) # rest) signum =
     (if s \<noteq> -1 then if signum = s then Some msg else find_signal rest signum else None)"

text \<open>The digits of the line, the least significant first: \<open>stack[0 .. ndig - 1]\<close>.\<close>

function line_digits :: "int \<Rightarrow> string \<Rightarrow> string" where
  "line_digits val stack =
     (let stack1 = stack @ [char_of (nat (48 + val mod 10))]; val1 = val div 10
      in if val1 > 0 then line_digits val1 stack1 else stack1)"
  by pat_completeness auto
termination
  by (relation "measure (\<lambda>(val, stack). nat val)") (auto simp: Let_def)

declare line_digits.simps [simp del]

text \<open>The last digit on the stack is the next of the text.\<close>

function append_digits :: "string \<Rightarrow> string \<Rightarrow> string" where
  "append_digits stack buf =
     (if 0 < length stack then append_digits (butlast stack) (buf @ [last stack]) else buf)"
  by pat_completeness auto
termination
  by (relation "measure (\<lambda>(stack, buf). length stack)") auto

declare append_digits.simps [simp del]

definition tctest_print_signal_msg :: "string \<Rightarrow> tctest \<Rightarrow> tctest res" where
  "tctest_print_signal_msg msg st =
     (if tct_assertion_line st \<le> 0 then
        Inr (tctest_write newline (tctest_write msg st))
      else
        let buf = msg @ '' (most recent ASSERT at line '';
            stack = line_digits (tct_assertion_line st) [];
            buf1 = append_digits stack buf @ '')'' @ newline
        in if length stack \<le> 16 \<and> length buf1 \<le> 512 then Inr (tctest_write buf1 st)
           else Inl (Fatal ''stack buffer overflow''))"

definition tctest_signal_handler :: "int \<Rightarrow> 'a action" where
  "tctest_signal_handler signum st =
     (case find_signal tctest_signal_list signum of
        None \<Rightarrow> (Inl (Throws (Fatal ''null pointer'')), st)
      | Some msg \<Rightarrow>
          (case tctest_print_signal_msg msg st of
             Inl e \<Rightarrow> (Inl (Throws e), st)
           | Inr st1 \<Rightarrow> (Inl Jumps, st1)))"

fun registered_signals :: "(int \<times> string) list \<Rightarrow> int list" where
  "registered_signals [] = []"
| "registered_signals ((s, msg) # rest) = (if s \<noteq> -1 then s # registered_signals rest else [])"

definition tctest_register_signal_handlers :: "tctest \<Rightarrow> tctest" where
  "tctest_register_signal_handlers st =
     st\<lparr>tct_handled := registered_signals tctest_signal_list @ tct_handled st\<rparr>"

text \<open>
  A signal that the code of a test receives. Without a handler the system takes its default action
  (numbers of Linux): \<open>SIGCHLD\<close>, \<open>SIGCONT\<close>, \<open>SIGURG\<close> and \<open>SIGWINCH\<close> are ignored, \<open>SIGSTOP\<close>, \<open>SIGTSTP\<close>,
  \<open>SIGTTIN\<close> and \<open>SIGTTOU\<close> stop the process, which goes on when it is continued, and all others end
  it.
\<close>

datatype disposition = Default_ignore | Default_stop | Default_end

definition default_action :: "int \<Rightarrow> disposition" where
  "default_action signum =
     (if signum \<in> {17, 18, 23, 28} then Default_ignore
      else if signum \<in> {19, 20, 21, 22} then Default_stop
      else Default_end)"

definition signals :: "int \<Rightarrow> unit action" where
  "signals signum st =
     (if signum \<in> set (tct_handled st) then tctest_signal_handler signum st
      else if default_action signum = Default_end then (Inl (Killed signum), st)
      else (Inr (), st))"

text \<open>\<open>abort\<close> does not return even if the handler does.\<close>

definition aborts :: "'a action" where
  "aborts = andthen (signals 6) (\<lambda>_ st. (Inl (Killed 6), st))"

subsection \<open>The macros\<close>

definition tctest_fail :: "string \<Rightarrow> 'a action" where
  "tctest_fail text st = (Inl Jumps, printf text st)"

definition TEST_INIT :: "tctest \<Rightarrow> tctest" where
  "TEST_INIT st = tctest_register_signal_handlers st"

text \<open>The condition is evaluated after the line has been recorded, and may throw.\<close>

definition ASSERT :: "bool res \<Rightarrow> string \<Rightarrow> int \<Rightarrow> unit action" where
  "ASSERT c cond line st =
     andthen (computes c)
       (\<lambda>b. if b then ret ()
            else tctest_fail (''failed ASSERT '' @ cond @ '' at line '' @ to_string line @ newline))
       (st\<lparr>tct_assertion_line := line\<rparr>)"

definition FAIL :: "string \<Rightarrow> 'a action" where
  "FAIL msg = tctest_fail (''failed, '' @ msg @ newline)"

definition test_executed :: "string \<Rightarrow> bool \<Rightarrow> tctest \<Rightarrow> tctest" where
  "test_executed func passed st =
     (if tct_on_test_executed st
      then st\<lparr>tct_calls := tct_calls st @ [On_test_executed func passed]\<rparr> else st)"

definition test_failed :: "string \<Rightarrow> tctest \<Rightarrow> tctest" where
  "test_failed func st = test_executed func False (st\<lparr>tct_failures := tct_failures st + 1\<rparr>)"

text \<open>
  What \<open>TCTEST_TRY\<close> encloses when \<open>sigsetjmp\<close> returns 0, with the value of \<open>t\<close> at its end.
\<close>

definition test_body ::
  "'t option action \<Rightarrow> string \<Rightarrow> ('t option \<Rightarrow> unit action) \<Rightarrow> tctest \<Rightarrow>
   (stop + unit) \<times> 't option \<times> tctest" where
  "test_body setup name func st =
     (case setup st of
        (Inl s, st1) \<Rightarrow> (Inl s, None, st1)
      | (Inr t, st1) \<Rightarrow>
          (case func t (flush (printf (name @ ''...'') st1)) of
             (Inl s, st2) \<Rightarrow> (Inl s, t, st2)
           | (Inr _, st2) \<Rightarrow> (Inr (), t, test_executed name True (printf (''passed!'' @ newline) st2))))"

text \<open>\<open>TCTEST_CATCH\<close>, for an exception that left the test.\<close>

definition TCTEST_CATCH :: "string \<Rightarrow> stop \<Rightarrow> tctest \<Rightarrow> tctest option" where
  "TCTEST_CATCH name s st =
     (case s of
        Throws ex \<Rightarrow>
          (if is_std_exception ex
           then Some (test_failed name (printf (''std::exception (what='' @ [CHR 0x27] @ what ex @ [CHR 0x27] @ '')'' @ newline) st))
           else None)
      | Throws_other \<Rightarrow> Some (test_failed name (printf (''exception'' @ newline) st))
      | _ \<Rightarrow> None)"

text \<open>
  \<open>t\<close> is a local variable that is not \<open>volatile\<close>: after a jump its value is indeterminate
  when it was assigned after \<open>sigsetjmp\<close>. The model keeps the assigned value, as a variable in
  memory does, and notes that it was relied on.
\<close>

definition TEST ::
  "'t option action \<Rightarrow> ('t \<Rightarrow> tctest \<Rightarrow> tctest) \<Rightarrow> string \<Rightarrow> ('t option \<Rightarrow> unit action) \<Rightarrow> unit action"
where
  "TEST setup cleanup name func st =
     (if tct_testname_to_execute st = None \<or> tct_testname_to_execute st = Some name then
        let st0 = st\<lparr>tct_num_executed := tct_num_executed st + 1, tct_assertion_line := -1\<rparr>;
            finish = (\<lambda>t st. (Inr (), case t of None \<Rightarrow> st | Some obj \<Rightarrow> cleanup obj st))
        in case test_body setup name func st0 of
             (Inr _, t, st1) \<Rightarrow> finish t st1
           | (Inl s, t, st1) \<Rightarrow>
               if s = Jumps
               then finish t ((test_failed name st1)
                      \<lparr>tct_indeterminate := tct_indeterminate st1 \<or> t \<noteq> None\<rparr>)
               else (case TCTEST_CATCH name s st1 of
                       None \<Rightarrow> (Inl s, st1)
                     | Some st2 \<Rightarrow> finish t st2)
      else (Inr (), st))"

definition TEST_FINI :: "tctest \<Rightarrow> int \<times> tctest" where
  "TEST_FINI st =
     (let st1 = printf
            (if tct_failures st = 0 then
               if tct_num_executed st > 0 then ''All tests passed!'' @ newline
               else ''No tests were executed!'' @ newline
             else to_string (tct_failures st) @ '' test(s) failed'' @ newline) st;
          st2 = (if tct_on_complete st1
            then st1\<lparr>tct_calls := tct_calls st1 @
                   [On_complete (tct_num_executed st1 - tct_failures st1) (tct_num_executed st1)]\<rparr>
            else st1)
      in (if tct_failures st2 > 0 \<or> (tct_failures st2 = 0 \<and> tct_num_executed st2 = 0) then 1 else 0,
          st2))"

subsection \<open>A test program\<close>

text \<open>The globals before \<open>main\<close>: zero.\<close>

definition tctest_init :: tctest where
  "tctest_init =
     \<lparr>tct_assertion_line = 0, tct_failures = 0, tct_num_executed = 0,
      tct_testname_to_execute = None, tct_on_test_executed = False, tct_on_complete = False,
      tct_calls = [], tct_handled = [], tct_buf = [],
      tct_stdout = plain_fd [], tct_disk = disk_init, tct_indeterminate = False\<rparr>"

type_synonym 't test = "string \<times> ('t option \<Rightarrow> unit action)"

fun run_tests ::
  "'t option action \<Rightarrow> ('t \<Rightarrow> tctest \<Rightarrow> tctest) \<Rightarrow> 't test list \<Rightarrow> unit action" where
  "run_tests setup cleanup [] st = ret () st"
| "run_tests setup cleanup ((name, func) # tests) st =
     andthen (TEST setup cleanup name func) (\<lambda>_. run_tests setup cleanup tests) st"

text \<open>
  The \<open>main\<close> the two test programs share: the tests in order, or the one named by the first
  argument. Returning from \<open>main\<close> flushes \<open>stdout\<close>.
\<close>

definition test_main ::
  "'t option action \<Rightarrow> ('t \<Rightarrow> tctest \<Rightarrow> tctest) \<Rightarrow> 't test list \<Rightarrow> string list \<Rightarrow> int action"
where
  "test_main setup cleanup tests argv st =
     (let st1 = (if length argv > 1 then st\<lparr>tct_testname_to_execute := Some (argv ! 1)\<rparr> else st)
      in andthen (run_tests setup cleanup tests)
           (\<lambda>_ st2. case TEST_FINI st2 of (rc, st3) \<Rightarrow> (Inr rc, flush st3))
           (TEST_INIT st1))"

subsection \<open>The signal handler\<close>

lemma line_digits_dec: "line_digits (int n) s = s @ rev (dec_digits n)"
proof -
  have "ltoa_digits (int n) 10 s = Some (line_digits (int n) s)"
  proof (induction n arbitrary: s rule: dec_digits.induct)
    case (1 n)
    have d: "base_digit (int n mod 10) = char_of (nat (48 + int n mod 10))"
      by (simp add: base_digit_def nat_add_distrib add.commute)
    have q: "int n div 10 = int (n div 10)" by simp
    show ?case
    proof (cases "n < 10")
      case True
      then show ?thesis
        using d by (subst ltoa_digits.simps, subst line_digits.simps) (simp add: Let_def)
    next
      case False
      then have "0 < int (n div 10)" by simp
      with "1.IH" [OF False] d show ?thesis
        by (subst ltoa_digits.simps, subst line_digits.simps) (simp add: Let_def q del: of_nat_div)
    qed
  qed
  with ltoa_digits_dec show ?thesis by simp
qed

lemma append_digits_rev: "append_digits stack buf = buf @ rev stack"
proof (induction stack arbitrary: buf rule: rev_induct)
  case Nil
  show ?case by (simp add: append_digits.simps)
next
  case (snoc c stack)
  then show ?case by (subst append_digits.simps) simp
qed

text \<open>Only the signals whose handler is registered are looked up, and all of them are found.\<close>

lemma find_registered: "signum \<in> set (registered_signals l) \<Longrightarrow> find_signal l signum \<noteq> None"
  by (induction l) (auto split: if_splits)

lemma find_signal_mem: "find_signal l signum = Some msg \<Longrightarrow> (signum, msg) \<in> set l \<and> signum \<noteq> -1"
  by (induction l) (auto split: if_splits)

lemma signal_texts_short: "(signum, msg) \<in> set tctest_signal_list \<Longrightarrow> length msg \<le> 24"
  by (auto simp: tctest_signal_list_def)

definition signal_writes :: "string \<Rightarrow> int \<Rightarrow> string list" where
  "signal_writes msg line =
     (if line \<le> 0 then [msg, newline]
      else [msg @ '' (most recent ASSERT at line '' @ to_string line @ '')'' @ newline])"

lemma print_signal_msg_spec:
  assumes "length msg \<le> 24" and "tct_assertion_line st \<le> int_max"
  shows "tctest_print_signal_msg msg st =
    Inr (fold tctest_write (signal_writes msg (tct_assertion_line st)) st)"
proof (cases "tct_assertion_line st \<le> 0")
  case True
  then show ?thesis by (simp add: tctest_print_signal_msg_def signal_writes_def)
next
  case False
  let ?n = "nat (tct_assertion_line st)"
  have n: "tct_assertion_line st = int ?n" using False by simp
  have d: "line_digits (tct_assertion_line st) [] = rev (to_string (tct_assertion_line st))"
    using False by (subst n, subst line_digits_dec) (simp add: to_string_nonneg)
  have "length (to_string (tct_assertion_line st)) \<le> 10"
  proof -
    have "?n < 10 ^ Suc 9" using assms(2) by (simp add: int_max_def)
    from length_dec_digits_le [OF this] show ?thesis using False by (simp add: to_string_nonneg)
  qed
  with assms(1) False show ?thesis
    by (simp add: tctest_print_signal_msg_def signal_writes_def d append_digits_rev newline_def)
qed

end
