(* ===== verification/Tctest_Correct.thy ===== *)
theory Tctest_Correct
  imports Tctest
begin

text \<open>
  What a test program built on the framework reports: the verdict of every test that was
  selected, in order, and an exit status of 0 exactly when at least one test ran and none
  failed; and what a signal does to a test. The verdict of a test is that of its own code
  (\<open>own_run\<close>). This code is arbitrary, as long as it reaches the framework's counters
  only through the macros; \<open>keeps_counts\<close> says so, and holds of code composed of them.
\<close>

subsection \<open>Code that leaves the counters alone\<close>

definition same_counts :: "tctest \<Rightarrow> tctest \<Rightarrow> bool" where
  "same_counts st st' \<longleftrightarrow>
     tct_failures st' = tct_failures st \<and> tct_num_executed st' = tct_num_executed st \<and>
     tct_testname_to_execute st' = tct_testname_to_execute st \<and>
     tct_on_test_executed st' = tct_on_test_executed st \<and>
     tct_on_complete st' = tct_on_complete st \<and> tct_calls st' = tct_calls st \<and>
     tct_indeterminate st' = tct_indeterminate st"

lemma same_counts_refl [simp]: "same_counts st st"
  by (simp add: same_counts_def)

lemma same_counts_trans: "same_counts a b \<Longrightarrow> same_counts b c \<Longrightarrow> same_counts a c"
  by (simp add: same_counts_def)

definition keeps_counts :: "'a action \<Rightarrow> bool" where
  "keeps_counts a \<longleftrightarrow> (\<forall>st. same_counts st (snd (a st)))"

lemma keeps_countsD: "keeps_counts a \<Longrightarrow> a st = (r, st') \<Longrightarrow> same_counts st st'"
  unfolding keeps_counts_def by (metis snd_conv)

named_theorems keeps \<open>actions that leave the counters alone\<close>

lemma keeps_ret [keeps]: "keeps_counts (ret x)"
  by (simp add: keeps_counts_def ret_def)

lemma keeps_computes [keeps]: "keeps_counts (computes r)"
  by (simp add: keeps_counts_def computes_def split: sum.split)

lemma keeps_andthen [keeps]:
  "keeps_counts a \<Longrightarrow> (\<And>x. keeps_counts (f x)) \<Longrightarrow> keeps_counts (andthen a f)"
  unfolding keeps_counts_def andthen_def
  by (auto split: prod.split sum.split) (metis same_counts_trans snd_conv)+

lemma keeps_fail [keeps]: "keeps_counts (tctest_fail text)"
  by (simp add: keeps_counts_def tctest_fail_def printf_def same_counts_def)

lemma keeps_FAIL [keeps]: "keeps_counts (FAIL msg)"
  unfolding FAIL_def by (rule keeps_fail)

lemma keeps_ASSERT [keeps]: "keeps_counts (ASSERT c cond line)"
proof -
  have "keeps_counts (andthen (computes c) (\<lambda>b. if b then ret () else tctest_fail t))" for t
    by (rule keeps_andthen [OF keeps_computes]) (simp add: keeps)
  then show ?thesis
    unfolding keeps_counts_def ASSERT_def
    by (auto intro: same_counts_trans [rotated] simp: same_counts_def)
qed

lemma same_counts_write [simp]: "same_counts st (tctest_write b st)"
  by (simp add: same_counts_def tctest_write_def)

lemma keeps_signals [keeps]: "keeps_counts (signals signum)"
  by (auto simp: keeps_counts_def signals_def tctest_signal_handler_def
      tctest_print_signal_msg_def Let_def
      intro: same_counts_trans [OF same_counts_write same_counts_write]
      split: option.splits sum.splits if_splits)

lemma same_counts_output [simp]:
  "same_counts st (printf text st)" "same_counts st (flush st)"
  by (simp_all add: same_counts_def printf_def flush_def)

lemma test_executed_fields [simp]:
  "tct_failures (test_executed func b st) = tct_failures st"
  "tct_num_executed (test_executed func b st) = tct_num_executed st"
  "tct_testname_to_execute (test_executed func b st) = tct_testname_to_execute st"
  "tct_on_test_executed (test_executed func b st) = tct_on_test_executed st"
  "tct_on_complete (test_executed func b st) = tct_on_complete st"
  "tct_indeterminate (test_executed func b st) = tct_indeterminate st"
  "tct_calls (test_executed func b st) =
     tct_calls st @ (if tct_on_test_executed st then [On_test_executed func b] else [])"
  by (simp_all add: test_executed_def)

subsection \<open>Verdicts\<close>

definition selected :: "tctest \<Rightarrow> string \<Rightarrow> bool" where
  "selected st name \<longleftrightarrow>
     tct_testname_to_execute st = None \<or> tct_testname_to_execute st = Some name"

text \<open>
  The test's own code: \<open>setup\<close>, the announcement of the test, and the test function. The test
  passes if this returns. The framework then prints a line that depends on how it ended.
\<close>

definition own_run ::
  "'t option action \<Rightarrow> string \<Rightarrow> ('t option \<Rightarrow> unit action) \<Rightarrow> unit action" where
  "own_run setup name func st =
     andthen setup (\<lambda>t st1. func t (flush (printf (name @ ''...'') st1)))
       (st\<lparr>tct_num_executed := tct_num_executed st + 1, tct_assertion_line := -1\<rparr>)"

definition passes ::
  "'t option action \<Rightarrow> string \<Rightarrow> ('t option \<Rightarrow> unit action) \<Rightarrow> tctest \<Rightarrow> bool" where
  "passes setup name func st \<longleftrightarrow> fst (own_run setup name func st) = Inr ()"

fun outcome_line :: "stop + unit \<Rightarrow> string" where
  "outcome_line (Inr _) = ''passed!'' @ newline"
| "outcome_line (Inl (Throws ex)) =
     ''std::exception (what='' @ [CHR 0x27] @ what ex @ [CHR 0x27] @ '')'' @ newline"
| "outcome_line (Inl Throws_other) = ''exception'' @ newline"
| "outcome_line (Inl _) = []"

lemma test_body_own_run:
  assumes "test_body setup name func
      (st\<lparr>tct_num_executed := tct_num_executed st + 1, tct_assertion_line := -1\<rparr>) = (r, t, st')"
  shows "fst (own_run setup name func st) = r"
    and "r = Inr () \<Longrightarrow> transcript st' = transcript (snd (own_run setup name func st)) @ ''passed!'' @ newline"
    and "r \<noteq> Inr () \<Longrightarrow> st' = snd (own_run setup name func st)"
  using assms
  by (auto simp: test_body_def own_run_def andthen_def transcript_def printf_def test_executed_def
      split: sum.splits prod.splits if_splits)

fun verdicts ::
  "'t option action \<Rightarrow> ('t \<Rightarrow> tctest \<Rightarrow> tctest) \<Rightarrow> 't test list \<Rightarrow> tctest \<Rightarrow> (string \<times> bool) list"
where
  "verdicts setup cleanup [] st = []"
| "verdicts setup cleanup ((name, func) # tests) st =
     (if selected st name then [(name, passes setup name func st)] else []) @
     verdicts setup cleanup tests (snd (TEST setup cleanup name func st))"

text \<open>After every test the outcome of its own code is what the framework has printed.\<close>

fun lines_printed ::
  "'t option action \<Rightarrow> ('t \<Rightarrow> tctest \<Rightarrow> tctest) \<Rightarrow> 't test list \<Rightarrow> tctest \<Rightarrow> bool"
where
  "lines_printed setup cleanup [] st \<longleftrightarrow> True"
| "lines_printed setup cleanup ((name, func) # tests) st \<longleftrightarrow>
     (selected st name \<longrightarrow>
        transcript (snd (TEST setup cleanup name func st)) =
          transcript (snd (own_run setup name func st)) @ outcome_line (fst (own_run setup name func st))) \<and>
     lines_printed setup cleanup tests (snd (TEST setup cleanup name func st))"

text \<open>What a list of verdicts adds to the state.\<close>

definition counted :: "(string \<times> bool) list \<Rightarrow> tctest \<Rightarrow> tctest \<Rightarrow> bool" where
  "counted vs st st' \<longleftrightarrow>
     tct_failures st' = tct_failures st + int (length (filter (\<lambda>v. \<not> snd v) vs)) \<and>
     tct_num_executed st' = tct_num_executed st + int (length vs) \<and>
     tct_testname_to_execute st' = tct_testname_to_execute st \<and>
     tct_on_test_executed st' = tct_on_test_executed st \<and>
     tct_on_complete st' = tct_on_complete st \<and>
     tct_calls st' = tct_calls st @
       (if tct_on_test_executed st then map (\<lambda>v. On_test_executed (fst v) (snd v)) vs else []) \<and>
     (list_all snd vs \<longrightarrow> tct_indeterminate st' = tct_indeterminate st)"

lemma counted_Nil: "same_counts st st' \<Longrightarrow> counted [] st st'"
  by (simp add: counted_def same_counts_def)

lemma counted_append: "counted vs a b \<Longrightarrow> counted ws b c \<Longrightarrow> counted (vs @ ws) a c"
  by (simp add: counted_def)

lemma counted_same: "counted vs a b \<Longrightarrow> same_counts b c \<Longrightarrow> counted vs a c"
  by (simp add: counted_def same_counts_def)

text \<open>The harness parameters of a test program that leave the counters alone.\<close>

definition test_code ::
  "'t option action \<Rightarrow> ('t \<Rightarrow> tctest \<Rightarrow> tctest) \<Rightarrow> 't test list \<Rightarrow> bool" where
  "test_code setup cleanup tests \<longleftrightarrow>
     keeps_counts setup \<and>
     (\<forall>t st. same_counts st (cleanup t st) \<and> transcript (cleanup t st) = transcript st) \<and>
     (\<forall>(name, func) \<in> set tests. \<forall>t. keeps_counts (func t))"

lemma test_body_counts:
  assumes "keeps_counts setup" and "\<And>t. keeps_counts (func t)"
    and "test_body setup name func st = (r, t, st')"
  shows "case r of
      Inl s \<Rightarrow> same_counts st st'
    | Inr _ \<Rightarrow> \<exists>st2. same_counts st st2 \<and> st' = test_executed name True st2"
proof -
  obtain r1 st1 where su: "setup st = (r1, st1)" by fastforce
  from keeps_countsD [OF assms(1) this] have s1: "same_counts st st1" .
  show ?thesis
  proof (cases r1)
    case (Inl s)
    with assms(3) su s1 show ?thesis by (auto simp: test_body_def)
  next
    case (Inr obj)
    let ?st = "flush (printf (name @ ''...'') st1)"
    obtain r2 st2 where f: "func obj ?st = (r2, st2)" by fastforce
    have "same_counts st ?st"
      by (intro same_counts_trans [OF s1] same_counts_trans [OF same_counts_output(1) same_counts_output(2)])
    then have s2: "same_counts st st2"
      by (rule same_counts_trans [OF _ keeps_countsD [OF assms(2) f]])
    then have "same_counts st (printf (''passed!'' @ newline) st2)"
      by (rule same_counts_trans) simp
    with s2 assms(3) su Inr f show ?thesis
      by (cases r2) (auto simp: test_body_def)
  qed
qed

lemma counted_failed:
  assumes "same_counts (st\<lparr>tct_num_executed := tct_num_executed st + 1, tct_assertion_line := -1\<rparr>) st1"
  shows "counted [(name, False)] st ((test_failed name st1)\<lparr>tct_indeterminate := b\<rparr>)"
    and "counted [(name, False)] st (test_failed name st1)"
  using assms by (auto simp: counted_def test_failed_def same_counts_def)

lemma TEST_counts:
  assumes "keeps_counts setup" and "\<And>t. keeps_counts (func t)"
    and "\<And>t st. same_counts st (cleanup t st)"
    and "TEST setup cleanup name func st = (Inr u, st')"
  shows "counted (if selected st name then [(name, passes setup name func st)] else []) st st'"
proof (cases "selected st name")
  case False
  then have "TEST setup cleanup name func st = (Inr (), st)"
    by (auto simp: TEST_def selected_def)
  with False assms(4) show ?thesis by (simp add: counted_Nil)
next
  case True
  let ?st0 = "st\<lparr>tct_num_executed := tct_num_executed st + 1, tct_assertion_line := -1\<rparr>"
  obtain r t st1 where b: "test_body setup name func ?st0 = (r, t, st1)" by (metis prod_cases3)
  note bc = test_body_counts [OF assms(1,2) b]
  have "\<exists>st2. counted [(name, passes setup name func st)] st st2 \<and>
      st' = (case t of None \<Rightarrow> st2 | Some obj \<Rightarrow> cleanup obj st2)"
  proof (cases r)
    case (Inr v)
    with bc obtain st2 where "same_counts ?st0 st2" "st1 = test_executed name True st2" by auto
    then have "counted [(name, True)] st st1" by (simp add: counted_def same_counts_def)
    with Inr b test_body_own_run(1) [OF b] assms(4) True show ?thesis
      by (auto simp: TEST_def selected_def passes_def Let_def)
  next
    case (Inl s)
    with bc have sc: "same_counts ?st0 st1" by simp
    have np: "\<not> passes setup name func st" using test_body_own_run(1) [OF b] Inl by (simp add: passes_def)
    show ?thesis
    proof (cases "s = Jumps")
      case True
      with Inl b assms(4) \<open>selected st name\<close> counted_failed(1) [OF sc] np show ?thesis
        by (auto simp: TEST_def selected_def Let_def)
    next
      case False
      with Inl b assms(4) \<open>selected st name\<close> obtain st2 where
          c: "TCTEST_CATCH name s st1 = Some st2" and
          "st' = (case t of None \<Rightarrow> st2 | Some obj \<Rightarrow> cleanup obj st2)"
        by (auto simp: TEST_def selected_def Let_def split: option.splits)
      moreover have "counted [(name, False)] st st2"
        using c by (auto simp: TCTEST_CATCH_def split: stop.splits if_splits
            intro!: counted_failed(2) same_counts_trans [OF sc])
      ultimately show ?thesis using np by auto
    qed
  qed
  then show ?thesis
    using True assms(3) by (auto split: option.splits intro: counted_same)
qed

lemma run_tests_counts:
  assumes "test_code setup cleanup tests" and "run_tests setup cleanup tests st = (Inr u, st')"
  shows "counted (verdicts setup cleanup tests st) st st'"
  using assms
proof (induction tests arbitrary: st)
  case Nil
  then show ?case by (simp add: ret_def counted_Nil)
next
  case (Cons p tests)
  obtain name func where p: "p = (name, func)" by fastforce
  have c: "keeps_counts setup" "\<And>t. keeps_counts (func t)" "\<And>t st. same_counts st (cleanup t st)"
    "test_code setup cleanup tests"
    using Cons.prems(1) by (auto simp: test_code_def p)
  from Cons.prems(2) p obtain u1 st1 where
      t: "TEST setup cleanup name func st = (Inr u1, st1)" and
      r: "run_tests setup cleanup tests st1 = (Inr u, st')"
    by (auto simp: andthen_def split: prod.splits sum.splits)
  from counted_append [OF TEST_counts [OF c(1,2,3) t] Cons.IH [OF c(4) r]] t p show ?case
    by simp
qed

lemma test_failed_transcript [simp]: "transcript (test_failed name st) = transcript st"
  by (simp add: test_failed_def test_executed_def transcript_def)

lemma TEST_line:
  assumes "\<And>t st. transcript (cleanup t st) = transcript st"
    and "TEST setup cleanup name func st = (Inr u, st')" and "selected st name"
  shows "transcript st' =
    transcript (snd (own_run setup name func st)) @ outcome_line (fst (own_run setup name func st))"
proof -
  let ?st0 = "st\<lparr>tct_num_executed := tct_num_executed st + 1, tct_assertion_line := -1\<rparr>"
  obtain r t st1 where b: "test_body setup name func ?st0 = (r, t, st1)" by (metis prod_cases3)
  note own = test_body_own_run [OF b]
  let ?last = "\<lambda>st2. case t of None \<Rightarrow> st2 | Some obj \<Rightarrow> cleanup obj st2"
  have fin: "transcript (?last st2) = transcript st2" for st2
    using assms(1) by (auto split: option.split)
  have T: "TEST setup cleanup name func st =
      (case r of
         Inr _ \<Rightarrow> (Inr (), ?last st1)
       | Inl s \<Rightarrow>
           if s = Jumps
           then (Inr (), ?last ((test_failed name st1)\<lparr>tct_indeterminate := tct_indeterminate st1 \<or> t \<noteq> None\<rparr>))
           else (case TCTEST_CATCH name s st1 of None \<Rightarrow> (Inl s, st1) | Some st2 \<Rightarrow> (Inr (), ?last st2)))"
    using b assms(3) by (auto simp: TEST_def selected_def Let_def)
  have jump: "transcript (st2\<lparr>tct_indeterminate := x\<rparr>) = transcript st2" for st2 x
    by (simp add: transcript_def)
  show ?thesis
  proof (cases r)
    case (Inr v)
    then show ?thesis using T assms(2) own fin by simp
  next
    case (Inl s)
    then have st1: "st1 = snd (own_run setup name func st)" and r: "fst (own_run setup name func st) = Inl s"
      using own by simp_all
    have "transcript st' = transcript st1 @ outcome_line (Inl s)"
    proof (cases s)
      case Jumps
      then show ?thesis using T assms(2) Inl by (simp add: fin jump)
    next
      case (Throws ex)
      then show ?thesis
        using T assms(2) Inl by (auto simp: TCTEST_CATCH_def fin transcript_def [of "printf _ _"] split: if_splits)
          (simp_all add: transcript_def printf_def)
    next
      case Throws_other
      then show ?thesis
        using T assms(2) Inl by (auto simp: TCTEST_CATCH_def fin) (simp add: transcript_def printf_def)
    next
      case (Killed k)
      then show ?thesis using T assms(2) Inl by (simp add: TCTEST_CATCH_def)
    qed
    with st1 r show ?thesis by simp
  qed
qed

lemma run_tests_lines:
  assumes "test_code setup cleanup tests" and "run_tests setup cleanup tests st = (Inr u, st')"
  shows "lines_printed setup cleanup tests st"
  using assms
proof (induction tests arbitrary: st)
  case Nil
  show ?case by simp
next
  case (Cons p tests)
  obtain name func where p: "p = (name, func)" by fastforce
  have c: "\<And>t st. transcript (cleanup t st) = transcript st" "test_code setup cleanup tests"
    using Cons.prems(1) by (auto simp: test_code_def p)
  from Cons.prems(2) p obtain u1 st1 where
      t: "TEST setup cleanup name func st = (Inr u1, st1)" and
      r: "run_tests setup cleanup tests st1 = (Inr u, st')"
    by (auto simp: andthen_def split: prod.splits sum.splits)
  from TEST_line [OF c(1) t] Cons.IH [OF c(2) r] t p show ?case by simp
qed

lemma verdicts_names:
  assumes "test_code setup cleanup tests" and "run_tests setup cleanup tests st = (Inr u, st')"
  shows "map fst (verdicts setup cleanup tests st) = filter (selected st) (map fst tests)"
  using assms
proof (induction tests arbitrary: st)
  case Nil
  show ?case by simp
next
  case (Cons p tests)
  obtain name func where p: "p = (name, func)" by fastforce
  have c: "keeps_counts setup" "\<And>t. keeps_counts (func t)" "\<And>t st. same_counts st (cleanup t st)"
    "test_code setup cleanup tests"
    using Cons.prems(1) by (auto simp: test_code_def p)
  from Cons.prems(2) p obtain u1 st1 where
      t: "TEST setup cleanup name func st = (Inr u1, st1)" and
      r: "run_tests setup cleanup tests st1 = (Inr u, st')"
    by (auto simp: andthen_def split: prod.splits sum.splits)
  have "selected st1 = selected st"
    using TEST_counts [OF c(1,2,3) t] by (auto simp: counted_def selected_def)
  with Cons.IH [OF c(4) r] t p show ?case by simp
qed

subsection \<open>A test program\<close>

definition with_argv :: "string list \<Rightarrow> tctest \<Rightarrow> tctest" where
  "with_argv argv st =
     TEST_INIT (if length argv > 1 then st\<lparr>tct_testname_to_execute := Some (argv ! 1)\<rparr> else st)"

lemma with_argv_fields [simp]:
  "tct_failures (with_argv argv st) = tct_failures st"
  "tct_num_executed (with_argv argv st) = tct_num_executed st"
  "tct_on_test_executed (with_argv argv st) = tct_on_test_executed st"
  "tct_on_complete (with_argv argv st) = tct_on_complete st"
  "tct_calls (with_argv argv st) = tct_calls st"
  "tct_indeterminate (with_argv argv st) = tct_indeterminate st"
  by (simp_all add: with_argv_def TEST_INIT_def tctest_register_signal_handlers_def)

text \<open>The tests that run: all of them, or those the first argument names.\<close>

definition chosen :: "string list \<Rightarrow> 't test list \<Rightarrow> string list" where
  "chosen argv tests =
     filter (\<lambda>name. if length argv > 1 then name = argv ! 1 else True) (List.map fst tests)"

lemma selected_with_argv:
  "tct_testname_to_execute st = None \<Longrightarrow>
     selected (with_argv argv st) name \<longleftrightarrow> (if length argv > 1 then name = argv ! 1 else True)"
  by (auto simp: with_argv_def TEST_INIT_def tctest_register_signal_handlers_def selected_def)

lemma failed_verdicts: "int (length (filter (\<lambda>v. \<not> snd v) vs)) = 0 \<longleftrightarrow> list_all snd vs"
  by (induction vs) auto

text \<open>The last line of the output.\<close>

definition summary :: "bool list \<Rightarrow> string" where
  "summary vs =
     (if False \<in> set vs then to_string (int (length (filter Not vs))) @ '' test(s) failed''
      else if vs = [] then ''No tests were executed!'' else ''All tests passed!'') @ newline"

text \<open>
  C33: a test program that is not killed by a signal reports its tests truthfully. The tests
  that ran are those selected (all of them, or the one the argument names), in order. A test
  passes if its own code (\<open>setup\<close> and the test function) returns, and not if it fails an
  assertion, throws or crashes; the line printed after it, the callbacks, where
  set, the totals, the last line of the output and the exit status are those of these verdicts:
  the status is 0 exactly when at least one test ran and all of them passed. When all passed, no
  indeterminate variable was read.
\<close>

theorem test_main_reports:
  assumes "test_code setup cleanup tests"
    and "test_main setup cleanup tests argv (tctest_init\<lparr>tct_on_test_executed := b, tct_on_complete := c\<rparr>) =
      (Inr rc, st')"
    and "st0 = with_argv argv (tctest_init\<lparr>tct_on_test_executed := b, tct_on_complete := c\<rparr>)"
    and "vs = verdicts setup cleanup tests st0"
  shows "map fst vs = chosen argv tests \<and> lines_printed setup cleanup tests st0 \<and>
    tct_calls st' =
      (if b then map (\<lambda>v. On_test_executed (fst v) (snd v)) vs else []) @
      (if c then [On_complete (int (length (filter snd vs))) (int (length vs))] else []) \<and>
    rc = (if vs \<noteq> [] \<and> list_all snd vs then 0 else 1) \<and>
    (\<exists>out. transcript st' = out @ summary (map snd vs)) \<and>
    (list_all snd vs \<longrightarrow> \<not> tct_indeterminate st')"
proof -
  let ?st = "tctest_init\<lparr>tct_on_test_executed := b, tct_on_complete := c\<rparr>"
  let ?failed = "int (length (filter (\<lambda>v. \<not> snd v) vs))"
  have i: "tct_failures ?st = 0" "tct_num_executed ?st = 0" "tct_testname_to_execute ?st = None"
    "tct_calls ?st = []" "tct_on_test_executed ?st = b" "tct_on_complete ?st = c"
    "\<not> tct_indeterminate ?st"
    by (simp_all add: tctest_init_def)
  from assms(2,3) obtain u st2 where
      r: "run_tests setup cleanup tests st0 = (Inr u, st2)" and
      f: "rc = fst (TEST_FINI st2)" "st' = flush (snd (TEST_FINI st2))"
    unfolding test_main_def Let_def andthen_def with_argv_def
    by (auto split: prod.splits sum.splits)
  have names: "map fst vs = chosen argv tests"
    unfolding assms(3,4) verdicts_names [OF assms(1) r, unfolded assms(3)] chosen_def
    by (rule filter_cong) (auto simp: selected_with_argv i)
  have cnt: "counted vs st0 st2"
    using run_tests_counts [OF assms(1) r] by (simp add: assms(4))
  have n: "int (length vs) - ?failed = int (length (filter snd vs))"
    using sum_length_filter_compl [of snd vs] by (simp add: algebra_simps flip: of_nat_add)
  have fl: "tct_failures st2 = ?failed" "tct_num_executed st2 = int (length vs)"
    "tct_on_complete st2 = c"
    "tct_calls st2 = (if b then map (\<lambda>v. On_test_executed (fst v) (snd v)) vs else [])"
    "list_all snd vs \<longrightarrow> \<not> tct_indeterminate st2"
    using cnt i by (simp_all add: counted_def assms(3))
  have "tct_calls st' = tct_calls st2 @
      (if c then [On_complete (int (length (filter snd vs))) (int (length vs))] else [])"
    using fl(1,2,3) n by (simp add: f(2) TEST_FINI_def flush_def printf_def Let_def)
  moreover have "rc = (if vs \<noteq> [] \<and> list_all snd vs then 0 else 1)"
    using fl(1,2) failed_verdicts [of vs]
    by (auto simp: f(1) TEST_FINI_def printf_def Let_def)
  moreover have "tct_indeterminate st' = tct_indeterminate st2"
    by (simp add: f(2) TEST_FINI_def flush_def printf_def Let_def)
  moreover have "transcript st' = transcript st2 @ summary (map snd vs)"
  proof -
    have "length (filter Not (map snd vs)) = length (filter (\<lambda>v. \<not> snd v) vs)"
      by (simp add: filter_map o_def)
    moreover have "False \<in> set (map snd vs) \<longleftrightarrow> ?failed \<noteq> 0"
      using failed_verdicts [of vs] by (auto simp: list_all_iff)
    ultimately show ?thesis
      using fl(1,2) by (simp add: f(2) TEST_FINI_def flush_def printf_def transcript_def summary_def Let_def)
  qed
  ultimately show ?thesis using names fl(4,5) run_tests_lines [OF assms(1) r] by auto
qed

text \<open>A program with a test that passes, one that fails, one that crashes and one that throws.\<close>

definition four_tests :: "unit test list" where
  "four_tests =
     [(''good'', \<lambda>_. ASSERT (Inr True) ''1 == 1'' 10),
      (''bad'', \<lambda>_. ASSERT (Inr False) ''1 == 2'' 20),
      (''crash'', \<lambda>_. andthen (ASSERT (Inr True) ''p'' 30) (\<lambda>_. signals 11)),
      (''throw'', \<lambda>_. computes (Inl (InvalidMessage ''why'')))]"

lemma test_code_four_tests: "test_code (ret (Some ())) (\<lambda>_ st. st) four_tests"
  by (simp add: test_code_def four_tests_def keeps)

lemma test_main_reports_witness:
  "\<exists>st. test_main (ret (Some ())) (\<lambda>_ st. st) four_tests [''tests'']
      (tctest_init\<lparr>tct_on_test_executed := True, tct_on_complete := True\<rparr>) = (Inr 1, st) \<and>
    tct_calls st =
      [On_test_executed ''good'' True, On_test_executed ''bad'' False,
       On_test_executed ''crash'' False, On_test_executed ''throw'' False, On_complete 1 4] \<and>
    transcript st =
      ''good...passed!'' @ newline @ ''bad...failed ASSERT 1 == 2 at line 20'' @ newline @
      ''crash...segmentation fault (most recent ASSERT at line 30)'' @ newline @
      ''throw...std::exception (what='' @ [CHR 0x27] @ ''why'' @ [CHR 0x27] @ '')'' @ newline @
      ''3 test(s) failed'' @ newline"
proof -
  let ?st = "tctest_init\<lparr>tct_on_test_executed := True, tct_on_complete := True\<rparr>"
  let ?vs = "verdicts (ret (Some ())) (\<lambda>_ st. st) four_tests (with_argv [''tests''] ?st)"
  define st where "st = snd (test_main (ret (Some ())) (\<lambda>_ st. st) four_tests [''tests''] ?st)"
  have "fst (test_main (ret (Some ())) (\<lambda>_ st. st) four_tests [''tests''] ?st) = Inr 1"
    by code_simp
  then have m: "test_main (ret (Some ())) (\<lambda>_ st. st) four_tests [''tests''] ?st = (Inr 1, st)"
    by (simp add: st_def prod_eq_iff)
  have v: "?vs = [(''good'', True), (''bad'', False), (''crash'', False), (''throw'', False)]"
    by code_simp
  have "transcript (snd (test_main (ret (Some ())) (\<lambda>_ st. st) four_tests [''tests''] ?st)) =
      ''good...passed!'' @ newline @ ''bad...failed ASSERT 1 == 2 at line 20'' @ newline @
      ''crash...segmentation fault (most recent ASSERT at line 30)'' @ newline @
      ''throw...std::exception (what='' @ [CHR 0x27] @ ''why'' @ [CHR 0x27] @ '')'' @ newline @
      ''3 test(s) failed'' @ newline"
    by code_simp
  with test_main_reports [OF test_code_four_tests m refl refl] m show ?thesis
    unfolding v by simp
qed

subsection \<open>A test that receives a signal\<close>

text \<open>The signals that fail a test, with their messages.\<close>

definition crash_message :: "int \<Rightarrow> string option" where
  "crash_message signum =
     (if signum = 8 then Some ''floating point exception''
      else if signum = 11 then Some ''segmentation fault''
      else if signum = 7 then Some ''bus error''
      else if signum = 6 then Some ''abort (assert failed?)''
      else if signum = 5 then Some ''trap''
      else if signum = 31 then Some ''bad system call''
      else None)"

lemma find_signal_crash: "find_signal tctest_signal_list signum = crash_message signum"
  by (simp add: tctest_signal_list_def crash_message_def)

lemma registered_crash: "signum \<in> set (registered_signals tctest_signal_list) \<longleftrightarrow> crash_message signum \<noteq> None"
  by (auto simp: tctest_signal_list_def crash_message_def)

lemma crash_message_short: "crash_message signum = Some msg \<Longrightarrow> length msg \<le> 24"
  by (auto simp: crash_message_def split: if_splits)

text \<open>What the signal does where it arrives.\<close>

lemma signal_result:
  assumes "tct_handled st = registered_signals tctest_signal_list" and "tct_assertion_line st \<le> int_max"
  shows "signals signum st =
    (case crash_message signum of
       Some msg \<Rightarrow> (Inl Jumps, fold tctest_write (signal_writes msg (tct_assertion_line st)) st)
     | None \<Rightarrow> if default_action signum = Default_end then (Inl (Killed signum), st) else (Inr (), st))"
  using assms registered_crash [of signum] crash_message_short [of signum]
  by (auto simp: signals_def tctest_signal_handler_def find_signal_crash print_signal_msg_spec split: option.split)

text \<open>
  C36: a test that receives one of the six listed signals fails, and is not the end of the test
  program. Take a test whose function has run up to some point, in a program that has called
  \<open>TEST_INIT\<close>, and there receives a signal. For a floating point exception, segmentation
  fault, bus error, abort, trap or bad system call the handler (whose message pointer is never
  null) hands the descriptor its message with the decimal text of the line of the most recent
  \<open>ASSERT\<close>, within its two stack buffers, and \<open>TEST\<close> counts and reports a failure, cleans up and goes on.
  Any other signal whose default action is to end the process ends it there; one that is ignored or only
  stops the process for a while makes no difference, and the test passes.
\<close>

theorem signals_are_reported:
  assumes "tct_handled st0 = []" and "tct_handled st2 = tct_handled (TEST_INIT st0)"
    and "tct_assertion_line st2 \<le> int_max" and "selected st name"
    and "setup (st\<lparr>tct_num_executed := tct_num_executed st + 1, tct_assertion_line := -1\<rparr>) = (Inr t, st1)"
    and "func t (flush (printf (name @ ''...'') st1)) = (Inr (), st2)"
    and "finish = (\<lambda>st. case t of None \<Rightarrow> st | Some obj \<Rightarrow> cleanup obj st)"
  shows "TEST setup cleanup name (\<lambda>t. andthen (func t) (\<lambda>_. signals signum)) st =
    (case crash_message signum of
       Some msg \<Rightarrow>
         (Inr (), finish ((test_failed name
            (fold tctest_write (signal_writes msg (tct_assertion_line st2)) st2))
              \<lparr>tct_indeterminate := tct_indeterminate st2 \<or> t \<noteq> None\<rparr>))
     | None \<Rightarrow>
         if default_action signum = Default_end then (Inl (Killed signum), st2)
         else (Inr (), finish (test_executed name True (printf (''passed!'' @ newline) st2))))"
proof -
  have h: "tct_handled st2 = registered_signals tctest_signal_list"
    using assms(1,2) by (simp add: TEST_INIT_def tctest_register_signal_handlers_def)
  have "tct_indeterminate (fold tctest_write bs st) = tct_indeterminate st" for bs st
    by (induction bs arbitrary: st) (simp_all add: tctest_write_def)
  with signal_result [OF h assms(3), of signum] assms(4-7) show ?thesis
    by (auto simp: TEST_def selected_def test_body_def andthen_def TCTEST_CATCH_def Let_def
        split: option.split)
qed

text \<open>A test that crashes after its assertion at line 204.\<close>

definition crashing :: "unit option \<Rightarrow> unit action" where
  "crashing t = ASSERT (Inr True) ''p'' 204"

lemma signals_are_reported_witness:
  "\<exists>st'. TEST (ret (Some ())) (\<lambda>_ st. st) ''crash'' (\<lambda>t. andthen (crashing t) (\<lambda>_. signals 11))
      (TEST_INIT tctest_init) = (Inr (), st') \<and>
    tct_failures st' = 1 \<and>
    transcript st' = ''crash...segmentation fault (most recent ASSERT at line 204)'' @ newline"
proof -
  let ?st = "TEST_INIT tctest_init"
  let ?st1 = "?st\<lparr>tct_num_executed := tct_num_executed ?st + 1, tct_assertion_line := -1\<rparr>"
  let ?st2 = "(flush (printf (''crash'' @ ''...'') ?st1))\<lparr>tct_assertion_line := 204\<rparr>"
  let ?w = "fold tctest_write (signal_writes ''segmentation fault'' 204) ?st2"
  have f: "crashing (Some ()) (flush (printf (''crash'' @ ''...'') ?st1)) = (Inr (), ?st2)"
    by (simp add: crashing_def ASSERT_def andthen_def computes_def ret_def)
  have "TEST (ret (Some ())) (\<lambda>_ st. st) ''crash'' (\<lambda>t. andthen (crashing t) (\<lambda>_. signals 11)) ?st =
      (Inr (), (test_failed ''crash'' ?w)\<lparr>tct_indeterminate := True\<rparr>)"
    using signals_are_reported [of tctest_init ?st2 ?st "''crash''" "ret (Some ())" "Some ()" ?st1 crashing
        "\<lambda>st. st" "\<lambda>_ st. st" 11] f
    by (simp add: tctest_init_def TEST_INIT_def tctest_register_signal_handlers_def selected_def ret_def
        crash_message_def int_max_def flush_def printf_def)
  moreover have "tct_failures (test_failed ''crash'' ?w) = 1"
    "transcript ((test_failed ''crash'' ?w)\<lparr>tct_indeterminate := True\<rparr>) =
       ''crash...segmentation fault (most recent ASSERT at line 204)'' @ newline"
    by code_simp+
  ultimately show ?thesis by simp
qed

end
