(* ===== verification/Unit_Tests.thy ===== *)
theory Unit_Tests
  imports Wire_Correct Tctest_Correct
begin

text \<open>
  The repository's test programs (\<open>src/message_tests.cpp\<close>, \<open>src/io_tests.cpp\<close>) as programs of
  the test framework over the model: the test functions are the repository's, with the lines
  of their assertions, and the wire format, the framing and the temporary files they use are
  the model's. Running them is evaluating \<open>test_main\<close>.
\<close>

subsection \<open>Shared by the two programs\<close>

text \<open>The object \<open>setup\<close> made; \<open>cleanup\<close> only deletes it.\<close>

definition with_objs :: "('t \<Rightarrow> unit action) \<Rightarrow> 't option \<Rightarrow> unit action" where
  "with_objs f objs = (case objs of None \<Rightarrow> computes (Inl (Fatal ''null pointer'')) | Some t \<Rightarrow> f t)"

definition delete_objs :: "'t \<Rightarrow> tctest \<Rightarrow> tctest" where
  "delete_objs objs st = st"

fun sequence_tests :: "unit action list \<Rightarrow> unit action" where
  "sequence_tests [] = ret ()"
| "sequence_tests (a # as) = andthen a (\<lambda>_. sequence_tests as)"

text \<open>\<open>try { ...; FAIL(msg); } catch (E \&ex) { }\<close>.\<close>

definition should_throw :: "(exn \<Rightarrow> bool) \<Rightarrow> 'a res \<Rightarrow> string \<Rightarrow> unit action" where
  "should_throw caught r msg =
     (case r of
        Inr _ \<Rightarrow> FAIL msg
      | Inl e \<Rightarrow> if caught e then ret () else computes (Inl e))"

subsection \<open>message\_tests.cpp\<close>

record test_objs =
  test_order :: order
  order_no_items :: order
  login_msg_2 :: message
  login_msg_3 :: message
  quit_msg :: message
  ok_msg :: message
  error_msg :: message
  item_update_msg_1 :: message
  item_update_msg_2 :: message
  item_update_msg_3 :: message
  order_new_msg :: message
  disp_order_msg :: message
  order_update_msg_1 :: message
  order_update_msg_2 :: message
  order_update_msg_3 :: message
  disp_item_update_msg_1 :: message
  disp_item_update_msg_2 :: message
  disp_order_update_msg_1 :: message
  disp_order_update_msg_2 :: message
  disp_order_update_msg_3 :: message
  disp_heartbeat_msg :: message
  order_new_no_items_msg :: message

definition mk_test_objs :: test_objs where
  "mk_test_objs =
     (let ord = add_item (add_item (mk_order 121 OS_NEW)
            (mk_item 121 45 IS_NEW ''Dal Makhani'' 1)) (mk_item 121 67 IS_NEW ''Samosa'' 2);
          empty = mk_order 473 OS_NEW
      in \<lparr>test_order = ord,
          order_no_items = empty,
          login_msg_2 = message_login MT_LOGIN CM_UPDATER ''alice/foobar'',
          login_msg_3 = message_login MT_LOGIN CM_DISPLAY ''alice/foobar'',
          quit_msg = message_str MT_QUIT ''quit'',
          ok_msg = message_str MT_OK ''ok'',
          error_msg = message_str MT_ERROR ''invalid message'',
          item_update_msg_1 = message_item_update MT_ITEM_UPDATE 42 109 IS_NEW,
          item_update_msg_2 = message_item_update MT_ITEM_UPDATE 17 55 IS_IN_PROGRESS,
          item_update_msg_3 = message_item_update MT_ITEM_UPDATE 12 4 IS_DONE,
          order_new_msg = message_order MT_ORDER_NEW (Some ord),
          disp_order_msg = message_order MT_DISP_ORDER (Some ord),
          order_update_msg_1 = message_order_update MT_ORDER_UPDATE 43 OS_IN_PROGRESS,
          order_update_msg_2 = message_order_update MT_ORDER_UPDATE 43 OS_DONE,
          order_update_msg_3 = message_order_update MT_ORDER_UPDATE 43 OS_DELIVERED,
          disp_item_update_msg_1 = message_item_update MT_DISP_ITEM_UPDATE 99 105 IS_IN_PROGRESS,
          disp_item_update_msg_2 = message_item_update MT_DISP_ITEM_UPDATE 99 105 IS_DONE,
          disp_order_update_msg_1 = message_order_update MT_DISP_ORDER_UPDATE 83 OS_IN_PROGRESS,
          disp_order_update_msg_2 = message_order_update MT_DISP_ORDER_UPDATE 83 OS_DONE,
          disp_order_update_msg_3 = message_order_update MT_DISP_ORDER_UPDATE 83 OS_DELIVERED,
          disp_heartbeat_msg = message_plain MT_DISP_HEARTBEAT,
          order_new_no_items_msg = message_order MT_ORDER_NEW (Some empty)\<rparr>)"

definition message_tests_setup :: "test_objs option action" where
  "message_tests_setup = ret (Some mk_test_objs)"

text \<open>The macros of the tests; the second string is the text of the assertion's condition.\<close>

definition TEST_ENCODE :: "message \<Rightarrow> string \<Rightarrow> int \<Rightarrow> unit action" where
  "TEST_ENCODE msg_obj expected_str line =
     andthen (computes (encode msg_obj))
       (\<lambda>s. ASSERT (Inr (s = expected_str))
              (''s == ('' @ [CHR 0x22] @ expected_str @ [CHR 0x22] @ '')'') line)"

definition TEST_DECODE :: "message \<Rightarrow> string \<Rightarrow> string \<Rightarrow> int \<Rightarrow> unit action" where
  "TEST_DECODE expected_msg_obj name encoded_str line =
     andthen (computes (decode encoded_str))
       (\<lambda>msg. ASSERT (message_eq msg expected_msg_obj) (''msg == ('' @ name @ '')'') line)"

definition TEST_DECODE_INVALID :: "string \<Rightarrow> unit action" where
  "TEST_DECODE_INVALID s = should_throw is_InvalidMessage (decode s)
     ''Wire::decode failed to throw an exception for invalid encoded message''"

definition test_encode_login_2 :: "test_objs option \<Rightarrow> unit action" where
  "test_encode_login_2 = with_objs (\<lambda>objs. TEST_ENCODE (login_msg_2 objs) ''LOGIN|UPDATER|alice/foobar'' 147)"

definition test_encode_login_3 :: "test_objs option \<Rightarrow> unit action" where
  "test_encode_login_3 = with_objs (\<lambda>objs. TEST_ENCODE (login_msg_3 objs) ''LOGIN|DISPLAY|alice/foobar'' 151)"

definition test_encode_quit :: "test_objs option \<Rightarrow> unit action" where
  "test_encode_quit = with_objs (\<lambda>objs. TEST_ENCODE (quit_msg objs) ''QUIT|quit'' 155)"

definition test_encode_ok :: "test_objs option \<Rightarrow> unit action" where
  "test_encode_ok = with_objs (\<lambda>objs. TEST_ENCODE (ok_msg objs) ''OK|ok'' 159)"

definition test_encode_error :: "test_objs option \<Rightarrow> unit action" where
  "test_encode_error = with_objs (\<lambda>objs. TEST_ENCODE (error_msg objs) ''ERROR|invalid message'' 163)"

definition test_encode_item_update :: "test_objs option \<Rightarrow> unit action" where
  "test_encode_item_update = with_objs (\<lambda>objs. sequence_tests
     [TEST_ENCODE (item_update_msg_1 objs) ''ITEM_UPDATE|42|109|NEW'' 167,
      TEST_ENCODE (item_update_msg_2 objs) ''ITEM_UPDATE|17|55|IN_PROGRESS'' 168,
      TEST_ENCODE (item_update_msg_3 objs) ''ITEM_UPDATE|12|4|DONE'' 169])"

definition test_encode_order_new :: "test_objs option \<Rightarrow> unit action" where
  "test_encode_order_new = with_objs (\<lambda>objs. TEST_ENCODE (order_new_msg objs) ''ORDER_NEW|121,NEW,121:45:NEW:Dal Makhani:1;121:67:NEW:Samosa:2'' 173)"

definition test_encode_disp_order :: "test_objs option \<Rightarrow> unit action" where
  "test_encode_disp_order = with_objs (\<lambda>objs. TEST_ENCODE (disp_order_msg objs) ''DISP_ORDER|121,NEW,121:45:NEW:Dal Makhani:1;121:67:NEW:Samosa:2'' 177)"

definition test_encode_order_update :: "test_objs option \<Rightarrow> unit action" where
  "test_encode_order_update = with_objs (\<lambda>objs. sequence_tests
     [TEST_ENCODE (order_update_msg_1 objs) ''ORDER_UPDATE|43|IN_PROGRESS'' 181,
      TEST_ENCODE (order_update_msg_2 objs) ''ORDER_UPDATE|43|DONE'' 182,
      TEST_ENCODE (order_update_msg_3 objs) ''ORDER_UPDATE|43|DELIVERED'' 183])"

definition test_encode_disp_item_update :: "test_objs option \<Rightarrow> unit action" where
  "test_encode_disp_item_update = with_objs (\<lambda>objs. sequence_tests
     [TEST_ENCODE (disp_item_update_msg_1 objs) ''DISP_ITEM_UPDATE|99|105|IN_PROGRESS'' 187,
      TEST_ENCODE (disp_item_update_msg_2 objs) ''DISP_ITEM_UPDATE|99|105|DONE'' 188])"

definition test_encode_disp_order_update :: "test_objs option \<Rightarrow> unit action" where
  "test_encode_disp_order_update = with_objs (\<lambda>objs. sequence_tests
     [TEST_ENCODE (disp_order_update_msg_1 objs) ''DISP_ORDER_UPDATE|83|IN_PROGRESS'' 192,
      TEST_ENCODE (disp_order_update_msg_2 objs) ''DISP_ORDER_UPDATE|83|DONE'' 193,
      TEST_ENCODE (disp_order_update_msg_3 objs) ''DISP_ORDER_UPDATE|83|DELIVERED'' 194])"

definition test_encode_disp_heartbeat :: "test_objs option \<Rightarrow> unit action" where
  "test_encode_disp_heartbeat = with_objs (\<lambda>objs. TEST_ENCODE (disp_heartbeat_msg objs) ''DISP_HEARTBEAT'' 198)"

definition test_decode_login_2 :: "test_objs option \<Rightarrow> unit action" where
  "test_decode_login_2 = with_objs (\<lambda>objs. TEST_DECODE (login_msg_2 objs) ''objs->login_msg_2'' ''LOGIN|UPDATER|alice/foobar'' 218)"

definition test_decode_login_3 :: "test_objs option \<Rightarrow> unit action" where
  "test_decode_login_3 = with_objs (\<lambda>objs. TEST_DECODE (login_msg_3 objs) ''objs->login_msg_3'' ''LOGIN|DISPLAY|alice/foobar'' 222)"

definition test_decode_quit :: "test_objs option \<Rightarrow> unit action" where
  "test_decode_quit = with_objs (\<lambda>objs. TEST_DECODE (quit_msg objs) ''objs->quit_msg'' ''QUIT|quit'' 226)"

definition test_decode_ok :: "test_objs option \<Rightarrow> unit action" where
  "test_decode_ok = with_objs (\<lambda>objs. TEST_DECODE (ok_msg objs) ''objs->ok_msg'' ''OK|ok'' 230)"

definition test_decode_error :: "test_objs option \<Rightarrow> unit action" where
  "test_decode_error = with_objs (\<lambda>objs. TEST_DECODE (error_msg objs) ''objs->error_msg'' ''ERROR|invalid message'' 234)"

definition test_decode_item_update :: "test_objs option \<Rightarrow> unit action" where
  "test_decode_item_update = with_objs (\<lambda>objs. sequence_tests
     [TEST_DECODE (item_update_msg_1 objs) ''objs->item_update_msg_1'' ''ITEM_UPDATE|42|109|NEW'' 238,
      TEST_DECODE (item_update_msg_2 objs) ''objs->item_update_msg_2'' ''ITEM_UPDATE|17|55|IN_PROGRESS'' 239,
      TEST_DECODE (item_update_msg_3 objs) ''objs->item_update_msg_3'' ''ITEM_UPDATE|12|4|DONE'' 240])"

definition test_decode_order_new :: "test_objs option \<Rightarrow> unit action" where
  "test_decode_order_new = with_objs (\<lambda>objs. TEST_DECODE (order_new_msg objs) ''objs->order_new_msg'' ''ORDER_NEW|121,NEW,121:45:NEW:Dal Makhani:1;121:67:NEW:Samosa:2'' 244)"

definition test_decode_disp_order :: "test_objs option \<Rightarrow> unit action" where
  "test_decode_disp_order = with_objs (\<lambda>objs. TEST_DECODE (disp_order_msg objs) ''objs->disp_order_msg'' ''DISP_ORDER|121,NEW,121:45:NEW:Dal Makhani:1;121:67:NEW:Samosa:2'' 248)"

definition test_decode_order_update :: "test_objs option \<Rightarrow> unit action" where
  "test_decode_order_update = with_objs (\<lambda>objs. sequence_tests
     [TEST_DECODE (order_update_msg_1 objs) ''objs->order_update_msg_1'' ''ORDER_UPDATE|43|IN_PROGRESS'' 252,
      TEST_DECODE (order_update_msg_2 objs) ''objs->order_update_msg_2'' ''ORDER_UPDATE|43|DONE'' 253,
      TEST_DECODE (order_update_msg_3 objs) ''objs->order_update_msg_3'' ''ORDER_UPDATE|43|DELIVERED'' 254])"

definition test_decode_disp_item_update :: "test_objs option \<Rightarrow> unit action" where
  "test_decode_disp_item_update = with_objs (\<lambda>objs. sequence_tests
     [TEST_DECODE (disp_item_update_msg_1 objs) ''objs->disp_item_update_msg_1'' ''DISP_ITEM_UPDATE|99|105|IN_PROGRESS'' 258,
      TEST_DECODE (disp_item_update_msg_2 objs) ''objs->disp_item_update_msg_2'' ''DISP_ITEM_UPDATE|99|105|DONE'' 259])"

definition test_decode_disp_order_update :: "test_objs option \<Rightarrow> unit action" where
  "test_decode_disp_order_update = with_objs (\<lambda>objs. sequence_tests
     [TEST_DECODE (disp_order_update_msg_1 objs) ''objs->disp_order_update_msg_1'' ''DISP_ORDER_UPDATE|83|IN_PROGRESS'' 263,
      TEST_DECODE (disp_order_update_msg_2 objs) ''objs->disp_order_update_msg_2'' ''DISP_ORDER_UPDATE|83|DONE'' 264,
      TEST_DECODE (disp_order_update_msg_3 objs) ''objs->disp_order_update_msg_3'' ''DISP_ORDER_UPDATE|83|DELIVERED'' 265])"

definition test_decode_disp_heartbeat :: "test_objs option \<Rightarrow> unit action" where
  "test_decode_disp_heartbeat = with_objs (\<lambda>objs. TEST_DECODE (disp_heartbeat_msg objs) ''objs->disp_heartbeat_msg'' ''DISP_HEARTBEAT'' 269)"

definition test_decode_invalid :: "test_objs option \<Rightarrow> unit action" where
  "test_decode_invalid _ = sequence_tests (List.map TEST_DECODE_INVALID
     [''FOOBAR|blat'',
      ''INVALID|blah'',
      ''LOGIN'',
      ''LOGIN|alice/foobar|123'',
      ''OK|chunky bacon|101'',
      ''ERROR|blah blah|99|100'',
      ''QUIT|kthxbye|yo'',
      ''ITEM_UPDATE|101|202|FOOBAR'',
      ''ITEM_UPDATE|0|14|IN_PROGRESS'',
      ''ITEM_UPDATE|11|-3|DONE'',
      ''ORDER_NEW|-2,NEW,121:45:NEW:Dal Makhani:1;121:67:NEW:Samosa:2'',
      ''ORDER_NEW|121,FOOBAR,121:45:NEW:Dal Makhani:1;121:67:NEW:Samosa:2'',
      ''ORDER_NEW|121,NEW,121:0:NEW:Dal Makhani:1;121:67:NEW:Samosa:2'',
      ''ORDER_NEW|121,NEW,121:45:FOOBAR:Dal Makhani:1;121:67:NEW:Samosa:2'',
      ''ORDER_NEW|121,NEW,121:45:NEW:Dal Makhani:0;121:67:NEW:Samosa:2'',
      ''ORDER_NEW|121,NEW,121:45:NEW:Dal Makhani:1;121:67:NEW:Samosa:2:67'',
      ''ITEM_UPDATE|0|55|IN_PROGRESS'',
      ''ITEM_UPDATE|17|-42|IN_PROGRESS'',
      ''ITEM_UPDATE|17|55|SPLUNGE'',
      ''ORDER_UPDATE|0|DELIVERED'',
      ''ORDER_UPDATE|43|HELLO''])"

definition test_decode_invalid_tricky :: "test_objs option \<Rightarrow> unit action" where
  "test_decode_invalid_tricky _ = sequence_tests (List.map TEST_DECODE_INVALID
     [''ORDER_NEW|121x,NEW,121:45:NEW:Dal Makhani:1;121:67:NEW:Samosa:2'',
      ''ORDER_NEW|0x123,NEW,121:45:NEW:Dal Makhani:1;121:67:NEW:Samosa:2'',
      ''ORDER_NEW|121,NEW,121x:45:NEW:Dal Makhani:1;121:67:NEW:Samosa:2'',
      ''ORDER_NEW|121,NEW,0x123:45:NEW:Dal Makhani:1;121:67:NEW:Samosa:2'',
      ''ORDER_NEW|121,NEW,121:45YY:NEW:Dal Makhani:1;121:67:NEW:Samosa:2'',
      ''ORDER_NEW|121,NEW,121:0x9:NEW:Dal Makhani:1;121:67:NEW:Samosa:2'',
      ''ORDER_NEW|121,NEW,121:45:NEW:Dal Makhani:1Z;121:67:NEW:Samosa:2'',
      ''ORDER_NEW|121,NEW,121:45:NEW:Dal Makhani:0x1;121:67:NEW:Samosa:2''])"

definition test_encode_order_new_no_items :: "test_objs option \<Rightarrow> unit action" where
  "test_encode_order_new_no_items = with_objs (\<lambda>objs.
     should_throw is_InvalidMessage (encode (order_new_no_items_msg objs))
       ''should throw InvalidMessage encoding Order with no Items'')"

definition test_decode_order_new_no_items :: "test_objs option \<Rightarrow> unit action" where
  "test_decode_order_new_no_items _ =
     should_throw is_InvalidMessage (decode ''ORDER_NEW|473,NEW,'')
       ''should throw InvalidMessage decoding Order with no Items''"

definition message_tests :: "test_objs test list" where
  "message_tests =
     [(''test_encode_login_2'', test_encode_login_2),
      (''test_encode_login_3'', test_encode_login_3),
      (''test_encode_quit'', test_encode_quit),
      (''test_encode_ok'', test_encode_ok),
      (''test_encode_error'', test_encode_error),
      (''test_encode_item_update'', test_encode_item_update),
      (''test_encode_order_new'', test_encode_order_new),
      (''test_encode_disp_order'', test_encode_disp_order),
      (''test_encode_order_update'', test_encode_order_update),
      (''test_encode_disp_item_update'', test_encode_disp_item_update),
      (''test_encode_disp_order_update'', test_encode_disp_order_update),
      (''test_encode_disp_heartbeat'', test_encode_disp_heartbeat),
      (''test_encode_order_new_no_items'', test_encode_order_new_no_items),
      (''test_decode_login_2'', test_decode_login_2),
      (''test_decode_login_3'', test_decode_login_3),
      (''test_decode_quit'', test_decode_quit),
      (''test_decode_ok'', test_decode_ok),
      (''test_decode_error'', test_decode_error),
      (''test_decode_item_update'', test_decode_item_update),
      (''test_decode_order_new'', test_decode_order_new),
      (''test_decode_disp_order'', test_decode_disp_order),
      (''test_decode_order_update'', test_decode_order_update),
      (''test_decode_disp_item_update'', test_decode_disp_item_update),
      (''test_decode_disp_order_update'', test_decode_disp_order_update),
      (''test_decode_disp_heartbeat'', test_decode_disp_heartbeat),
      (''test_decode_invalid'', test_decode_invalid),
      (''test_decode_invalid_tricky'', test_decode_invalid_tricky),
      (''test_decode_order_new_no_items'', test_decode_order_new_no_items)]"

subsection \<open>io\_tests.cpp\<close>

text \<open>
  The code of a test in the scope of a \<open>TmpFile\<close>: it changes the object and the program's state.
  A failed \<open>assert\<close> calls \<open>abort\<close>.
\<close>

type_synonym 'a scoped = "tmp_file \<Rightarrow> tctest \<Rightarrow> (stop + 'a) \<times> tmp_file \<times> tctest"

definition code :: "'a action \<Rightarrow> 'a scoped" where
  "code a tf st = (case a st of (r, st1) \<Rightarrow> (r, tf, st1))"

definition calls :: "'a file_method \<Rightarrow> 'a scoped" where
  "calls m tf st =
     (case m tf (tct_disk st) of (r, tf1, dk1) \<Rightarrow>
        let st1 = st\<lparr>tct_disk := dk1\<rparr> in
        case r of
          Inl e \<Rightarrow> code (if e = Fatal ''assert'' then aborts else computes (Inl e)) tf1 st1
        | Inr x \<Rightarrow> (Inr x, tf1, st1))"

definition scoped_then :: "'a scoped \<Rightarrow> ('a \<Rightarrow> 'b scoped) \<Rightarrow> 'b scoped" where
  "scoped_then m f tf st =
     (case m tf st of (Inl s, tf1, st1) \<Rightarrow> (Inl s, tf1, st1) | (Inr x, tf1, st1) \<Rightarrow> f x tf1 st1)"

text \<open>\<open>try { ...; FAIL(msg); } catch (IOException \&ex) { }\<close>.\<close>

definition should_raise :: "'a file_method \<Rightarrow> string \<Rightarrow> unit scoped" where
  "should_raise m msg tf st =
     (case calls m tf st of
        (Inr _, tf1, st1) \<Rightarrow> code (FAIL msg) tf1 st1
      | (Inl (Throws e), tf1, st1) \<Rightarrow> (if is_IOException e then Inr () else Inl (Throws e), tf1, st1)
      | (Inl s, tf1, st1) \<Rightarrow> (Inl s, tf1, st1))"

text \<open>
  The scope of a local object: its destructor runs when the end is reached and when an exception
  passes; \<open>siglongjmp\<close> leaves the scope without it.
\<close>

definition with_TmpFile :: "(disk \<Rightarrow> tmp_file res \<times> disk) \<Rightarrow> unit scoped \<Rightarrow> unit action" where
  "with_TmpFile constructor body st =
     (case constructor (tct_disk st) of
        (Inl e, dk1) \<Rightarrow>
          (if e = Fatal ''assert'' then aborts else computes (Inl e)) (st\<lparr>tct_disk := dk1\<rparr>)
      | (Inr tf, dk1) \<Rightarrow>
          (case body tf (st\<lparr>tct_disk := dk1\<rparr>) of (r, tf1, st1) \<Rightarrow>
             let destroyed = st1\<lparr>tct_disk := TmpFile_destroy tf1 (tct_disk st1)\<rparr> in
             case r of
               Inr _ \<Rightarrow> (r, destroyed)
             | Inl (Throws e) \<Rightarrow> (r, if is_std_exception e then destroyed else st1)
             | Inl Throws_other \<Rightarrow> (r, destroyed)
             | Inl _ \<Rightarrow> (r, st1)))"

text \<open>The text of an assertion \<open>v == "s\textbackslash n"\<close>, with every newline of \<open>s\<close> as the two characters of the source.\<close>

definition equals_text :: "string \<Rightarrow> string \<Rightarrow> string" where
  "equals_text v s = v @ '' == '' @ [CHR 0x22] @
     concat (List.map (\<lambda>c. if c = CHR 0x0A then [CHR 0x5C, CHR 0x6E] else [c]) s) @ [CHR 0x22]"

definition ASSERT_EQ :: "string \<Rightarrow> string \<Rightarrow> string \<Rightarrow> int \<Rightarrow> unit scoped" where
  "ASSERT_EQ s v expected line = code (ASSERT (Inr (s = expected)) (equals_text v expected) line)"

definition test_send :: "unit option \<Rightarrow> unit action" where
  "test_send objs =
     with_TmpFile TmpFile
       (scoped_then (calls (send_to ''hello, world!'')) (\<lambda>_.
        scoped_then (calls done_writing) (\<lambda>_.
        scoped_then (calls read_string) (\<lambda>s.
        ASSERT_EQ s ''s'' (''0014hello, world!'' @ newline) 172))))"

definition test_send_multiple :: "unit option \<Rightarrow> unit action" where
  "test_send_multiple objs =
     with_TmpFile TmpFile
       (scoped_then (calls (send_to ''first message'')) (\<lambda>_.
        scoped_then (calls (send_to ''second message'')) (\<lambda>_.
        scoped_then (calls (send_to ''third message'')) (\<lambda>_.
        scoped_then (calls done_writing) (\<lambda>_.
        scoped_then (calls read_string) (\<lambda>s.
        ASSERT_EQ s ''s'' (''0014first message'' @ newline @ ''0015second message'' @ newline @
          ''0014third message'' @ newline) 185))))))"

definition test_receive_1 :: "unit option \<Rightarrow> unit action" where
  "test_receive_1 objs =
     with_TmpFile TmpFile
       (scoped_then (calls (write_string (''0014hello, world!'' @ newline))) (\<lambda>_.
        scoped_then (calls done_writing) (\<lambda>_.
        scoped_then (calls receive_from) (\<lambda>s.
        ASSERT_EQ s ''s'' ''hello, world!'' 196))))"

definition test_receive_2 :: "unit option \<Rightarrow> unit action" where
  "test_receive_2 objs =
     with_TmpFile TmpFile
       (scoped_then (calls (write_string (''00021'' @ newline @ ''0011ABCDEFGHIJ'' @ newline))) (\<lambda>_.
        scoped_then (calls done_writing) (\<lambda>_.
        scoped_then (calls receive_from) (\<lambda>s.
        scoped_then (ASSERT_EQ s ''s'' ''1'' 209) (\<lambda>_.
        scoped_then (calls receive_from) (\<lambda>s2.
        ASSERT_EQ s2 ''s2'' ''ABCDEFGHIJ'' 213))))))"

definition test_send_ioerror :: "unit option \<Rightarrow> unit action" where
  "test_send_ioerror objs =
     with_TmpFile TmpFile
       (scoped_then (calls reopen_as_readonly) (\<lambda>_.
        should_raise (send_to ''hello, world!'') ''send to readonly file should throw IOException''))"

definition test_receive_ioerror_1 :: "unit option \<Rightarrow> unit action" where
  "test_receive_ioerror_1 objs =
     with_TmpFile TmpFile
       (scoped_then (calls (write_string (''002a'' @ newline))) (\<lambda>_.
        scoped_then (calls done_writing) (\<lambda>_.
        should_raise receive_from ''reading malformed encoded string should throw IOException'')))"

definition test_receive_ioerror_2 :: "unit option \<Rightarrow> unit action" where
  "test_receive_ioerror_2 objs =
     with_TmpFile TmpFile
       (scoped_then (calls (write_string (''0005abcd0004efgh'' @ newline))) (\<lambda>_.
        scoped_then (calls done_writing) (\<lambda>_.
        should_raise receive_from ''reading encoded string w/o terminating newline should throw IOException'')))"

definition test_receive_ioerror_3 :: "unit option \<Rightarrow> unit action" where
  "test_receive_ioerror_3 objs =
     with_TmpFile (TmpFile_named ''/dev/null'')
       (scoped_then (calls done_writing) (\<lambda>_.
        should_raise receive_from ''IO::receive reading from /dev/null should throw IOException''))"

definition io_tests :: "unit test list" where
  "io_tests =
     [(''test_send'', test_send),
      (''test_send_multiple'', test_send_multiple),
      (''test_receive_1'', test_receive_1),
      (''test_receive_2'', test_receive_2),
      (''test_send_ioerror'', test_send_ioerror),
      (''test_receive_ioerror_1'', test_receive_ioerror_1),
      (''test_receive_ioerror_2'', test_receive_ioerror_2),
      (''test_receive_ioerror_3'', test_receive_ioerror_3)]"

subsection \<open>The programs\<close>

definition message_tests_main :: "string list \<Rightarrow> int action" where
  "message_tests_main = test_main message_tests_setup delete_objs message_tests"

definition io_tests_setup :: "unit option action" where
  "io_tests_setup = ret (Some ())"

definition io_tests_main :: "string list \<Rightarrow> int action" where
  "io_tests_main = test_main io_tests_setup delete_objs io_tests"

end
