(* ===== verification/Unit_Tests_Correct.thy ===== *)
theory Unit_Tests_Correct
  imports Unit_Tests
begin

text \<open>
  The repository's test programs pass on the model, and leave the file system as they found it.
\<close>

subsection \<open>Code that passes\<close>

definition all_succeed :: "call list \<Rightarrow> bool" where
  "all_succeed cs \<longleftrightarrow> list_all (\<lambda>c. c = Call_Ok) cs"

text \<open>A temporary file can be created, and opened again.\<close>

definition disk_ready :: "disk \<Rightarrow> bool" where
  "disk_ready dk \<longleftrightarrow> all_succeed (disk_calls dk) \<and> disk_io dk = [] \<and> temp_name ''iotestXXXXXX'' dk \<noteq> None"

text \<open>
  The code returns, and leaves nothing but the line of its last assertion and the system calls it
  made: the files and the open descriptors are what they were.
\<close>

definition after_code :: "tctest \<Rightarrow> int \<Rightarrow> call list \<Rightarrow> tctest" where
  "after_code st line cs = st\<lparr>tct_assertion_line := line, tct_disk := (tct_disk st)\<lparr>disk_calls := cs\<rparr>\<rparr>"

definition passing :: "unit action \<Rightarrow> bool" where
  "passing a \<longleftrightarrow> (\<forall>st. disk_ready (tct_disk st) \<longrightarrow>
     (\<exists>line cs. a st = (Inr (), after_code st line cs) \<and> all_succeed cs))"

lemma after_code_sel [simp]:
  "tct_disk (after_code st l cs) = (tct_disk st)\<lparr>disk_calls := cs\<rparr>"
  "after_code (after_code st l cs) k ds = after_code st k ds"
  "after_code st (tct_assertion_line st) (disk_calls (tct_disk st)) = st"
  by (simp_all add: after_code_def)

lemma calls_irrelevant [simp]:
  "temp_name t (dk\<lparr>disk_calls := cs\<rparr>) = temp_name t dk"
  "file_content name (dk\<lparr>disk_calls := cs\<rparr>) = file_content name dk"
  "disk_fds (dk\<lparr>disk_calls := cs\<rparr>) = disk_fds dk"
  by (simp_all add: temp_name_def file_content_def disk_fds_def)

lemma disk_ready_after [simp]: "disk_ready dk \<Longrightarrow> all_succeed cs \<Longrightarrow> disk_ready (dk\<lparr>disk_calls := cs\<rparr>)"
  by (simp add: disk_ready_def)

lemma passing_ret [intro]: "passing (ret ())"
  unfolding passing_def
proof (intro allI impI)
  fix st :: tctest assume "disk_ready (tct_disk st)"
  then show "\<exists>line cs. ret () st = (Inr (), after_code st line cs) \<and> all_succeed cs"
    by (intro exI [of _ "tct_assertion_line st"] exI [of _ "disk_calls (tct_disk st)"])
      (simp add: ret_def disk_ready_def)
qed

lemma passing_andthen:
  assumes "passing a" and "passing (f ())"
  shows "passing (andthen a f)"
  unfolding passing_def
proof (intro allI impI)
  fix st :: tctest assume ready: "disk_ready (tct_disk st)"
  then obtain l cs where a: "a st = (Inr (), after_code st l cs)" "all_succeed cs"
    using assms(1) by (auto simp: passing_def)
  with ready have "disk_ready (tct_disk (after_code st l cs))" by simp
  then obtain k ds where "f () (after_code st l cs) = (Inr (), after_code (after_code st l cs) k ds)" "all_succeed ds"
    using assms(2) unfolding passing_def by blast
  with a show "\<exists>line cs. andthen a f st = (Inr (), after_code st line cs) \<and> all_succeed cs"
    by (auto simp: andthen_def)
qed

lemma passing_computes: "r = Inr x \<Longrightarrow> passing (f x) \<Longrightarrow> passing (andthen (computes r) f)"
  by (simp add: passing_def andthen_def computes_def)

lemma ASSERT_true: "ASSERT (Inr True) cond line st = (Inr (), after_code st line (disk_calls (tct_disk st)))"
  by (simp add: ASSERT_def andthen_def computes_def ret_def after_code_def)

lemma passing_ASSERT: "c = Inr True \<Longrightarrow> passing (ASSERT c cond line)"
  unfolding passing_def
proof (intro allI impI)
  fix st :: tctest assume "c = Inr True" and "disk_ready (tct_disk st)"
  then show "\<exists>l cs. ASSERT c cond line st = (Inr (), after_code st l cs) \<and> all_succeed cs"
    by (intro exI [of _ line] exI [of _ "disk_calls (tct_disk st)"]) (simp add: ASSERT_true disk_ready_def)
qed

lemma passing_sequence [intro]: "list_all passing as \<Longrightarrow> passing (sequence_tests as)"
  by (induction as) (auto intro: passing_andthen)

lemma passing_should_throw [intro]:
  "(case r of Inl e \<Rightarrow> caught e | Inr _ \<Rightarrow> False) \<Longrightarrow> passing (should_throw caught r msg)"
  by (auto simp: should_throw_def split: sum.splits)

lemma passing_TEST_ENCODE [intro]: "encode m = Inr s \<Longrightarrow> passing (TEST_ENCODE m s line)"
  unfolding TEST_ENCODE_def by (intro passing_computes passing_ASSERT) simp_all

lemma passing_TEST_DECODE [intro]:
  "(case decode s of Inr msg \<Rightarrow> message_eq msg m = Inr True | Inl _ \<Rightarrow> False) \<Longrightarrow>
     passing (TEST_DECODE m name s line)"
  unfolding TEST_DECODE_def by (auto intro: passing_computes passing_ASSERT split: sum.splits)

subsection \<open>Code in the scope of a file\<close>

text \<open>
  The program's state while a test has its file: the file's descriptor is the lowest that was
  free. The file is a new one, or the always empty \<open>/dev/null\<close>.
\<close>

definition own_fd :: "disk \<Rightarrow> nat" where
  "own_fd dk0 = free_fd (disk_fds dk0)"

definition with_file :: "disk \<Rightarrow> bool \<Rightarrow> string \<Rightarrow> bool \<Rightarrow> string \<Rightarrow> fd \<Rightarrow> call list \<Rightarrow> disk" where
  "with_file dk0 new name w content d cs =
     dk0\<lparr>disk_files := (if new then [(name, content)] else []) @ disk_files dk0,
         disk_open := (own_fd dk0, \<lparr>open_name = name, open_writable = w, open_fd = d\<rparr>) # disk_open dk0,
         disk_calls := cs\<rparr>"

definition file_valid :: "disk \<Rightarrow> bool \<Rightarrow> string \<Rightarrow> string \<Rightarrow> bool" where
  "file_valid dk0 new name content \<longleftrightarrow>
     disk_io dk0 = [] \<and> (if new then file_content name dk0 = None else name = dev_null \<and> content = [])"

definition tf_writing :: "disk \<Rightarrow> bool \<Rightarrow> string \<Rightarrow> tmp_file" where
  "tf_writing dk0 new name = \<lparr>filename = name, created = new, writefd = int (own_fd dk0), readfd = -1\<rparr>"

definition tf_reading :: "disk \<Rightarrow> bool \<Rightarrow> string \<Rightarrow> tmp_file" where
  "tf_reading dk0 new name = \<lparr>filename = name, created = new, writefd = -1, readfd = int (own_fd dk0)\<rparr>"

lemma own_fd_fresh: "(own_fd dk0, h) \<notin> set (disk_open dk0)" "own_fd dk0 \<notin> fst ` set (disk_open dk0)"
  using free_fd_fresh [of "disk_fds dk0"] by (force simp: own_fd_def disk_fds_def)+

lemma own_fd_filter: "filter (\<lambda>p. fst p \<noteq> own_fd dk0) (disk_open dk0) = disk_open dk0"
  using own_fd_fresh(2) by (force simp: filter_id_conv)

lemma own_fd_map: "List.map (\<lambda>p. if fst p = own_fd dk0 then f p else p) (disk_open dk0) = disk_open dk0"
  using own_fd_fresh(2) by (force intro: map_idI)

text \<open>Opening the file when no read or write is to be cut short.\<close>

lemma open_complete:
  "disk_io dk = [] \<Longrightarrow> open_as name w content dk =
     (int (free_fd (disk_fds dk)), dk\<lparr>disk_open := (free_fd (disk_fds dk),
        \<lparr>open_name = name, open_writable = w, open_fd = plain_fd content\<rparr>) # disk_open dk\<rparr>)"
  by (simp add: open_as_def next_io_def plain_fd_def Let_def)

lemma valid_name: "file_valid dk0 new name content \<Longrightarrow> name \<notin> fst ` set (disk_files dk0) \<or> name = dev_null \<and> \<not> new"
  by (auto simp: file_valid_def file_content_def map_of_eq_None_iff split: if_splits)

lemma disk_call_succeeds:
  assumes "all_succeed (disk_calls dk)"
  obtains cs where "disk_call dk = (True, dk\<lparr>disk_calls := cs\<rparr>)" and "all_succeed cs"
proof (cases "disk_calls dk")
  case Nil
  have "dk\<lparr>disk_calls := disk_calls dk\<rparr> = dk" by simp
  with Nil have "disk_call dk = (True, dk\<lparr>disk_calls := []\<rparr>)" by (simp add: disk_call_def)
  then show ?thesis using that by (simp add: all_succeed_def)
next
  case (Cons c cs)
  with assms that show ?thesis by (simp add: disk_call_def all_succeed_def)
qed

text \<open>The system calls of a \<open>TmpFile\<close>.\<close>

lemma new_file:
  assumes "disk_ready dk0"
  obtains name cs where "TmpFile dk0 = (Inr (tf_writing dk0 True name), with_file dk0 True name True [] (plain_fd []) cs)"
    and "all_succeed cs" and "file_valid dk0 True name []"
proof -
  obtain cs where cs: "disk_call dk0 = (True, dk0\<lparr>disk_calls := cs\<rparr>)" "all_succeed cs"
    using disk_call_succeeds assms by (auto simp: disk_ready_def)
  obtain name where n: "temp_name ''iotestXXXXXX'' dk0 = Some name"
    using assms by (auto simp: disk_ready_def)
  then have "file_valid dk0 True name []"
    using assms by (auto simp: temp_name_def find_Some_iff file_valid_def disk_ready_def)
  moreover have "TmpFile dk0 = (Inr (tf_writing dk0 True name), with_file dk0 True name True [] (plain_fd []) cs)"
    using cs n assms by (simp add: disk_ready_def TmpFile_def sys_mkstemp_def open_complete with_file_def tf_writing_def
        own_fd_def disk_fds_def)
  ultimately show ?thesis using that cs(2) by blast
qed

lemma dev_null_file:
  assumes "all_succeed (disk_calls dk0)" and "disk_io dk0 = []"
  obtains cs where "TmpFile_named ''/dev/null'' dk0 =
      (Inr (tf_writing dk0 False dev_null), with_file dk0 False dev_null True [] (plain_fd []) cs)"
    and "all_succeed cs" and "file_valid dk0 False dev_null []"
proof -
  obtain cs where cs: "disk_call dk0 = (True, dk0\<lparr>disk_calls := cs\<rparr>)" "all_succeed cs"
    using disk_call_succeeds assms(1) by blast
  with assms(2) have "TmpFile_named ''/dev/null'' dk0 =
      (Inr (tf_writing dk0 False dev_null), with_file dk0 False dev_null True [] (plain_fd []) cs)"
    by (simp add: TmpFile_named_def sys_open_def open_complete with_file_def tf_writing_def
        own_fd_def disk_fds_def file_content_def dev_null_def)
  then show ?thesis using that cs(2) assms(2) by (simp add: file_valid_def)
qed

lemma use_file:
  assumes "file_valid dk0 new name content" and "w \<longrightarrow> new"
  shows "with_fd (int (own_fd dk0)) f (with_file dk0 new name w content d cs) =
    (fst (f (for_use w d)), with_file dk0 new name w
       (if w then written (snd (f (for_use w d))) content else content) (snd (f (for_use w d))) cs)"
proof -
  have "List.map (\<lambda>p. if w \<and> fst p = name then (fst p, g (snd p)) else p) (disk_files dk0) = disk_files dk0" for g
    using valid_name [OF assms(1)] assms(2) by (force intro: map_idI)
  then show ?thesis
    using own_fd_map [of dk0]
    by (simp add: with_fd_def with_file_def split: prod.split)
qed

lemma open_again:
  assumes "file_valid dk0 new name content" and "all_succeed cs"
  obtains cs' where "sys_open name False (disk_close (int (own_fd dk0)) (with_file dk0 new name w content d cs)) =
      (int (own_fd dk0), with_file dk0 new name False content (plain_fd content) cs')" and "all_succeed cs'"
proof -
  let ?dk = "disk_close (int (own_fd dk0)) (with_file dk0 new name w content d cs)"
  have dk: "?dk = (with_file dk0 new name w content d cs)\<lparr>disk_open := disk_open dk0\<rparr>"
    using own_fd_filter by (simp add: disk_close_def with_file_def)
  have "all_succeed (disk_calls ?dk)"
    unfolding dk using assms(2) by (simp add: with_file_def)
  then obtain cs' where cs': "disk_call ?dk = (True, ?dk\<lparr>disk_calls := cs'\<rparr>)" "all_succeed cs'"
    using disk_call_succeeds by blast
  moreover have "file_content name ?dk = Some content"
    unfolding dk using assms(1) by (auto simp: file_valid_def file_content_def with_file_def split: if_splits)
  moreover have "disk_fds ?dk = disk_fds dk0"
    unfolding dk by (simp add: disk_fds_def)
  moreover have "disk_io ?dk = []"
    unfolding dk using assms(1) by (simp add: with_file_def file_valid_def)
  ultimately show ?thesis
    by (intro that [of cs'])
      (simp_all add: sys_open_def open_complete, unfold dk, simp add: with_file_def own_fd_def)
qed

lemma destroyed:
  assumes "file_valid dk0 new name content" and "tf = tf_writing dk0 new name \<or> tf = tf_reading dk0 new name"
    and "all_succeed cs"
  obtains cs' where "TmpFile_destroy tf (with_file dk0 new name w content d cs) = dk0\<lparr>disk_calls := cs'\<rparr>"
    and "all_succeed cs'"
proof -
  have dk: "disk_close (int (own_fd dk0)) (with_file dk0 new name w content d cs) =
      dk0\<lparr>disk_files := (if new then [(name, content)] else []) @ disk_files dk0, disk_calls := cs\<rparr>"
    by (simp add: disk_close_def with_file_def own_fd_filter)
  have "filter (\<lambda>p. fst p \<noteq> name) (disk_files dk0) = disk_files dk0" if new
    using valid_name [OF assms(1)] that by (force simp: filter_id_conv)
  moreover let ?dk = "dk0\<lparr>disk_files := (if new then [(name, content)] else []) @ disk_files dk0, disk_calls := cs\<rparr>"
  obtain ds where "disk_call ?dk = (True, ?dk\<lparr>disk_calls := ds\<rparr>)" "all_succeed ds"
    using disk_call_succeeds [of ?dk] assms(3) by auto
  ultimately obtain cs' where "(if new then sys_unlink name else id) ?dk = dk0\<lparr>disk_calls := cs'\<rparr>" "all_succeed cs'"
    using assms(3) by (cases new) (auto simp: sys_unlink_def)
  moreover have "TmpFile_destroy tf (with_file dk0 new name w content d cs) = (if new then sys_unlink name else id) ?dk"
    using assms(2) dk by (auto simp: TmpFile_destroy_def tf_writing_def tf_reading_def Let_def)
  ultimately show ?thesis by (intro that) simp_all
qed

subsection \<open>Running the code of a test\<close>

text \<open>
  A state of the file: whether it is new, its name, whether the descriptor is open for
  writing, the content, and the state of the descriptor.
\<close>

type_synonym file_state = "bool \<times> string \<times> bool \<times> string \<times> fd"

fun in_state :: "disk \<Rightarrow> file_state \<Rightarrow> call list \<Rightarrow> disk" where
  "in_state dk0 (new, name, w, content, d) cs = with_file dk0 new name w content d cs"

fun state_ok :: "disk \<Rightarrow> file_state \<Rightarrow> bool" where
  "state_ok dk0 (new, name, w, content, d) = file_valid dk0 new name content"

fun tf_of :: "disk \<Rightarrow> bool \<Rightarrow> file_state \<Rightarrow> tmp_file" where
  "tf_of dk0 reading (new, name, _) = (if reading then tf_reading dk0 new name else tf_writing dk0 new name)"

definition runs :: "'a scoped \<Rightarrow> bool \<Rightarrow> file_state \<Rightarrow> 'a \<Rightarrow> bool \<Rightarrow> file_state \<Rightarrow> bool" where
  "runs m reading s x reading' s' \<longleftrightarrow>
     (\<forall>dk0 st cs. state_ok dk0 s \<longrightarrow> all_succeed cs \<longrightarrow> state_ok dk0 s' \<and>
        (\<exists>l cs'. all_succeed cs' \<and> m (tf_of dk0 reading s) (st\<lparr>tct_disk := in_state dk0 s cs\<rparr>) =
          (Inr x, tf_of dk0 reading' s', st\<lparr>tct_assertion_line := l, tct_disk := in_state dk0 s' cs'\<rparr>)))"

lemma runsI:
  assumes "\<And>dk0 st cs. state_ok dk0 s \<Longrightarrow> all_succeed cs \<Longrightarrow> state_ok dk0 s' \<and>
        (\<exists>l cs'. all_succeed cs' \<and> m (tf_of dk0 reading s) (st\<lparr>tct_disk := in_state dk0 s cs\<rparr>) =
          (Inr x, tf_of dk0 reading' s', st\<lparr>tct_assertion_line := l, tct_disk := in_state dk0 s' cs'\<rparr>))"
  shows "runs m reading s x reading' s'"
  using assms unfolding runs_def by blast

lemma runs_then:
  assumes "runs m reading s x reading' s'" and "runs (f x) reading' s' y reading'' s''"
  shows "runs (scoped_then m f) reading s y reading'' s''"
proof (rule runsI)
  fix dk0 cs and st :: tctest
  assume "state_ok dk0 s" and "all_succeed cs"
  then obtain l cs1 where 1: "state_ok dk0 s'" "all_succeed cs1" "m (tf_of dk0 reading s) (st\<lparr>tct_disk := in_state dk0 s cs\<rparr>) =
      (Inr x, tf_of dk0 reading' s', st\<lparr>tct_assertion_line := l, tct_disk := in_state dk0 s' cs1\<rparr>)"
    using assms(1) unfolding runs_def by blast
  then obtain k cs2 where 2: "state_ok dk0 s''" "all_succeed cs2"
    "f x (tf_of dk0 reading' s') (st\<lparr>tct_assertion_line := l, tct_disk := in_state dk0 s' cs1\<rparr>) =
      (Inr y, tf_of dk0 reading'' s'', st\<lparr>tct_assertion_line := l, tct_assertion_line := k, tct_disk := in_state dk0 s'' cs2\<rparr>)"
    using assms(2) unfolding runs_def by blast
  from 1 2 show "state_ok dk0 s'' \<and> (\<exists>l cs'. all_succeed cs' \<and>
      scoped_then m f (tf_of dk0 reading s) (st\<lparr>tct_disk := in_state dk0 s cs\<rparr>) =
        (Inr y, tf_of dk0 reading'' s'', st\<lparr>tct_assertion_line := l, tct_disk := in_state dk0 s'' cs'\<rparr>))"
    by (intro conjI exI [of _ k] exI [of _ cs2]) (simp_all add: scoped_then_def)
qed

lemma runs_calls:
  assumes "\<And>dk0 cs. state_ok dk0 s \<Longrightarrow> all_succeed cs \<Longrightarrow> state_ok dk0 s' \<and>
    (\<exists>cs'. all_succeed cs' \<and> m (tf_of dk0 reading s) (in_state dk0 s cs) =
       (Inr x, tf_of dk0 reading' s', in_state dk0 s' cs'))"
  shows "runs (calls m) reading s x reading' s'"
proof (rule runsI)
  fix dk0 cs and st :: tctest
  assume "state_ok dk0 s" and "all_succeed cs"
  with assms obtain cs' where "state_ok dk0 s'" "all_succeed cs'"
    "m (tf_of dk0 reading s) (in_state dk0 s cs) = (Inr x, tf_of dk0 reading' s', in_state dk0 s' cs')" by blast
  then show "state_ok dk0 s' \<and> (\<exists>l cs'. all_succeed cs' \<and>
      calls m (tf_of dk0 reading s) (st\<lparr>tct_disk := in_state dk0 s cs\<rparr>) =
        (Inr x, tf_of dk0 reading' s', st\<lparr>tct_assertion_line := l, tct_disk := in_state dk0 s' cs'\<rparr>))"
    by (intro conjI exI [of _ "tct_assertion_line st"] exI [of _ cs']) (simp_all add: calls_def Let_def)
qed

text \<open>What is left to compute concerns the descriptor alone.\<close>

lemma runs_send:
  "fst (io_send t (for_use True d)) = Inr () \<Longrightarrow>
     runs (calls (send_to t)) False (True, name, True, content, d) () False
       (True, name, True, written (snd (io_send t (for_use True d))) content, snd (io_send t (for_use True d)))"
  by (rule runs_calls)
    (auto simp: send_to_def get_write_fd_def tf_writing_def use_file file_valid_def)

lemma runs_write:
  "fst (rio_writen (for_use True d) t) = int (length t) \<Longrightarrow>
     runs (calls (write_string t)) False (True, name, True, content, d) () False
       (True, name, True, written (snd (rio_writen (for_use True d) t)) content, snd (rio_writen (for_use True d) t))"
  by (rule runs_calls)
    (auto simp: write_string_def tf_writing_def use_file file_valid_def)

lemma runs_done:
  "runs (calls done_writing) False (new, name, w, content, d) () True (new, name, False, content, plain_fd content)"
proof (rule runs_calls)
  fix dk0 cs assume "state_ok dk0 (new, name, w, content, d)" and "all_succeed cs"
  then obtain cs' where "sys_open name False (disk_close (int (own_fd dk0)) (with_file dk0 new name w content d cs)) =
      (int (own_fd dk0), with_file dk0 new name False content (plain_fd content) cs')" "all_succeed cs'"
    using open_again [of dk0 new name content cs w d] by auto
  with \<open>state_ok _ _\<close> show "state_ok dk0 (new, name, False, content, plain_fd content) \<and>
      (\<exists>cs'. all_succeed cs' \<and> done_writing (tf_of dk0 False (new, name, w, content, d)) (in_state dk0 (new, name, w, content, d) cs) =
       (Inr (), tf_of dk0 True (new, name, False, content, plain_fd content), in_state dk0 (new, name, False, content, plain_fd content) cs'))"
    by (intro conjI exI [of _ cs']) (simp_all add: done_writing_def tf_writing_def tf_reading_def Let_def)
qed

lemma runs_reopen:
  "runs (calls reopen_as_readonly) False (new, name, w, content, d) () False (new, name, False, content, plain_fd content)"
proof (rule runs_calls)
  fix dk0 cs assume "state_ok dk0 (new, name, w, content, d)" and "all_succeed cs"
  then obtain cs' where "sys_open name False (disk_close (int (own_fd dk0)) (with_file dk0 new name w content d cs)) =
      (int (own_fd dk0), with_file dk0 new name False content (plain_fd content) cs')" "all_succeed cs'"
    using open_again [of dk0 new name content cs w d] by auto
  with \<open>state_ok _ _\<close> show "state_ok dk0 (new, name, False, content, plain_fd content) \<and>
      (\<exists>cs'. all_succeed cs' \<and> reopen_as_readonly (tf_of dk0 False (new, name, w, content, d)) (in_state dk0 (new, name, w, content, d) cs) =
       (Inr (), tf_of dk0 False (new, name, False, content, plain_fd content), in_state dk0 (new, name, False, content, plain_fd content) cs'))"
    by (intro conjI exI [of _ cs']) (simp_all add: reopen_as_readonly_def tf_writing_def Let_def)
qed

lemma runs_receive:
  "fst (io_receive (for_use False d)) = Inr t \<Longrightarrow>
     runs (calls receive_from) True (new, name, False, content, d) t True
       (new, name, False, content, snd (io_receive (for_use False d)))"
  by (rule runs_calls)
    (auto simp: receive_from_def get_read_fd_def tf_reading_def use_file)

lemma runs_read:
  "fst (read_string_loop [] (for_use False d)) = Inr t \<Longrightarrow>
     runs (calls read_string) True (new, name, False, content, d) t True
       (new, name, False, content, snd (read_string_loop [] (for_use False d)))"
  by (rule runs_calls) (auto simp: read_string_def tf_reading_def use_file)

lemma runs_ASSERT_EQ: "runs (ASSERT_EQ t v t line) reading s () reading s"
proof (rule runsI)
  fix dk0 cs and st :: tctest
  assume "state_ok dk0 s" and "all_succeed cs"
  then show "state_ok dk0 s \<and> (\<exists>l cs'. all_succeed cs' \<and>
      ASSERT_EQ t v t line (tf_of dk0 reading s) (st\<lparr>tct_disk := in_state dk0 s cs\<rparr>) =
        (Inr (), tf_of dk0 reading s, st\<lparr>tct_assertion_line := l, tct_disk := in_state dk0 s cs'\<rparr>))"
    by (intro conjI exI [of _ line] exI [of _ cs])
      (simp_all add: ASSERT_EQ_def code_def ASSERT_def andthen_def computes_def ret_def)
qed

lemma runs_should_raise:
  assumes "\<And>dk0 cs. state_ok dk0 s \<Longrightarrow> all_succeed cs \<Longrightarrow> state_ok dk0 s' \<and>
    m (tf_of dk0 reading s) (in_state dk0 s cs) = (Inl (IOException e), tf_of dk0 reading s', in_state dk0 s' cs)"
  shows "runs (should_raise m msg) reading s () reading s'"
proof (rule runsI)
  fix dk0 cs and st :: tctest
  assume "state_ok dk0 s" and "all_succeed cs"
  with assms [OF this] show "state_ok dk0 s' \<and> (\<exists>l cs'. all_succeed cs' \<and>
      should_raise m msg (tf_of dk0 reading s) (st\<lparr>tct_disk := in_state dk0 s cs\<rparr>) =
        (Inr (), tf_of dk0 reading s', st\<lparr>tct_assertion_line := l, tct_disk := in_state dk0 s' cs'\<rparr>))"
    by (intro conjI exI [of _ "tct_assertion_line st"] exI [of _ cs])
      (simp_all add: should_raise_def calls_def Let_def code_def computes_def)
qed

lemma runs_send_raises:
  "fst (io_send t (for_use False d)) = Inl (IOException e) \<Longrightarrow>
     runs (should_raise (send_to t) msg) False (new, name, False, content, d) () False
       (new, name, False, content, snd (io_send t (for_use False d)))"
  by (rule runs_should_raise)
    (auto simp: send_to_def get_write_fd_def tf_writing_def use_file)

lemma runs_receive_raises:
  "fst (io_receive (for_use False d)) = Inl (IOException e) \<Longrightarrow>
     runs (should_raise receive_from msg) True (new, name, False, content, d) () True
       (new, name, False, content, snd (io_receive (for_use False d)))"
  by (rule runs_should_raise)
    (auto simp: receive_from_def get_read_fd_def tf_reading_def use_file)

text \<open>The whole test.\<close>

lemma scope_passes:
  assumes "ctor (tct_disk st) = (Inr (tf_of (tct_disk st) False s), in_state (tct_disk st) s cs)"
    and "all_succeed cs" and "state_ok (tct_disk st) s" and "runs body False s () reading s'"
  shows "\<exists>line cs. with_TmpFile ctor body st = (Inr (), after_code st line cs) \<and> all_succeed cs"
proof -
  let ?dk0 = "tct_disk st"
  obtain l cs' where r: "state_ok ?dk0 s'" "all_succeed cs'"
    "body (tf_of ?dk0 False s) (st\<lparr>tct_disk := in_state ?dk0 s cs\<rparr>) =
      (Inr (), tf_of ?dk0 reading s', st\<lparr>tct_assertion_line := l, tct_disk := in_state ?dk0 s' cs'\<rparr>)"
    using assms(2-4) unfolding runs_def by blast
  obtain ds where "TmpFile_destroy (tf_of ?dk0 reading s') (in_state ?dk0 s' cs') = ?dk0\<lparr>disk_calls := ds\<rparr>"
      and ds: "all_succeed ds"
  proof (cases s')
    case (fields new name w content d)
    with r(1) have v: "file_valid ?dk0 new name content" by simp
    have "tf_of ?dk0 reading s' = tf_writing ?dk0 new name \<or> tf_of ?dk0 reading s' = tf_reading ?dk0 new name"
      by (simp add: fields)
    from destroyed [OF v this r(2), of w d] obtain ds where
      "TmpFile_destroy (tf_of ?dk0 reading s') (with_file ?dk0 new name w content d cs') = ?dk0\<lparr>disk_calls := ds\<rparr>"
      "all_succeed ds" .
    with that fields show ?thesis by simp
  qed
  with r assms(1) have "with_TmpFile ctor body st = (Inr (), after_code st l ds)"
    by (simp add: with_TmpFile_def Let_def after_code_def)
  with ds show ?thesis by blast
qed

lemma passing_TmpFile:
  assumes "\<And>name. \<exists>reading s'. runs body False (True, name, True, [], plain_fd []) () reading s'"
  shows "passing (with_TmpFile TmpFile body)"
  unfolding passing_def
proof (intro allI impI)
  fix st :: tctest assume "disk_ready (tct_disk st)"
  then obtain name cs where n: "TmpFile (tct_disk st) =
      (Inr (tf_writing (tct_disk st) True name), with_file (tct_disk st) True name True [] (plain_fd []) cs)"
    "all_succeed cs" "file_valid (tct_disk st) True name []" by (rule new_file)
  obtain reading s' where "runs body False (True, name, True, [], plain_fd []) () reading s'"
    using assms by blast
  from scope_passes [OF _ _ _ this, of TmpFile st cs] n
  show "\<exists>line cs. with_TmpFile TmpFile body st = (Inr (), after_code st line cs) \<and> all_succeed cs" by simp
qed

lemma passing_dev_null:
  assumes "runs body False (False, dev_null, True, [], plain_fd []) () reading s'"
  shows "passing (with_TmpFile (TmpFile_named ''/dev/null'') body)"
  unfolding passing_def
proof (intro allI impI)
  fix st :: tctest assume "disk_ready (tct_disk st)"
  then obtain cs where n: "TmpFile_named ''/dev/null'' (tct_disk st) =
      (Inr (tf_writing (tct_disk st) False dev_null), with_file (tct_disk st) False dev_null True [] (plain_fd []) cs)"
    "all_succeed cs" "file_valid (tct_disk st) False dev_null []"
    using dev_null_file [of "tct_disk st"] by (auto simp: disk_ready_def)
  from scope_passes [OF _ _ _ assms, of "TmpFile_named ''/dev/null''" st cs] n
  show "\<exists>line cs. with_TmpFile (TmpFile_named ''/dev/null'') body st = (Inr (), after_code st line cs) \<and> all_succeed cs"
    by simp
qed

text \<open>
  The tests: the rules split a test into its operations; what remains of each is a closed
  computation on the descriptor.
\<close>

lemma test_send_passes: "passing (test_send objs)"
  unfolding test_send_def
  by (rule passing_TmpFile, intro exI,
      rule runs_then [OF runs_send], code_simp, rule runs_then [OF runs_done],
      rule runs_then [OF runs_read [where t = "''0014hello, world!'' @ newline"]], code_simp, rule runs_ASSERT_EQ)

lemma test_send_multiple_passes: "passing (test_send_multiple objs)"
  unfolding test_send_multiple_def
  by (rule passing_TmpFile, intro exI,
      (rule runs_then [OF runs_send], code_simp)+, rule runs_then [OF runs_done],
      rule runs_then [OF runs_read [where t = "''0014first message'' @ newline @ ''0015second message'' @ newline @
        ''0014third message'' @ newline"]], code_simp, rule runs_ASSERT_EQ)

lemma test_receive_1_passes: "passing (test_receive_1 objs)"
  unfolding test_receive_1_def
  by (rule passing_TmpFile, intro exI,
      rule runs_then [OF runs_write], code_simp, rule runs_then [OF runs_done],
      rule runs_then [OF runs_receive [where t = "''hello, world!''"]], code_simp, rule runs_ASSERT_EQ)

lemma test_receive_2_passes: "passing (test_receive_2 objs)"
  unfolding test_receive_2_def
  by (rule passing_TmpFile, intro exI,
      rule runs_then [OF runs_write], code_simp, rule runs_then [OF runs_done],
      rule runs_then [OF runs_receive [where t = "''1''"]], code_simp, rule runs_then [OF runs_ASSERT_EQ],
      rule runs_then [OF runs_receive [where t = "''ABCDEFGHIJ''"]], code_simp, rule runs_ASSERT_EQ)

lemma test_send_ioerror_passes: "passing (test_send_ioerror objs)"
  unfolding test_send_ioerror_def
  by (rule passing_TmpFile, intro exI, rule runs_then [OF runs_reopen],
      rule runs_send_raises [where e = "''error sending framed message''"], code_simp)

lemma test_receive_ioerror_1_passes: "passing (test_receive_ioerror_1 objs)"
  unfolding test_receive_ioerror_1_def
  by (rule passing_TmpFile, intro exI,
      rule runs_then [OF runs_write], code_simp, rule runs_then [OF runs_done],
      rule runs_receive_raises [where e = "''invalid length prefix''"], code_simp)

lemma test_receive_ioerror_2_passes: "passing (test_receive_ioerror_2 objs)"
  unfolding test_receive_ioerror_2_def
  by (rule passing_TmpFile, intro exI,
      rule runs_then [OF runs_write], code_simp, rule runs_then [OF runs_done],
      rule runs_receive_raises [where e = "''missing terminating newline in framed payload''"], code_simp)

lemma test_receive_ioerror_3_passes: "passing (test_receive_ioerror_3 objs)"
  unfolding test_receive_ioerror_3_def
  by (rule passing_dev_null, rule runs_then [OF runs_done],
      rule runs_receive_raises [where e = "''error reading length prefix''"], code_simp)

lemma io_tests_pass: "list_all (\<lambda>p. passing (snd p (Some ()))) io_tests"
  by (simp add: io_tests_def test_send_passes test_send_multiple_passes test_receive_1_passes
      test_receive_2_passes test_send_ioerror_passes test_receive_ioerror_1_passes
      test_receive_ioerror_2_passes test_receive_ioerror_3_passes)

subsection \<open>A program whose tests pass\<close>

lemma transcript_simps [simp]:
  "transcript (printf text st) = transcript st @ text"
  "transcript (flush st) = transcript st"
  "transcript (st\<lparr>tct_num_executed := n\<rparr>) = transcript st"
  "transcript (st\<lparr>tct_assertion_line := l\<rparr>) = transcript st"
  "transcript (st\<lparr>tct_calls := cs\<rparr>) = transcript st"
  "transcript (after_code st l ks) = transcript st"
  by (simp_all add: transcript_def printf_def flush_def after_code_def)

definition same_disk :: "disk \<Rightarrow> disk \<Rightarrow> bool" where
  "same_disk dk dk' \<longleftrightarrow> (\<exists>cs. all_succeed cs \<and> dk' = dk\<lparr>disk_calls := cs\<rparr>)"

lemma same_disk_refl: "disk_ready dk \<Longrightarrow> same_disk dk dk"
  unfolding same_disk_def by (rule exI [of _ "disk_calls dk"]) (simp add: disk_ready_def)

lemma same_disk_trans: "same_disk dk dk1 \<Longrightarrow> same_disk dk1 dk2 \<Longrightarrow> same_disk dk dk2"
  by (auto simp: same_disk_def)

lemma same_disk_ready: "same_disk dk dk' \<Longrightarrow> disk_ready dk \<Longrightarrow> disk_ready dk'"
  by (auto simp: same_disk_def)

definition same_program :: "tctest \<Rightarrow> tctest \<Rightarrow> bool" where
  "same_program st st' \<longleftrightarrow>
     tct_failures st' = tct_failures st \<and>
     tct_testname_to_execute st' = tct_testname_to_execute st \<and>
     tct_on_test_executed st' = tct_on_test_executed st \<and>
     tct_on_complete st' = tct_on_complete st"

lemma TEST_passing:
  assumes "passing (func (Some t))" and ready: "disk_ready (tct_disk st)"
  shows "\<exists>st'. TEST (ret (Some t)) delete_objs name func st = (Inr (), st') \<and>
    same_program st st' \<and> same_disk (tct_disk st) (tct_disk st') \<and>
    tct_num_executed st' = tct_num_executed st + (if selected st name then 1 else 0) \<and>
    transcript st' = transcript st @ (if selected st name then name @ ''...passed!'' @ newline else [])"
proof (cases "selected st name")
  case False
  then have "TEST (ret (Some t)) delete_objs name func st = (Inr (), st)"
    by (auto simp: TEST_def selected_def)
  with False same_disk_refl [OF ready] show ?thesis by (simp add: same_program_def)
next
  case True
  let ?st = "flush (printf (name @ ''...'')
    (st\<lparr>tct_num_executed := tct_num_executed st + 1, tct_assertion_line := -1\<rparr>))"
  have "disk_ready (tct_disk ?st)" using ready by (simp add: flush_def printf_def)
  then obtain l cs where f: "func (Some t) ?st = (Inr (), after_code ?st l cs)" "all_succeed cs"
    using assms(1) by (auto simp: passing_def)
  let ?st' = "test_executed name True (printf (''passed!'' @ newline) (after_code ?st l cs))"
  have "TEST (ret (Some t)) delete_objs name func st = (Inr (), ?st')"
    using True f by (auto simp: TEST_def selected_def test_body_def ret_def delete_objs_def Let_def)
  moreover have "transcript ?st' = transcript st @ name @ ''...passed!'' @ newline"
    by (simp add: test_executed_def)
  moreover have "same_program st ?st'" "tct_num_executed ?st' = tct_num_executed st + 1"
    by (simp_all add: same_program_def test_executed_def printf_def flush_def after_code_def)
  moreover have "same_disk (tct_disk st) (tct_disk ?st')"
    using f(2) by (auto simp: same_disk_def test_executed_def printf_def flush_def after_code_def)
  ultimately show ?thesis using True by auto
qed

definition passed_lines :: "string list \<Rightarrow> string" where
  "passed_lines names = concat (List.map (\<lambda>n. n @ ''...passed!'' @ newline) names)"

lemma run_tests_passing:
  assumes "list_all (\<lambda>p. passing (snd p (Some t))) tests" and "disk_ready (tct_disk st)"
  shows "\<exists>st'. run_tests (ret (Some t)) delete_objs tests st = (Inr (), st') \<and>
    same_program st st' \<and> same_disk (tct_disk st) (tct_disk st') \<and>
    tct_num_executed st' =
      tct_num_executed st + int (length (filter (selected st) (List.map fst tests))) \<and>
    transcript st' = transcript st @ passed_lines (filter (selected st) (List.map fst tests))"
  using assms
proof (induction tests arbitrary: st)
  case Nil
  then show ?case by (simp add: ret_def same_program_def passed_lines_def same_disk_refl)
next
  case (Cons p tests)
  obtain name func where p: "p = (name, func)" by fastforce
  have "passing (func (Some t))" using Cons.prems(1) p by simp
  from TEST_passing [where func = func and name = name, OF this Cons.prems(2)]
  obtain st1 where t: "TEST (ret (Some t)) delete_objs name func st = (Inr (), st1)"
    and s1: "same_program st st1" and d1: "same_disk (tct_disk st) (tct_disk st1)"
    and n1: "tct_num_executed st1 = tct_num_executed st + (if selected st name then 1 else 0)"
    and o1: "transcript st1 = transcript st @ (if selected st name then name @ ''...passed!'' @ newline else [])"
    by blast
  have sel: "selected st1 = selected st"
    using s1 by (auto simp: selected_def same_program_def)
  obtain st' where r: "run_tests (ret (Some t)) delete_objs tests st1 = (Inr (), st')"
    and s: "same_program st1 st'" and d: "same_disk (tct_disk st1) (tct_disk st')"
    and n: "tct_num_executed st' =
      tct_num_executed st1 + int (length (filter (selected st) (List.map fst tests)))"
    and out: "transcript st' = transcript st1 @ passed_lines (filter (selected st) (List.map fst tests))"
    using Cons.IH [of st1] Cons.prems same_disk_ready [OF d1] unfolding sel by auto
  have "run_tests (ret (Some t)) delete_objs (p # tests) st = (Inr (), st')"
    using t r by (simp add: p andthen_def)
  moreover have "same_program st st'" using s1 s by (simp add: same_program_def)
  ultimately show ?case
    using n out n1 o1 same_disk_trans [OF d1 d] by (simp add: p passed_lines_def)
qed

lemma test_main_passing:
  assumes "list_all (\<lambda>p. passing (snd p (Some t))) tests"
    and "names = chosen argv tests" and "disk_ready dk"
  shows "\<exists>st'. test_main (ret (Some t)) delete_objs tests argv (tctest_init\<lparr>tct_disk := dk\<rparr>) =
      (Inr (if names = [] then 1 else 0), st') \<and>
    tct_buf st' = [] \<and>
    fd_out (tct_stdout st') = passed_lines names @
      (if names = [] then ''No tests were executed!'' else ''All tests passed!'') @ newline \<and>
    disk_files (tct_disk st') = disk_files dk \<and> disk_open (tct_disk st') = disk_open dk"
proof -
  let ?st = "with_argv argv (tctest_init\<lparr>tct_disk := dk\<rparr>)"
  have sel: "filter (selected ?st) (List.map fst tests) = names"
    unfolding assms(2) chosen_def by (rule filter_cong) (simp_all add: selected_with_argv tctest_init_def)
  have disk: "tct_disk ?st = dk"
    by (simp add: with_argv_def TEST_INIT_def tctest_register_signal_handlers_def)
  obtain st' where r: "run_tests (ret (Some t)) delete_objs tests ?st = (Inr (), st')"
    and s: "same_program ?st st'" and d: "same_disk dk (tct_disk st')"
    and n: "tct_num_executed st' = tct_num_executed ?st + int (length names)"
    and o: "transcript st' = transcript ?st @ passed_lines names"
    using run_tests_passing [OF assms(1), of ?st] assms(3) unfolding sel disk by blast
  have z: "transcript ?st = []"
    by (simp add: transcript_def with_argv_def TEST_INIT_def tctest_register_signal_handlers_def
        tctest_init_def plain_fd_def)
  have f: "tct_failures st' = 0" "tct_num_executed st' = int (length names)" "\<not> tct_on_complete st'"
    using s n by (simp_all add: same_program_def tctest_init_def)
  have out: "fd_out (tct_stdout st') @ tct_buf st' = passed_lines names"
    using o z by (simp add: transcript_def)
  have "test_main (ret (Some t)) delete_objs tests argv (tctest_init\<lparr>tct_disk := dk\<rparr>) =
      (Inr (fst (TEST_FINI st')), flush (snd (TEST_FINI st')))"
    using r by (simp add: test_main_def andthen_def with_argv_def Let_def split: prod.split)
  moreover have "disk_files (tct_disk st') = disk_files dk" "disk_open (tct_disk st') = disk_open dk"
    using d by (auto simp: same_disk_def)
  ultimately show ?thesis
    using f out by (simp add: TEST_FINI_def printf_def flush_def Let_def flip: append_assoc)
qed

subsection \<open>Running them\<close>

lemmas message_test_defs =
  test_encode_login_2_def test_encode_login_3_def test_encode_quit_def test_encode_ok_def
  test_encode_error_def test_encode_item_update_def test_encode_order_new_def
  test_encode_disp_order_def test_encode_order_update_def test_encode_disp_item_update_def
  test_encode_disp_order_update_def test_encode_disp_heartbeat_def test_decode_login_2_def
  test_decode_login_3_def test_decode_quit_def test_decode_ok_def test_decode_error_def
  test_decode_item_update_def test_decode_order_new_def test_decode_disp_order_def
  test_decode_order_update_def test_decode_disp_item_update_def
  test_decode_disp_order_update_def test_decode_disp_heartbeat_def test_decode_invalid_def
  test_decode_invalid_tricky_def test_encode_order_new_no_items_def
  test_decode_order_new_no_items_def

lemmas passing_intros =
  passing_sequence passing_TEST_ENCODE passing_TEST_DECODE passing_should_throw

lemma message_tests_pass: "list_all (\<lambda>p. passing (snd p (Some mk_test_objs))) message_tests"
  unfolding message_tests_def message_test_defs with_objs_def TEST_DECODE_INVALID_def
  apply (simp only: list.pred_inject snd_conv option.case simp_thms list.map)
  apply (intro conjI passing_intros)
  apply (simp_all only: list.pred_inject simp_thms)
  apply ((intro conjI passing_intros)?; code_simp)+
  done

text \<open>
  C34: the repository's own test programs pass on the model, from any state of the file system in
  which a temporary file can be created and opened. Each runs the tests its command
  line chooses to the end, prints one line for each, has flushed its output, and exits with 0; when the argument names no
  test it says so and exits with 1. Neither leaves a file or an open descriptor behind, or changes another file.
\<close>

theorem test_programs_pass:
  assumes "disk_ready dk"
  shows "(\<exists>st. message_tests_main argv (tctest_init\<lparr>tct_disk := dk\<rparr>) =
      (Inr (if chosen argv message_tests = [] then 1 else 0), st) \<and> tct_buf st = [] \<and>
      fd_out (tct_stdout st) = passed_lines (chosen argv message_tests) @
        (if chosen argv message_tests = [] then ''No tests were executed!''
         else ''All tests passed!'') @ newline \<and>
      disk_files (tct_disk st) = disk_files dk \<and> disk_open (tct_disk st) = disk_open dk) \<and>
   (\<exists>st. io_tests_main argv (tctest_init\<lparr>tct_disk := dk\<rparr>) =
      (Inr (if chosen argv io_tests = [] then 1 else 0), st) \<and> tct_buf st = [] \<and>
      fd_out (tct_stdout st) = passed_lines (chosen argv io_tests) @
        (if chosen argv io_tests = [] then ''No tests were executed!''
         else ''All tests passed!'') @ newline \<and>
      disk_files (tct_disk st) = disk_files dk \<and> disk_open (tct_disk st) = disk_open dk)"
  using test_main_passing [OF message_tests_pass refl assms, of argv]
    test_main_passing [OF io_tests_pass refl assms, of argv]
  by (simp_all only: message_tests_main_def message_tests_setup_def io_tests_main_def
      io_tests_setup_def)

text \<open>A file that has the first name \<open>mkstemp\<close> would take is still there.\<close>

definition used_disk :: disk where
  "used_disk = disk_init\<lparr>disk_files := [(''iotesta1B2c3'', ''precious'')], disk_calls := [Call_Ok],
     disk_suffixes := [''a1B2c3'', ''d4E5f6'']\<rparr>"

lemma test_programs_pass_witness:
  "\<exists>st. io_tests_main [''io_tests'', ''test_send''] (tctest_init\<lparr>tct_disk := used_disk\<rparr>) = (Inr 0, st) \<and>
     fd_out (tct_stdout st) = ''test_send...passed!'' @ newline @ ''All tests passed!'' @ newline \<and>
     disk_files (tct_disk st) = [(''iotesta1B2c3'', ''precious'')]"
proof -
  have "disk_ready used_disk" by code_simp
  moreover have "chosen [''io_tests'', ''test_send''] io_tests = [''test_send'']"
    "passed_lines [''test_send''] = ''test_send...passed!'' @ newline"
    "disk_files used_disk = [(''iotesta1B2c3'', ''precious'')]"
    by (simp_all add: chosen_def io_tests_def passed_lines_def used_disk_def)
  ultimately show ?thesis
    using test_programs_pass [of used_disk "[''io_tests'', ''test_send'']"] by auto
qed

text \<open>
  A failing assertion in the scope of a \<open>TmpFile\<close> jumps over its destructor: the file stays and
  its descriptor stays open. (By the C++ standard the jump is undefined behaviour.)
\<close>

lemma failed_assertion_leaks_file:
  assumes "disk_ready (tct_disk st)" and "s \<noteq> expected"
  shows "\<exists>name st'. with_TmpFile TmpFile (ASSERT_EQ s v expected line) st = (Inl Jumps, st') \<and>
    disk_files (tct_disk st') = (name, []) # disk_files (tct_disk st) \<and>
    length (disk_open (tct_disk st')) = length (disk_open (tct_disk st)) + 1"
proof -
  obtain name cs where n: "TmpFile (tct_disk st) =
      (Inr (tf_writing (tct_disk st) True name), with_file (tct_disk st) True name True [] (plain_fd []) cs)"
    by (rule new_file [OF assms(1)])
  with assms(2) show ?thesis
    by (simp add: with_TmpFile_def ASSERT_EQ_def code_def ASSERT_def andthen_def computes_def
        tctest_fail_def printf_def with_file_def Let_def)
qed

end
