(* ===== verification/Queue_Locking.thy ===== *)
theory Queue_Locking
  imports Locking
begin

text \<open>
  The server's operations with the queues' own mutexes and semaphores: a thread that holds the
  server's mutex puts a message into a client's queue by the separate actions of
  \<open>MessageQueue::enqueue\<close>, while display sessions are inside \<open>MessageQueue::dequeue\<close>, all
  interleaved. These states refine those of \<open>Locking\<close>, where \<open>enqueue\<close> and \<open>dequeue\<close> are
  atomic; and since a queue's mutex is only ever taken inside the server's, and nothing is taken
  inside it, no thread waits for ever.
\<close>

subsection \<open>States and steps\<close>

datatype fine_thread =
    F_Outside
  | F_Waiting server_op      \<comment> \<open>in the constructor of \<open>Guard\<close>\<close>
  | F_Inside "action list"   \<comment> \<open>has locked the server's mutex, the actions still to come\<close>
  | F_Enqueuing client_id mq_thread "action list"
      \<comment> \<open>and is inside \<open>enqueue\<close> of a client's queue\<close>

text \<open>The queues of \<open>f_server\<close> are not used: they are \<open>f_queues\<close>.\<close>

record fine =
  f_server :: server
  f_mutex :: "nat option"
  f_threads :: "nat \<Rightarrow> fine_thread"
  f_queues :: "client_id \<Rightarrow> mq_sys"
  f_history :: "server_op list"    \<comment> \<open>ghost: the operations in the order of their effect\<close>

definition fine_init :: fine where
  "fine_init = \<lparr>f_server = server_init, f_mutex = None, f_threads = (\<lambda>_. F_Outside),
     f_queues = (\<lambda>_. mq_sys_init), f_history = []\<rparr>"

fun is_enqueue :: "action \<Rightarrow> bool" where
  "is_enqueue (Enqueue c m) = True"
| "is_enqueue a = False"

fun is_enqueuer :: "mq_thread \<Rightarrow> bool" where
  "is_enqueuer (Enq_Called m) = True"
| "is_enqueuer (Enq_Locked m) = True"
| "is_enqueuer Enq_Pushed = True"
| "is_enqueuer Enq_Unlocked = True"
| "is_enqueuer _ = False"

text \<open>A message that is popped is the operation's effect.\<close>

definition popped_op :: "client_id \<Rightarrow> mq_thread option \<Rightarrow> server_op list" where
  "popped_op c k = (case k of Some (Deq_Popped m) \<Rightarrow> [Op_dequeue c] | _ \<Rightarrow> [])"

definition enters_queue :: "mq_thread \<Rightarrow> mq_sys \<Rightarrow> mq_sys" where
  "enters_queue k q = q\<lparr>q_threads := add_mset k (q_threads q)\<rparr>"

text \<open>A thread begins a call of the server, or a display session one of its queue.\<close>

inductive fine_call :: "fine \<Rightarrow> fine \<Rightarrow> bool" where
  call_server: "f_threads s t = F_Outside \<Longrightarrow> (\<And>c. op \<noteq> Op_dequeue c) \<Longrightarrow>
    fine_call s (s\<lparr>f_threads := (f_threads s)(t := F_Waiting op)\<rparr>)"
| call_queue: "fine_call s (s\<lparr>f_queues := (f_queues s)(c := enters_queue Deq_Called (f_queues s c))\<rparr>)"

text \<open>A thread inside a call goes on.\<close>

inductive fine_step :: "fine \<Rightarrow> fine \<Rightarrow> bool" where
  fine_lock: "f_threads s t = F_Waiting op \<Longrightarrow> guard_lock t (f_mutex s) = Some m \<Longrightarrow>
    fine_step s (s\<lparr>f_mutex := m, f_history := f_history s @ [op],
      f_threads := (f_threads s)(t := F_Inside (op_actions op (f_server s)))\<rparr>)"
| fine_act: "f_threads s t = F_Inside (a # as) \<Longrightarrow> \<not> is_enqueue a \<Longrightarrow>
    fine_step s (s\<lparr>f_server := perform a (f_server s), f_threads := (f_threads s)(t := F_Inside as)\<rparr>)"
| fine_enq_call: "f_threads s t = F_Inside (Enqueue c m # as) \<Longrightarrow>
    fine_step s (s\<lparr>f_threads := (f_threads s)(t := F_Enqueuing c (Enq_Called m) as),
      f_queues := (f_queues s)(c := enters_queue (Enq_Called m) (f_queues s c))\<rparr>)"
| fine_enq: "f_threads s t = F_Enqueuing c k as \<Longrightarrow> mq_action k k' (f_queues s c) q \<Longrightarrow>
    fine_step s (s\<lparr>f_queues := (f_queues s)(c := thread_moves k k' q),
      f_threads := (f_threads s)(t := (case k' of Some l \<Rightarrow> F_Enqueuing c l as | None \<Rightarrow> F_Inside as))\<rparr>)"
| fine_unlock: "f_threads s t = F_Inside [] \<Longrightarrow>
    fine_step s (s\<lparr>f_mutex := guard_unlock (f_mutex s), f_threads := (f_threads s)(t := F_Outside)\<rparr>)"
| fine_deq: "k \<in># q_threads (f_queues s c) \<Longrightarrow> \<not> is_enqueuer k \<Longrightarrow> mq_action k k' (f_queues s c) q \<Longrightarrow>
    fine_step s (s\<lparr>f_queues := (f_queues s)(c := thread_moves k k' q),
      f_history := f_history s @ popped_op c k'\<rparr>)"

definition fine_reachable :: "fine \<Rightarrow> bool" where
  "fine_reachable s \<longleftrightarrow> (\<lambda>s t. fine_call s t \<or> fine_step s t)\<^sup>*\<^sup>* fine_init s"

lemma fine_reachable_start: "fine_reachable fine_init"
  by (simp add: fine_reachable_def)

lemma fine_reachable_call: "fine_reachable s \<Longrightarrow> fine_call s t \<Longrightarrow> fine_reachable t"
  and fine_reachable_step: "fine_reachable s \<Longrightarrow> fine_step s t \<Longrightarrow> fine_reachable t"
  unfolding fine_reachable_def by (auto intro: rtranclp.rtrancl_into_rtrancl)

lemma fine_reachable_induct [consumes 1, case_names start call step]:
  assumes "fine_reachable s" and "P fine_init"
    and "\<And>s t. fine_reachable s \<Longrightarrow> P s \<Longrightarrow> fine_call s t \<Longrightarrow> P t"
    and "\<And>s t. fine_reachable s \<Longrightarrow> P s \<Longrightarrow> fine_step s t \<Longrightarrow> P t"
  shows "P s"
  using assms(1) unfolding fine_reachable_def
proof (induction rule: rtranclp_induct)
  case (step s t)
  with assms(3,4) show ?case unfolding fine_reachable_def by blast
qed (rule assms(2))

lemma queue_moves_sel [simp]:
  "q_items (thread_moves k k' q) = q_items q" "q_items (enters_queue k q) = q_items q"
  "q_threads (enters_queue k q) = add_mset k (q_threads q)"
  "q_threads (thread_moves k k' q) =
     q_threads q - {#k#} + (case k' of None \<Rightarrow> {#} | Some t \<Rightarrow> {#t#})"
  by (simp_all add: thread_moves_def enters_queue_def)

subsection \<open>The threads inside the queues\<close>

text \<open>
  The only thread inside \<open>enqueue\<close> of a queue is the holder of the server's mutex; the threads
  and queues in use are finitely many.
\<close>

fun inside_server :: "fine_thread \<Rightarrow> bool" where
  "inside_server (F_Inside as) = True"
| "inside_server (F_Enqueuing c k as) = True"
| "inside_server _ = False"

fun enqueuing :: "fine_thread \<Rightarrow> client_id \<Rightarrow> mq_thread multiset" where
  "enqueuing (F_Enqueuing d k as) c = (if d = c then {#k#} else {#})"
| "enqueuing _ c = {#}"

fun holder_enqueues :: "nat option \<Rightarrow> (nat \<Rightarrow> fine_thread) \<Rightarrow> client_id \<Rightarrow> mq_thread multiset" where
  "holder_enqueues None ths c = {#}"
| "holder_enqueues (Some t) ths c = enqueuing (ths t) c"

definition fine_inv :: "fine \<Rightarrow> bool" where
  "fine_inv s \<longleftrightarrow>
     (\<forall>t. inside_server (f_threads s t) \<longleftrightarrow> f_mutex s = Some t) \<and>
     (\<forall>c. filter_mset is_enqueuer (q_threads (f_queues s c)) = holder_enqueues (f_mutex s) (f_threads s) c) \<and>
     (\<forall>c. mq_reachable (f_queues s c)) \<and>
     finite {t. f_threads s t \<noteq> F_Outside} \<and>
     finite {c. q_threads (f_queues s c) \<noteq> {#}}"

lemma fine_invD:
  assumes "fine_inv s"
  shows "inside_server (f_threads s t) \<longleftrightarrow> f_mutex s = Some t"
    and "filter_mset is_enqueuer (q_threads (f_queues s c)) = holder_enqueues (f_mutex s) (f_threads s) c"
    and "mq_reachable (f_queues s c)"
    and "finite {t. f_threads s t \<noteq> F_Outside}"
    and "finite {c. q_threads (f_queues s c) \<noteq> {#}}"
  using assms unfolding fine_inv_def by blast+

lemma fine_invI:
  assumes "\<And>t. inside_server (f_threads s t) \<longleftrightarrow> f_mutex s = Some t"
    and "\<And>c. filter_mset is_enqueuer (q_threads (f_queues s c)) =
      holder_enqueues (f_mutex s) (f_threads s) c"
    and "\<And>c. mq_reachable (f_queues s c)"
    and "finite {t. f_threads s t \<noteq> F_Outside}"
    and "finite {c. q_threads (f_queues s c) \<noteq> {#}}"
  shows "fine_inv s"
  using assms unfolding fine_inv_def by blast

lemma finite_threads_upd:
  "finite {t. ths t \<noteq> F_Outside} \<Longrightarrow> finite {t. (ths(a := v)) t \<noteq> F_Outside}"
  by (rule finite_subset [of _ "insert a {t. ths t \<noteq> F_Outside}"]) auto

lemma finite_queues_upd:
  "finite {c. q_threads (qs c) \<noteq> {#}} \<Longrightarrow> finite {c. q_threads ((qs(a := v)) c) \<noteq> {#}}"
  by (rule finite_subset [of _ "insert a {c. q_threads (qs c) \<noteq> {#}}"]) auto

lemma fine_inv_init: "fine_inv fine_init"
  by (simp add: fine_inv_def fine_init_def mq_reachable.start) (simp add: mq_sys_init_def)

lemma fine_inv_call: "fine_call s t \<Longrightarrow> fine_inv s \<Longrightarrow> fine_inv t"
proof (induction rule: fine_call.induct)
  case (call_server s t op)
  note inv = fine_invD [OF call_server(3)]
  have free: "f_mutex s \<noteq> Some t"
    using inv(1) [of t] call_server(1) by simp
  show ?case
  proof (rule fine_invI)
    fix u
    show "inside_server (f_threads (s\<lparr>f_threads := (f_threads s)(t := F_Waiting op)\<rparr>) u) \<longleftrightarrow>
        f_mutex (s\<lparr>f_threads := (f_threads s)(t := F_Waiting op)\<rparr>) = Some u"
      using inv(1) [of u] free by auto
  next
    fix c
    have "holder_enqueues (f_mutex s) ((f_threads s)(t := F_Waiting op)) c =
        holder_enqueues (f_mutex s) (f_threads s) c"
      using free by (cases "f_mutex s") auto
    then show "filter_mset is_enqueuer (q_threads (f_queues (s\<lparr>f_threads := (f_threads s)(t := F_Waiting op)\<rparr>) c)) =
        holder_enqueues (f_mutex (s\<lparr>f_threads := (f_threads s)(t := F_Waiting op)\<rparr>))
          (f_threads (s\<lparr>f_threads := (f_threads s)(t := F_Waiting op)\<rparr>)) c"
      using inv(2) by simp
  qed (use inv(3-5) in \<open>simp_all add: finite_threads_upd del: fun_upd_apply\<close>)
next
  case (call_queue s c)
  note inv = fine_invD [OF call_queue]
  have "mq_reachable (enters_queue Deq_Called (f_queues s c))"
    using call_dequeue [OF inv(3)] by (simp add: enters_queue_def)
  then show ?case
    using inv finite_queues_upd [OF inv(5)] by (intro fine_invI) simp_all
qed

text \<open>One thread's move inside one queue.\<close>

lemma queue_step:
  assumes "mq_action k k' q q'" and "k \<in># q_threads q" and "mq_reachable q"
  shows "mq_reachable (thread_moves k k' q')" and "q_threads q' = q_threads q"
  using mq_reachable_action [OF assms(3,2,1)] mq_action_threads [OF assms(1)] by simp_all

lemma action_enqueuer:
  "mq_action k k' q q' \<Longrightarrow> (case k' of Some l \<Rightarrow> is_enqueuer l = is_enqueuer k | None \<Rightarrow> True)"
  by (induction rule: mq_action.induct) simp_all

lemma fine_enqueuing:
  assumes "fine_inv s" and "f_threads s t = F_Enqueuing c k as"
  shows "f_mutex s = Some t" and "k \<in># q_threads (f_queues s c)" and "is_enqueuer k"
    and "filter_mset is_enqueuer (q_threads (f_queues s c)) = {#k#}"
proof -
  show m: "f_mutex s = Some t"
    using fine_invD(1) [OF assms(1), of t] assms(2) by simp
  show f: "filter_mset is_enqueuer (q_threads (f_queues s c)) = {#k#}"
    using fine_invD(2) [OF assms(1), of c] by (simp add: m assms(2))
  then have "k \<in># filter_mset is_enqueuer (q_threads (f_queues s c))" by simp
  then show "k \<in># q_threads (f_queues s c)" and "is_enqueuer k" by simp_all
qed

lemma fine_inv_step: "fine_step s t \<Longrightarrow> fine_inv s \<Longrightarrow> fine_inv t"
proof (induction rule: fine_step.induct)
  case (fine_lock s t op m)
  note inv = fine_invD [OF fine_lock(3)]
  have m: "f_mutex s = None" "m = Some t"
    using fine_lock(2) by (simp_all add: guard_lock_def split: option.splits)
  show ?case
    using inv(1,2) m inv(3,5) finite_threads_upd [OF inv(4)]
    by (intro fine_invI) (auto simp del: finite_Collect_not)
next
  case (fine_act s t a as)
  note inv = fine_invD [OF fine_act(3)]
  have m: "f_mutex s = Some t" using inv(1) [of t] fine_act(1) by simp
  show ?case
    using inv m fine_act(1) finite_threads_upd [OF inv(4)]
    by (intro fine_invI) auto
next
  case (fine_enq_call s t c m as)
  note inv = fine_invD [OF fine_enq_call(2)]
  have t: "f_mutex s = Some t" using inv(1) [of t] fine_enq_call(1) by simp
  have "mq_reachable (enters_queue (Enq_Called m) (f_queues s c))"
    using call_enqueue [OF inv(3)] by (simp add: enters_queue_def)
  then show ?case
    using inv t fine_enq_call(1) finite_threads_upd [OF inv(4)] finite_queues_upd [OF inv(5)]
    by (intro fine_invI) auto
next
  case (fine_enq s t c k as k' q)
  note inv = fine_invD [OF fine_enq(3)] and enq = fine_enqueuing [OF fine_enq(3,1)]
  note q = queue_step [OF fine_enq(2) enq(2) inv(3)]
  show ?case
    using inv enq q action_enqueuer [OF fine_enq(2)] fine_enq(1) finite_threads_upd [OF inv(4)]
      finite_queues_upd [OF inv(5)]
    by (intro fine_invI) (auto split: option.splits)
next
  case (fine_unlock s t)
  note inv = fine_invD [OF fine_unlock(2)]
  have t: "f_mutex s = Some t" using inv(1) [of t] fine_unlock(1) by simp
  show ?case
    using inv t fine_unlock(1) finite_threads_upd [OF inv(4)]
    by (intro fine_invI) (auto simp: guard_unlock_def)
next
  case (fine_deq k s c k' q)
  note inv = fine_invD [OF fine_deq(4)]
  note q = queue_step [OF fine_deq(3,1) inv(3)]
  show ?case
    using inv q action_enqueuer [OF fine_deq(3)] fine_deq(1,2) finite_queues_upd [OF inv(5)]
    by (intro fine_invI) (auto split: option.splits)
qed

lemma fine_reachable_inv: "fine_reachable s \<Longrightarrow> fine_inv s"
  by (induction rule: fine_reachable_induct) (auto intro: fine_inv_init fine_inv_call fine_inv_step)

subsection \<open>Refinement of the atomic queues\<close>

text \<open>
  A message is in the queue from the moment it is pushed until it is popped, whatever the
  semaphore counts meanwhile.
\<close>

definition abs_queue :: "mq_sys \<Rightarrow> message_queue" where
  "abs_queue q = \<lparr>mq_queue = q_items q, mq_avail = length (q_items q)\<rparr>"

definition abs_queues :: "(client_id \<Rightarrow> mq_sys) \<Rightarrow> client_id \<Rightarrow> message_queue" where
  "abs_queues qs = (\<lambda>c. abs_queue (qs c))"

definition abs_server :: "fine \<Rightarrow> server" where
  "abs_server s = (f_server s)\<lparr>m_queues := abs_queues (f_queues s)\<rparr>"

fun to_push :: "client_id \<Rightarrow> mq_thread \<Rightarrow> action list" where
  "to_push c (Enq_Called m) = [Enqueue c m]"
| "to_push c (Enq_Locked m) = [Enqueue c m]"
| "to_push c _ = []"

fun abs_thread :: "fine_thread \<Rightarrow> thread_state" where
  "abs_thread F_Outside = Outside"
| "abs_thread (F_Waiting op) = Waiting op"
| "abs_thread (F_Inside as) = Inside as"
| "abs_thread (F_Enqueuing c k as) = Inside (to_push c k @ as)"

definition abs_threads :: "(nat \<Rightarrow> fine_thread) \<Rightarrow> nat \<Rightarrow> thread_state" where
  "abs_threads ths = (\<lambda>t. abs_thread (ths t))"

definition abs_conc :: "fine \<Rightarrow> conc" where
  "abs_conc s = \<lparr>c_server = abs_server s, c_mutex = f_mutex s,
     c_threads = abs_threads (f_threads s), c_history = f_history s\<rparr>"

lemma abs_threads_simps [simp]:
  "abs_threads ths t = abs_thread (ths t)"
  "abs_threads (ths(t := th)) = (abs_threads ths)(t := abs_thread th)"
  by (simp_all add: abs_threads_def fun_eq_iff)

lemma abs_queues_simps [simp]:
  "abs_queues qs c = abs_queue (qs c)"
  "abs_queues (qs(c := q)) = (abs_queues qs)(c := abs_queue q)"
  by (simp_all add: abs_queues_def fun_eq_iff)

lemma abs_queue_moves [simp]:
  "abs_queue (thread_moves k k' q) = abs_queue q" "abs_queue (enters_queue k q) = abs_queue q"
  by (simp_all add: abs_queue_def)

lemma abs_conc_sel [simp]:
  "c_server (abs_conc s) = abs_server s" "c_mutex (abs_conc s) = f_mutex s"
  "c_threads (abs_conc s) = abs_threads (f_threads s)" "c_history (abs_conc s) = f_history s"
  by (simp_all add: abs_conc_def)

lemma abs_server_sel [simp]:
  "m_queues (abs_server s) c = abs_queue (f_queues s c)"
  by (simp add: abs_server_def)

lemma op_actions_abs: "op_actions op (abs_server s) = op_actions op (f_server s)"
  by (rule op_actions_cong) (simp add: protected_eq_def abs_server_def)

lemma perform_abs:
  "\<not> is_enqueue a \<Longrightarrow> perform a ((f_server s)\<lparr>m_queues := q\<rparr>) = (perform a (f_server s))\<lparr>m_queues := q\<rparr>"
  by (cases a) (simp_all add: store_order_def)

text \<open>What an action does to the contents.\<close>

lemma action_contents:
  assumes "mq_action k k' q q'"
  shows "is_enqueuer k \<Longrightarrow>
      (case k' of Some l \<Rightarrow> to_push c l | None \<Rightarrow> []) = to_push c k \<and> abs_queue q' = abs_queue q \<or>
      (\<exists>m l. k' = Some l \<and> to_push c k = [Enqueue c m] \<and> to_push c l = [] \<and>
         abs_queue q' = mq_enqueue m (abs_queue q))"
    and "\<not> is_enqueuer k \<Longrightarrow>
      popped_op c k' = [] \<and> abs_queue q' = abs_queue q \<or>
      (\<exists>m. popped_op c k' = [Op_dequeue c] \<and>
         mq_dequeue False (abs_queue q) = Inr (Some m, abs_queue q'))"
  using assms
  by (induction rule: mq_action.induct)
    (simp_all add: abs_queue_def popped_op_def mq_enqueue_def mq_dequeue_def)

lemma conc_step_eq: "conc_step s t \<Longrightarrow> t = t' \<Longrightarrow> conc_step s t'"
  by simp

lemma abs_conc_eqI:
  assumes "f_server s = f_server t" and "abs_queues (f_queues s) = abs_queues (f_queues t)"
    and "f_mutex s = f_mutex t" and "abs_threads (f_threads s) = abs_threads (f_threads t)"
    and "f_history s = f_history t"
  shows "abs_conc s = abs_conc t"
  using assms by (simp add: abs_conc_def abs_server_def)

lemma abs_step: "fine_step s t \<Longrightarrow> fine_inv s \<Longrightarrow> abs_conc t = abs_conc s \<or> conc_step (abs_conc s) (abs_conc t)"
proof (induction rule: fine_step.induct)
  case (fine_lock s t op m)
  show ?case
    by (rule disjI2, rule conc_step_eq, rule conc_lock [of _ t op m])
      (use fine_lock in \<open>simp_all add: op_actions_abs del: fun_upd_apply\<close>,
        simp add: abs_conc_def abs_server_def del: fun_upd_apply)
next
  case (fine_act s t a as)
  show ?case
    by (rule disjI2, rule conc_step_eq, rule conc_act [of _ t a as])
      (use fine_act in \<open>simp_all del: fun_upd_apply\<close>,
        simp add: abs_conc_def abs_server_def perform_abs del: fun_upd_apply)
next
  case (fine_enq_call s t c m as)
  then show ?case
    by (intro disjI1 abs_conc_eqI) (simp_all add: fun_upd_idem_iff del: fun_upd_apply)
next
  case (fine_enq s t c k as k' q)
  let ?th = "case k' of Some l \<Rightarrow> F_Enqueuing c l as | None \<Rightarrow> F_Inside as"
  have th: "abs_thread ?th = Inside ((case k' of Some l \<Rightarrow> to_push c l | None \<Rightarrow> []) @ as)"
    by (cases k') simp_all
  from action_contents(1) [OF fine_enq(2) fine_enqueuing(3) [OF fine_enq(3,1)], of c] show ?case
  proof
    assume "(case k' of Some l \<Rightarrow> to_push c l | None \<Rightarrow> []) = to_push c k \<and>
      abs_queue q = abs_queue (f_queues s c)"
    then show ?thesis
      using fine_enq(1) th
      by (intro disjI1 abs_conc_eqI) (simp_all add: fun_upd_idem_iff del: fun_upd_apply)
  next
    assume "\<exists>m l. k' = Some l \<and> to_push c k = [Enqueue c m] \<and> to_push c l = [] \<and>
      abs_queue q = mq_enqueue m (abs_queue (f_queues s c))"
    then obtain m l where m: "k' = Some l" "to_push c k = [Enqueue c m]" "to_push c l = []"
      "abs_queue q = mq_enqueue m (abs_queue (f_queues s c))" by blast
    have "c_threads (abs_conc s) t = Inside (Enqueue c m # as)"
      using fine_enq(1) m(2) by simp
    from conc_act [OF this] show ?thesis
      using m th
      by (intro disjI2) (erule conc_step_eq,
        simp add: abs_conc_def abs_server_def client_enqueue_def del: fun_upd_apply)
  qed
next
  case (fine_unlock s t)
  show ?case
    by (rule disjI2, rule conc_step_eq, rule conc_unlock [of _ t])
      (use fine_unlock in \<open>simp_all del: fun_upd_apply\<close>,
        simp add: abs_conc_def abs_server_def del: fun_upd_apply)
next
  case (fine_deq k s c k' q)
  from action_contents(2) [OF fine_deq(3,2), of c] show ?case
  proof
    assume "popped_op c k' = [] \<and> abs_queue q = abs_queue (f_queues s c)"
    then show ?thesis
      by (intro disjI1 abs_conc_eqI) (simp_all add: fun_upd_idem_iff del: fun_upd_apply)
  next
    assume "\<exists>m. popped_op c k' = [Op_dequeue c] \<and>
      mq_dequeue False (abs_queue (f_queues s c)) = Inr (Some m, abs_queue q)"
    then obtain m where m: "popped_op c k' = [Op_dequeue c]"
      "mq_dequeue False (abs_queue (f_queues s c)) = Inr (Some m, abs_queue q)" by blast
    then have "client_dequeue False c (abs_server s) =
        (Inr (Some m), (abs_server s)\<lparr>m_queues := (m_queues (abs_server s))(c := abs_queue q)\<rparr>)"
      by (simp add: client_dequeue_def)
    from conc_dequeue [of False c "abs_conc s", simplified, OF this] show ?thesis
      using m(1)
      by (intro disjI2) (erule conc_step_eq, simp add: abs_conc_def abs_server_def dequeue_ops_def del: fun_upd_apply)
  qed
qed

lemma abs_call: "fine_call s t \<Longrightarrow> abs_conc t = abs_conc s \<or> conc_step (abs_conc s) (abs_conc t)"
proof (induction rule: fine_call.induct)
  case (call_server s t op)
  show ?case
    by (rule disjI2, rule conc_step_eq, rule conc_call [of _ t op])
      (use call_server in \<open>simp_all del: fun_upd_apply\<close>,
        simp add: abs_conc_def abs_server_def del: fun_upd_apply)
next
  case (call_queue s c)
  show ?case
    by (intro disjI1 abs_conc_eqI) (simp_all add: fun_upd_idem_iff del: fun_upd_apply)
qed

lemma abs_init: "abs_conc fine_init = conc_init"
  by (simp add: abs_conc_def abs_server_def conc_init_def fine_init_def server_init_def abs_queues_def
      abs_queue_def mq_sys_init_def mq_init_def abs_threads_def)

lemma fine_reachable_abs: "fine_reachable s \<Longrightarrow> conc_reachable (abs_conc s)"
proof (induction rule: fine_reachable_induct)
  case start
  show ?case by (simp add: abs_init conc_reachable_def)
next
  case (call s t)
  with abs_call show ?case by (metis conc_reachable_step)
next
  case (step s t)
  with abs_step fine_reachable_inv show ?case by (metis conc_reachable_step)
qed

text \<open>
  C6: the queues' separate mutexes and semaphores do not break the server's atomicity. With the
  statements of every operation, and the lock, push, unlock and post actions of every message
  it enqueues, interleaved with the actions of any number of calls of \<open>dequeue\<close>: at most one
  thread is inside an operation of the server; only that thread is inside \<open>enqueue\<close> of a queue; a thread about to take the front of
  a queue finds a message; and the state, once the operation in progress is completed, is what the
  operations and the dequeues give when performed one after the other.
\<close>

theorem queues_refine_atomic:
  assumes "fine_reachable s"
  shows "completed (abs_conc s) = server_run (f_history s) server_init \<and>
    (\<forall>t u. inside_server (f_threads s t) \<and> inside_server (f_threads s u) \<longrightarrow> t = u) \<and>
    (\<forall>c. filter_mset is_enqueuer (q_threads (f_queues s c)) =
       holder_enqueues (f_mutex s) (f_threads s) c) \<and>
    (\<forall>c. Deq_Locked \<in># q_threads (f_queues s c) \<longrightarrow> q_items (f_queues s c) \<noteq> [])"
proof -
  note inv = fine_invD [OF fine_reachable_inv [OF assms]]
  have "completed (abs_conc s) = server_run (f_history s) server_init"
    using lock_invD(5) [OF reachable_lock_inv [OF fine_reachable_abs [OF assms]]] by simp
  moreover have "q_items (f_queues s c) \<noteq> []" if "Deq_Locked \<in># q_threads (f_queues s c)" for c
    using mq_pop_finds_message [OF mq_reachable_inv [OF inv(3)] that] .
  ultimately show ?thesis using inv(1,2) by auto
qed

subsection \<open>Every call returns\<close>

definition all_returned :: "fine \<Rightarrow> bool" where
  "all_returned s \<longleftrightarrow> (\<forall>t. f_threads s t = F_Outside) \<and> (\<forall>c. q_threads (f_queues s c) = {#})"

lemma thread_inside_steps:
  assumes "fine_inv s" and "inside_server (f_threads s t)" and "\<And>c. q_threads (f_queues s c) = {#}"
  shows "\<exists>s'. fine_step s s'"
proof (cases "f_threads s t")
  case (F_Inside as)
  show ?thesis
  proof (cases as)
    case Nil
    with F_Inside show ?thesis by (auto intro: fine_unlock)
  next
    case (Cons a as')
    with F_Inside show ?thesis
      using fine_act [of s t a as'] fine_enq_call [of s t] by (cases a) fastforce+
  qed
next
  case (F_Enqueuing c k as)
  with fine_enqueuing(2) [OF assms(1) this] assms(3) show ?thesis by simp
qed (use assms(2) in simp_all)

lemma queue_thread_steps:
  assumes "fine_inv s" and "k \<in># q_threads (f_queues s c)" and "mq_action k k' (f_queues s c) q"
  shows "\<exists>s'. fine_step s s'"
proof (cases "is_enqueuer k")
  case True
  with assms(2) have "k \<in># holder_enqueues (f_mutex s) (f_threads s) c"
    using fine_invD(2) [OF assms(1), of c, symmetric] by simp
  then obtain t as where "f_threads s t = F_Enqueuing c k as"
    by (cases "f_mutex s"; cases "f_threads s (the (f_mutex s))") (auto split: if_splits)
  with assms(3) show ?thesis by (auto intro: fine_enq)
next
  case False
  with assms show ?thesis by (auto intro: fine_deq)
qed

lemma not_deadlocked:
  assumes "fine_inv s" and "\<not> all_returned s"
  shows "\<exists>s'. fine_step s s'"
proof (cases "\<exists>c. q_threads (f_queues s c) \<noteq> {#}")
  case True
  then obtain c where "q_threads (f_queues s c) \<noteq> {#}" by blast
  with mq_someone_can_act [OF mq_reachable_inv [OF fine_invD(3) [OF assms(1)]]]
  show ?thesis using queue_thread_steps [OF assms(1)] by metis
next
  case False
  then obtain t where t: "f_threads s t \<noteq> F_Outside"
    using assms(2) by (auto simp: all_returned_def)
  show ?thesis
  proof (cases "f_mutex s")
    case None
    with fine_invD(1) [OF assms(1), of t] t obtain op where "f_threads s t = F_Waiting op"
      by (cases "f_threads s t") auto
    with None show ?thesis by (auto intro!: exI fine_lock simp: guard_lock_def)
  next
    case (Some u)
    with fine_invD(1) [OF assms(1), of u] False show ?thesis
      by (intro thread_inside_steps [OF assms(1), of u]) auto
  qed
qed

text \<open>What is left to do, counted in actions.\<close>

fun actions_left :: "mq_thread \<Rightarrow> nat" where
  "actions_left (Enq_Called m) = 4"
| "actions_left (Enq_Locked m) = 3"
| "actions_left Enq_Pushed = 2"
| "actions_left Enq_Unlocked = 1"
| "actions_left Deq_Called = 4"
| "actions_left Deq_Taken = 3"
| "actions_left Deq_Locked = 2"
| "actions_left (Deq_Popped m) = 1"

definition queue_left :: "mq_sys \<Rightarrow> nat" where
  "queue_left q = sum_mset (image_mset actions_left (q_threads q))"

definition queues_left :: "(client_id \<Rightarrow> mq_sys) \<Rightarrow> nat" where
  "queues_left qs = (\<Sum>c | q_threads (qs c) \<noteq> {#}. queue_left (qs c))"

fun thread_left :: "fine_thread \<Rightarrow> nat" where
  "thread_left (F_Inside as) = 1 + 6 * length as"
| "thread_left (F_Enqueuing c k as) = 1 + 6 * length as"
| "thread_left _ = 0"

fun holder_left :: "nat option \<Rightarrow> (nat \<Rightarrow> fine_thread) \<Rightarrow> nat" where
  "holder_left None ths = 0"
| "holder_left (Some t) ths = thread_left (ths t)"

definition waiting :: "(nat \<Rightarrow> fine_thread) \<Rightarrow> nat set" where
  "waiting ths = {t. \<exists>op. ths t = F_Waiting op}"

definition work_left :: "fine \<Rightarrow> nat" where
  "work_left s = holder_left (f_mutex s) (f_threads s) + queues_left (f_queues s)"

lemma queues_left_upd:
  assumes "finite {c. q_threads (qs c) \<noteq> {#}}"
  shows "queues_left (qs(c := q)) + queue_left (qs c) = queues_left qs + queue_left q"
proof -
  let ?A = "{c. q_threads (qs c) \<noteq> {#}} - {c}"
  have over: "queues_left rs = queue_left (rs c) + (\<Sum>d\<in>?A. queue_left (rs d))"
    if "\<And>d. d \<noteq> c \<Longrightarrow> rs d = qs d" for rs
  proof -
    have "queues_left rs = (\<Sum>d\<in>insert c ?A. queue_left (rs d))"
      unfolding queues_left_def using assms that
      by (intro sum.mono_neutral_left) (auto simp: queue_left_def)
    then show ?thesis using assms by (simp add: sum.insert_remove)
  qed
  have "(\<Sum>d\<in>?A. queue_left ((qs(c := q)) d)) = (\<Sum>d\<in>?A. queue_left (qs d))"
    by (rule sum.cong) simp_all
  then show ?thesis using over [of qs] over [of "qs(c := q)"] by simp
qed

lemma action_left:
  assumes "mq_action k k' q q'" and "k \<in># q_threads q"
  shows "queue_left (thread_moves k k' q') < queue_left q"
proof -
  obtain R where R: "q_threads q = add_mset k R"
    using assms(2) by (blast dest: multi_member_split)
  have "(case k' of None \<Rightarrow> 0 | Some l \<Rightarrow> actions_left l) < actions_left k"
    using assms(1) by (induction rule: mq_action.induct) simp_all
  then show ?thesis
    using R mq_action_threads [OF assms(1)] by (cases k') (simp_all add: queue_left_def)
qed

lemma waiting_lock: "waiting (ths(t := F_Inside as)) = waiting ths - {t}"
  by (auto simp: waiting_def split: if_splits)

lemma waiting_same:
  "(\<And>op. ths t \<noteq> F_Waiting op) \<Longrightarrow> (\<And>op. th \<noteq> F_Waiting op) \<Longrightarrow> waiting (ths(t := th)) = waiting ths"
  by (auto simp: waiting_def)

lemma step_decreases:
  "fine_step s s' \<Longrightarrow> fine_inv s \<Longrightarrow>
     card (waiting (f_threads s')) < card (waiting (f_threads s)) \<or>
     waiting (f_threads s') = waiting (f_threads s) \<and> work_left s' < work_left s"
proof (induction rule: fine_step.induct)
  case (fine_lock s t op m)
  have "finite (waiting (f_threads s))"
    by (rule finite_subset [OF _ fine_invD(4) [OF fine_lock(3)]]) (auto simp: waiting_def)
  moreover have "t \<in> waiting (f_threads s)" using fine_lock(1) by (simp add: waiting_def)
  ultimately have "card (waiting (f_threads s) - {t}) < card (waiting (f_threads s))"
    by (rule card_Diff1_less)
  then show ?case by (simp add: waiting_lock del: fun_upd_apply)
next
  case (fine_act s t a as)
  have "f_mutex s = Some t" using fine_invD(1) [OF fine_act(3), of t] fine_act(1) by simp
  with fine_act(1) show ?case by (simp add: waiting_same work_left_def fun_upd_same del: fun_upd_apply)
next
  case (fine_enq_call s t c m as)
  have "f_mutex s = Some t" using fine_invD(1) [OF fine_enq_call(2), of t] fine_enq_call(1) by simp
  with fine_enq_call(1) show ?case
    using queues_left_upd [OF fine_invD(5) [OF fine_enq_call(2)], of c "enters_queue (Enq_Called m) (f_queues s c)"]
    by (simp add: waiting_same work_left_def queue_left_def fun_upd_same del: fun_upd_apply)
next
  case (fine_enq s t c k as k' q)
  note enq = fine_enqueuing [OF fine_enq(3,1)]
  have "queues_left ((f_queues s)(c := thread_moves k k' q)) < queues_left (f_queues s)"
    using queues_left_upd [OF fine_invD(5) [OF fine_enq(3)], of c "thread_moves k k' q"]
      action_left [OF fine_enq(2) enq(2)] by simp
  then show ?case
    using fine_enq(1) enq(1) by (cases k') (simp_all add: waiting_same work_left_def fun_upd_same del: fun_upd_apply)
next
  case (fine_unlock s t)
  have "f_mutex s = Some t" using fine_invD(1) [OF fine_unlock(2), of t] fine_unlock(1) by simp
  with fine_unlock(1) show ?case
    by (simp add: waiting_same work_left_def guard_unlock_def fun_upd_same del: fun_upd_apply)
next
  case (fine_deq k s c k' q)
  have "queues_left ((f_queues s)(c := thread_moves k k' q)) < queues_left (f_queues s)"
    using queues_left_upd [OF fine_invD(5) [OF fine_deq(4)], of c "thread_moves k k' q"]
      action_left [OF fine_deq(3,1)] by simp
  then show ?case by (simp add: work_left_def)
qed

lemma steps_end:
  assumes "fine_inv s"
  shows "Wellfounded.accp (\<lambda>t s. fine_step s t) s"
  using assms
proof (induction "(card (waiting (f_threads s)), work_left s)" arbitrary: s
    rule: wf_induct [OF wf_lex_prod [OF wf_less wf_less]])
  case 1
  show ?case
  proof (rule accpI)
    fix t assume t: "fine_step s t"
    from step_decreases [OF this 1(2)] have
      "((card (waiting (f_threads t)), work_left t), (card (waiting (f_threads s)), work_left s))
        \<in> {(x, y). x < y} <*lex*> {(x, y). x < y}"
      by auto
    with 1(1) fine_inv_step [OF t 1(2)] show "Wellfounded.accp (\<lambda>t s. fine_step s t) t" by blast
  qed
qed

lemma can_all_return:
  assumes "fine_inv s"
  shows "\<exists>s'. fine_step\<^sup>*\<^sup>* s s' \<and> all_returned s'"
  using steps_end [OF assms] assms
proof (induction rule: accp.induct)
  case (accI s)
  show ?case
  proof (cases "all_returned s")
    case False
    then obtain t where t: "fine_step s t" using not_deadlocked [OF accI(3)] by blast
    with accI(2) fine_inv_step [OF t accI(3)] show ?thesis by (blast intro: converse_rtranclp_into_rtranclp)
  qed blast
qed

text \<open>
  C13: the two kinds of mutexes and the semaphores never block the threads for ever: from every
  reachable state the threads inside calls, going on in any order, all come out after finitely many steps.
  No infinite sequence of their steps exists; as long as one is inside a call, one of them can go on; and
  they can all return.
\<close>

theorem every_call_returns:
  assumes "fine_reachable s"
  shows "Wellfounded.accp (\<lambda>t s. fine_step s t) s \<and>
    (\<not> all_returned s \<longrightarrow> (\<exists>t. fine_step s t)) \<and>
    (\<exists>t. fine_step\<^sup>*\<^sup>* s t \<and> all_returned t)"
  using steps_end not_deadlocked can_all_return fine_reachable_inv [OF assms] by blast

subsection \<open>An example\<close>

text \<open>A new order is being announced to a display whose session is about to take a message.\<close>

lemma announcing_example:
  "\<exists>s. fine_reachable s \<and> f_threads s 3 = F_Enqueuing 7 Enq_Pushed [] \<and>
     q_threads (f_queues s 7) = {#Enq_Pushed, Deq_Called#} \<and> q_items (f_queues s 7) = [announcement] \<and>
     q_avail (f_queues s 7) = 0 \<and> f_history s = [Op_register 7, Op_new_order two_item_order]"
proof -
  note call = fine_reachable_call and step = fine_reachable_step
  let ?s1 = "fine_init\<lparr>f_threads := (f_threads fine_init)(3 := F_Waiting (Op_register 7))\<rparr>"
  let ?s2 = "?s1\<lparr>f_mutex := Some 3, f_history := f_history ?s1 @ [Op_register 7],
    f_threads := (f_threads ?s1)(3 := F_Inside (op_actions (Op_register 7) (f_server ?s1)))\<rparr>"
  let ?s3 = "?s2\<lparr>f_server := perform (Add_display 7) (f_server ?s2), f_threads := (f_threads ?s2)(3 := F_Inside [])\<rparr>"
  let ?s4 = "?s3\<lparr>f_mutex := guard_unlock (f_mutex ?s3), f_threads := (f_threads ?s3)(3 := F_Outside)\<rparr>"
  have "fine_reachable ?s1"
    by (rule call [OF fine_reachable_start call_server]) (simp_all add: fine_init_def)
  then have "fine_reachable ?s2"
    by (rule step [OF _ fine_lock]) (simp_all add: fine_init_def guard_lock_def)
  then have "fine_reachable ?s3"
    by (rule step [OF _ fine_act]) (simp_all add: fine_init_def server_init_def)
  then have "fine_reachable ?s4"
    by (rule step [OF _ fine_unlock]) simp
  then obtain s4 where s4: "fine_reachable s4" "f_mutex s4 = None" "f_threads s4 = (\<lambda>_. F_Outside)"
    "f_queues s4 = (\<lambda>_. mq_sys_init)" "f_history s4 = [Op_register 7]"
    "f_server s4 = server_init\<lparr>m_display_clients := [7]\<rparr>"
    by (rule that) (simp_all add: fine_init_def guard_unlock_def server_init_def fun_eq_iff)
  let ?op = "Op_new_order two_item_order" and ?x = "created_order 1000 two_item_order"
  have acts: "op_actions ?op (server_init\<lparr>m_display_clients := [7]\<rparr>) =
      [Set_next_id 1001, Set_order 1000 ?x, Enqueue 7 announcement]"
    by code_simp
  let ?s5 = "s4\<lparr>f_threads := (f_threads s4)(3 := F_Waiting ?op)\<rparr>"
  let ?s6 = "?s5\<lparr>f_mutex := Some 3, f_history := f_history ?s5 @ [?op],
    f_threads := (f_threads ?s5)(3 := F_Inside (op_actions ?op (f_server ?s5)))\<rparr>"
  let ?s7 = "?s6\<lparr>f_server := perform (Set_next_id 1001) (f_server ?s6),
    f_threads := (f_threads ?s6)(3 := F_Inside [Set_order 1000 ?x, Enqueue 7 announcement])\<rparr>"
  let ?s8 = "?s7\<lparr>f_server := perform (Set_order 1000 ?x) (f_server ?s7),
    f_threads := (f_threads ?s7)(3 := F_Inside [Enqueue 7 announcement])\<rparr>"
  have "fine_reachable ?s5" by (rule call [OF s4(1) call_server]) (simp_all add: s4)
  then have "fine_reachable ?s6" by (rule step [OF _ fine_lock]) (simp_all add: s4 guard_lock_def)
  then have "fine_reachable ?s7" by (rule step [OF _ fine_act]) (simp_all add: s4 acts del: op_actions.simps)
  then have "fine_reachable ?s8" by (rule step [OF _ fine_act]) simp_all
  then obtain s8 where s8: "fine_reachable s8" "f_threads s8 3 = F_Inside [Enqueue 7 announcement]"
    "f_queues s8 = (\<lambda>_. mq_sys_init)" "f_history s8 = [Op_register 7, ?op]"
    by (rule that) (simp_all add: s4)
  let ?q = "\<lambda>s. f_queues s 7"
  let ?s9 = "s8\<lparr>f_threads := (f_threads s8)(3 := F_Enqueuing 7 (Enq_Called announcement) []),
    f_queues := (f_queues s8)(7 := enters_queue (Enq_Called announcement) (?q s8))\<rparr>"
  have r9: "fine_reachable ?s9" by (rule step [OF s8(1) fine_enq_call [OF s8(2)]])
  have "mq_action (Enq_Called announcement) (Some (Enq_Locked announcement)) (?q ?s9) ((?q ?s9)\<lparr>q_locked := True\<rparr>)"
    by (rule enq_lock) (simp add: s8(3) enters_queue_def mq_sys_init_def)
  from step [OF r9 fine_enq [OF _ this, of 3 "[]"]] obtain s10 where s10: "fine_reachable s10"
    "f_threads s10 3 = F_Enqueuing 7 (Enq_Locked announcement) []"
    "q_threads (?q s10) = {#Enq_Locked announcement#}" "q_items (?q s10) = []" "q_avail (?q s10) = 0"
    "f_history s10 = [Op_register 7, ?op]"
    by (rule that) (simp_all add: s8 enters_queue_def thread_moves_def mq_sys_init_def)
  from call [OF s10(1) call_queue [of s10 7]] obtain s11 where s11: "fine_reachable s11"
    "f_threads s11 3 = F_Enqueuing 7 (Enq_Locked announcement) []"
    "q_threads (?q s11) = {#Enq_Locked announcement, Deq_Called#}" "q_items (?q s11) = []" "q_avail (?q s11) = 0"
    "f_history s11 = [Op_register 7, ?op]"
    by (rule that) (simp_all add: s10 enters_queue_def)
  from step [OF s11(1) fine_enq [OF s11(2) enq_push]] obtain s12 where "fine_reachable s12"
    "f_threads s12 3 = F_Enqueuing 7 Enq_Pushed []" "q_threads (?q s12) = {#Enq_Pushed, Deq_Called#}"
    "q_items (?q s12) = [announcement]" "q_avail (?q s12) = 0" "f_history s12 = [Op_register 7, ?op]"
    by (rule that) (simp_all add: s11 thread_moves_def)
  then show ?thesis by (intro exI [of _ s12] conjI)
qed

lemma queues_refine_atomic_witness:
  "\<exists>s. fine_reachable s \<and> f_threads s 3 = F_Enqueuing 7 Enq_Pushed [] \<and>
     completed (abs_conc s) = server_run [Op_register 7, Op_new_order two_item_order] server_init"
  using announcing_example queues_refine_atomic by metis

lemma every_call_returns_witness:
  "\<exists>s t. fine_reachable s \<and> f_threads s 3 = F_Enqueuing 7 Enq_Pushed [] \<and>
     Deq_Called \<in># q_threads (f_queues s 7) \<and> fine_step\<^sup>*\<^sup>* s t \<and> all_returned t"
proof -
  obtain s where s: "fine_reachable s" "f_threads s 3 = F_Enqueuing 7 Enq_Pushed []"
    "q_threads (f_queues s 7) = {#Enq_Pushed, Deq_Called#}"
    using announcing_example by blast
  moreover have "Deq_Called \<in># q_threads (f_queues s 7)" by (simp add: s(3))
  ultimately show ?thesis using every_call_returns [OF s(1)] by blast
qed

end
